(* ===== verification/Prelude.thy ===== *)
theory Prelude
  imports Main "HOL-Library.Word"
begin

text \<open>
  Shared vocabulary of the development: the Go integer types, the wrap-around of Go's signed
  64-bit arithmetic, Go's truncating division, the lemma collections and the generic facts on
  words and lists that the component theories use.

  Unsigned Go integers are machine words (\<open>uint8\<close>, \<open>uint16\<close>, \<open>uint32\<close>, \<open>uint64\<close>), so that
  additions, subtractions and shifts wrap exactly as in the source.  Signed 64-bit integers
  (\<open>int64\<close>, \<open>int\<close>, \<open>time.Duration\<close>) are mathematical integers, with \<open>wrap64\<close> written at every
  operation that can leave the range.  An \<open>int32\<close> is a 32-bit word read by \<open>sint\<close>.
\<close>

unbundle bit_operations_syntax

type_synonym uint8 = "8 word"
type_synonym uint16 = "16 word"
type_synonym uint32 = "32 word"
type_synonym uint64 = "64 word"
type_synonym int32 = "32 word"
type_synonym int64 = int
type_synonym bytes = "uint8 list"

named_theorems go_arith \<open>bounds and normalisation of Go integer arithmetic\<close>

subsection \<open>Signed 64-bit integers\<close>

definition maxI64 :: int64 where
  "maxI64 = 9223372036854775807"

definition minI64 :: int64 where
  "minI64 = -9223372036854775808"

definition in_i64 :: "int \<Rightarrow> bool" where
  "in_i64 x \<longleftrightarrow> minI64 \<le> x \<and> x \<le> maxI64"

definition wrap64 :: "int \<Rightarrow> int64" where
  "wrap64 x = (x + 9223372036854775808) mod 18446744073709551616 - 9223372036854775808"

lemma wrap64_id [go_arith]: "in_i64 x \<Longrightarrow> wrap64 x = x"
  by (simp add: wrap64_def in_i64_def minI64_def maxI64_def)

lemma in_i64_wrap64 [simp, go_arith]: "in_i64 (wrap64 x)"
proof -
  have "0 \<le> (x + 9223372036854775808) mod 18446744073709551616"
    and "(x + 9223372036854775808) mod 18446744073709551616 < 18446744073709551616"
    by simp_all
  then show ?thesis
    by (simp add: wrap64_def in_i64_def minI64_def maxI64_def)
qed

text \<open>Go's integer division and remainder truncate towards zero.\<close>

definition quot :: "int \<Rightarrow> int \<Rightarrow> int" where
  "quot a b = sgn a * sgn b * (\<bar>a\<bar> div \<bar>b\<bar>)"

definition rem :: "int \<Rightarrow> int \<Rightarrow> int" where
  "rem a b = a - b * quot a b"

lemma quot_nonneg [go_arith]: "0 \<le> a \<Longrightarrow> 0 < b \<Longrightarrow> quot a b = a div b"
  by (cases "a = 0") (simp_all add: quot_def)

lemma rem_nonneg [go_arith]: "0 \<le> a \<Longrightarrow> 0 < b \<Longrightarrow> rem a b = a mod b"
  by (simp add: rem_def quot_nonneg minus_mult_div_eq_mod)

subsection \<open>Words\<close>

lemma unat_ucast_up [simp]:
  fixes x :: "'a::len word"
  assumes "LENGTH('a) \<le> LENGTH('b)"
  shows "unat (ucast x :: 'b::len word) = unat x"
  using assms by (simp add: unsigned_ucast_eq take_bit_nat_eq_self_iff order_less_le_trans [OF unsigned_less])

lemma unat_le_iff: "(x :: 'a::len word) \<le> y \<longleftrightarrow> unat x \<le> unat y"
  by (rule word_le_nat_alt)

lemma unat_less_iff: "(x :: 'a::len word) < y \<longleftrightarrow> unat x < unat y"
  by (rule word_less_nat_alt)

lemma unat_eq_iff: "(x :: 'a::len word) = y \<longleftrightarrow> unat x = unat y"
  by (rule word_unat_eq_iff)

lemma unat_of_nat_id: "n < 2 ^ LENGTH('a) \<Longrightarrow> unat (word_of_nat n :: 'a::len word) = n"
  by (simp add: unsigned_of_nat take_bit_nat_eq_self)

lemma unat_pos_iff [simp]: "0 < unat (x :: 'a::len word) \<longleftrightarrow> x \<noteq> 0"
  by (simp add: unat_eq_0 zero_less_iff_neq_zero)

lemma unat_lt32: "unat (x :: uint32) < 4294967296"
  using unsigned_less [of x, where ?'a = nat] by simp

lemma unat_lt64: "unat (x :: uint64) < 18446744073709551616"
  using unsigned_less [of x, where ?'a = nat] by simp

lemma unat_lt16: "unat (x :: uint16) < 65536"
  using unsigned_less [of x, where ?'a = nat] by simp

end
