(* ===== verification/Mux_Config.thy ===== *)
theory Mux_Config
  imports Complex_Main Prelude
begin

text \<open>
  The multiplexer's configuration and its receive budget: \<open>src/lib/mux/config.go\<close>, the budget
  half of \<open>src/lib/mux/budget.go\<close>, the timeout resolution of \<open>src/lib/mux/mux.go\<close> and the pure
  helpers of \<open>src/lib/mux/socket.go\<close>.

  Durations are nanoseconds (\<open>int64\<close>).  A \<open>float64\<close> configuration value is the rational number it
  denotes.  The package variable \<open>PingInterval\<close>, the only default the programs overwrite, is an
  argument of \<open>DefaultMuxConfig\<close>; the other package variables are their initial values.
\<close>

named_theorems mux_consts \<open>numeric constants of package mux\<close>

subsection \<open>Constants\<close>

definition second :: int64 where
  "second = 1000000000"

definition poolSizeBuffer :: int64 where
  "poolSizeBuffer = 4096"

definition poolSizeWindow :: int64 where
  "poolSizeWindow = poolSizeBuffer - 2 - 4 - 4 - 1"

definition maximumSegmentSize :: int64 where
  "maximumSegmentSize = poolSizeWindow"

definition maximumWindowSize :: int64 where
  "maximumWindowSize = 134217728"

definition defaultInitialConnWindow :: int64 where
  "defaultInitialConnWindow = maximumSegmentSize * 30"

definition mask31 :: int64 where
  "mask31 = 2147483647"

lemma poolSizeBuffer_val [mux_consts]: "poolSizeBuffer = 4096"
  by (simp add: poolSizeBuffer_def)

lemma maximumSegmentSize_val [mux_consts]: "maximumSegmentSize = 4085"
  by (simp add: maximumSegmentSize_def poolSizeWindow_def poolSizeBuffer_def)

lemma defaultInitialConnWindow_val [mux_consts]: "defaultInitialConnWindow = 122550"
  by (simp add: defaultInitialConnWindow_def maximumSegmentSize_val)

declare maximumWindowSize_def [mux_consts] mask31_def [mux_consts] second_def [mux_consts]

subsection \<open>MuxConfig\<close>

record MuxConfig =
  PingInterval :: int64
  PingJitter :: int64
  PingMaxPad :: int64
  AcceptBacklog :: int64
  MaxConnReceiveWindow :: uint32
  MaxSessionReceiveWindow :: uint64
  PingTimeout :: int64
  MinPingTimeout :: int64
  OpenTimeout :: int64
  ReadTimeout :: int64
  WriteTimeout :: int64
  SocketKeepAlive :: int64
  DisableSocketNoDelay :: bool
  CloseTimeout :: int64
  WriteQueueHighWater :: uint64
  WriteQueueLowWater :: uint64
  DisablePingPadRandom :: bool
  DisableTrafficAwarePing :: bool
  PingTimeoutMultiplier :: rat
  DisableAdaptivePingTimeout :: bool

definition DefaultMuxConfig :: "int64 \<Rightarrow> MuxConfig" where
  "DefaultMuxConfig pingInterval = \<lparr>
     PingInterval = pingInterval,
     PingJitter = 2 * second,
     PingMaxPad = 16,
     AcceptBacklog = 1024,
     MaxConnReceiveWindow = word_of_int maximumWindowSize,
     MaxSessionReceiveWindow = word_of_int maximumWindowSize * 2,
     PingTimeout = 0,
     MinPingTimeout = 0,
     OpenTimeout = 0,
     ReadTimeout = 0,
     WriteTimeout = 0,
     SocketKeepAlive = 15 * second,
     DisableSocketNoDelay = False,
     CloseTimeout = 5 * second,
     WriteQueueHighWater = 2048,
     WriteQueueLowWater = 1024,
     DisablePingPadRandom = False,
     DisableTrafficAwarePing = False,
     PingTimeoutMultiplier = 6,
     DisableAdaptivePingTimeout = False\<rparr>"

definition absoluteDuration :: "int64 \<Rightarrow> int64" where
  "absoluteDuration d = (if d < 0 then wrap64 (- d) else d)"

definition cfg_normalizedMaxConnReceiveWindow :: "MuxConfig \<Rightarrow> uint32" where
  "cfg_normalizedMaxConnReceiveWindow cfg =
     (let n = MaxConnReceiveWindow cfg;
          n = (if n < word_of_int defaultInitialConnWindow
               then word_of_int defaultInitialConnWindow else n)
      in if word_of_int mask31 < n then word_of_int mask31 else n)"

definition cfg_normalizedMaxSessionReceiveWindow :: "MuxConfig \<Rightarrow> uint64" where
  "cfg_normalizedMaxSessionReceiveWindow cfg =
     (let n = MaxSessionReceiveWindow cfg;
          lo = ucast (cfg_normalizedMaxConnReceiveWindow cfg);
          n = (if n < lo then lo else n)
      in if word_of_int mask31 < n then word_of_int mask31 else n)"

definition normalizeWriteQueueWatermarks :: "uint64 \<Rightarrow> uint64 \<Rightarrow> uint64 \<times> uint64" where
  "normalizeWriteQueueWatermarks high low =
     (let high = (if high = 0 then 2048 else high);
          low = (if low = 0 then 1024 else low);
          high = (if high < 2 then 2 else high);
          low = (if low = 0 then 1 else low);
          low = (if high \<le> low
                 then (let half = high div 2 in if half = 0 then 1 else half)
                 else low)
      in (high, low))"

definition normalizeMuxConfig :: "MuxConfig \<Rightarrow> MuxConfig" where
  "normalizeMuxConfig cfg =
     (let cfg1 = cfg\<lparr>
            PingJitter := absoluteDuration (PingJitter cfg),
            PingMaxPad :=
              (if PingMaxPad cfg < 0 then 0
               else if maximumSegmentSize - 8 < PingMaxPad cfg then maximumSegmentSize - 8
               else PingMaxPad cfg),
            AcceptBacklog := (if AcceptBacklog cfg \<le> 0 then 1 else AcceptBacklog cfg),
            MaxConnReceiveWindow := cfg_normalizedMaxConnReceiveWindow cfg\<rparr>
      in cfg1\<lparr>
            MaxSessionReceiveWindow := cfg_normalizedMaxSessionReceiveWindow cfg1,
            PingTimeout := (if PingTimeout cfg < 0 then 0 else PingTimeout cfg),
            MinPingTimeout := (if MinPingTimeout cfg < 0 then 0 else MinPingTimeout cfg),
            OpenTimeout := (if OpenTimeout cfg < 0 then 0 else OpenTimeout cfg),
            SocketKeepAlive :=
              (if SocketKeepAlive cfg < 0 then 0
               else if SocketKeepAlive cfg = 0 then 15 * second else SocketKeepAlive cfg),
            CloseTimeout :=
              (if CloseTimeout cfg < 0 then 0
               else if CloseTimeout cfg = 0 then 5 * second else CloseTimeout cfg),
            PingTimeoutMultiplier :=
              (if PingTimeoutMultiplier cfg \<le> 0 then 6 else PingTimeoutMultiplier cfg),
            WriteQueueHighWater :=
              fst (normalizeWriteQueueWatermarks (WriteQueueHighWater cfg) (WriteQueueLowWater cfg)),
            WriteQueueLowWater :=
              snd (normalizeWriteQueueWatermarks (WriteQueueHighWater cfg) (WriteQueueLowWater cfg))\<rparr>)"

definition initialPingInterval :: int64 where
  "initialPingInterval = 5 * second"

definition normalizedMaxConnReceiveWindow :: uint32 where
  "normalizedMaxConnReceiveWindow =
     MaxConnReceiveWindow (normalizeMuxConfig (DefaultMuxConfig initialPingInterval))"

definition normalizedMaxSessionReceiveWindow :: uint64 where
  "normalizedMaxSessionReceiveWindow =
     MaxSessionReceiveWindow (normalizeMuxConfig (DefaultMuxConfig initialPingInterval))"

subsection \<open>The receive budget of a session\<close>

text \<open>
  The fields of \<open>Mux\<close> that the receive windows read and write.  \<open>sessionRecvQueued\<close> counts the
  bytes queued in all streams of the session.
\<close>

record mux_budget =
  sessionRecvQueued :: uint64
  sessionRecvLimit :: uint64
  mux_config :: MuxConfig

definition addSessionReceive :: "uint32 \<Rightarrow> 'a mux_budget_scheme \<Rightarrow> 'a mux_budget_scheme" where
  "addSessionReceive n s =
     (if n = 0 then s else s\<lparr>sessionRecvQueued := sessionRecvQueued s + ucast n\<rparr>)"

definition releaseSessionReceive :: "uint32 \<Rightarrow> 'a mux_budget_scheme \<Rightarrow> 'a mux_budget_scheme" where
  "releaseSessionReceive n s =
     (if n = 0 then s
      else s\<lparr>sessionRecvQueued := sessionRecvQueued s + NOT (ucast n - 1)\<rparr>)"

definition sessionReceiveWindowForConn :: "'a mux_budget_scheme \<Rightarrow> uint32 \<Rightarrow> uint32" where
  "sessionReceiveWindowForConn s buffered =
     (let limit = sessionRecvLimit s; queued = sessionRecvQueued s
      in if limit \<le> queued then
           (if buffered = 0 then word_of_int defaultInitialConnWindow
            else if word_of_int mask31 < buffered then word_of_int mask31
            else buffered)
         else
           (let allowed = (ucast buffered + (limit - queued) :: uint64);
                allowed = (if buffered = 0 \<and> allowed < word_of_int defaultInitialConnWindow
                           then word_of_int defaultInitialConnWindow else allowed);
                allowed = (if word_of_int mask31 < allowed then word_of_int mask31 else allowed)
            in ucast allowed))"

definition maxConnReceiveWindow :: "'a mux_budget_scheme \<Rightarrow> uint32" where
  "maxConnReceiveWindow s =
     (if MaxConnReceiveWindow (mux_config s) = 0 then normalizedMaxConnReceiveWindow
      else MaxConnReceiveWindow (mux_config s))"

subsection \<open>Properties of the normalised configuration\<close>

lemma watermarks_ordered:
  assumes "normalizeWriteQueueWatermarks h l = (high, low)"
  shows "1 \<le> low \<and> low < high \<and> 2 \<le> high"
proof -
  have "2 \<le> high"
    using assms by (auto simp: normalizeWriteQueueWatermarks_def Let_def not_less split: if_splits)
  moreover have "1 \<le> low"
    using assms
    by (auto simp: normalizeWriteQueueWatermarks_def Let_def word_le_nat_alt Suc_le_eq
        split: if_splits)
  moreover have "low < high"
    using assms
    by (auto simp: normalizeWriteQueueWatermarks_def Let_def word_less_nat_alt word_le_nat_alt
        unat_div unat_eq_0 split: if_splits)
  ultimately show ?thesis by simp
qed

lemma cfg_conn_window_bounds:
  "122550 \<le> unat (cfg_normalizedMaxConnReceiveWindow cfg) \<and>
   unat (cfg_normalizedMaxConnReceiveWindow cfg) \<le> 2147483647"
  by (auto simp: cfg_normalizedMaxConnReceiveWindow_def Let_def mux_consts word_less_nat_alt)

lemma normalizedMaxConnReceiveWindow_val: "normalizedMaxConnReceiveWindow = 134217728"
  by (simp add: normalizedMaxConnReceiveWindow_def normalizeMuxConfig_def DefaultMuxConfig_def Let_def
      cfg_normalizedMaxConnReceiveWindow_def mux_consts split: prod.split)

text \<open>
  The budget fields of a session built by \<open>NewMuxWithConfig\<close>: a normalised configuration and the
  session limit it gives.
\<close>

definition budget_ok :: "'a mux_budget_scheme \<Rightarrow> bool" where
  "budget_ok s \<longleftrightarrow>
     unat (sessionRecvLimit s) \<le> 2147483647 \<and>
     122550 \<le> unat (maxConnReceiveWindow s) \<and> unat (maxConnReceiveWindow s) \<le> 2147483647"

lemma normalized_conn_window [simp]:
  "MaxConnReceiveWindow (normalizeMuxConfig cfg) = cfg_normalizedMaxConnReceiveWindow cfg"
  by (simp add: normalizeMuxConfig_def Let_def)

lemma normalized_session_window_le:
  "unat (MaxSessionReceiveWindow (normalizeMuxConfig cfg)) \<le> 2147483647"
  by (simp add: normalizeMuxConfig_def cfg_normalizedMaxSessionReceiveWindow_def Let_def mux_consts
      word_less_nat_alt not_less)

lemma budget_ok_normalized:
  assumes "mux_config s = normalizeMuxConfig cfg"
    and "sessionRecvLimit s = MaxSessionReceiveWindow (normalizeMuxConfig cfg)"
  shows "budget_ok s"
proof -
  have "unat (sessionRecvLimit s) \<le> 2147483647"
    using assms(2) normalized_session_window_le by simp
  moreover have "cfg_normalizedMaxConnReceiveWindow cfg \<noteq> 0"
    using cfg_conn_window_bounds [of cfg] by auto
  ultimately show ?thesis
    using assms cfg_conn_window_bounds [of cfg] by (simp add: budget_ok_def maxConnReceiveWindow_def)
qed

text \<open>The budget fields of a new session.\<close>

definition new_budget :: "MuxConfig \<Rightarrow> mux_budget" where
  "new_budget config =
     (let cfg = normalizeMuxConfig config
      in \<lparr>sessionRecvQueued = 0, sessionRecvLimit = MaxSessionReceiveWindow cfg, mux_config = cfg\<rparr>)"

lemma budget_ok_new: "budget_ok (new_budget config)"
  by (rule budget_ok_normalized [of _ config]) (simp_all add: new_budget_def Let_def)

lemma unat_ucast_down_min:
  "unat (x :: uint64) \<le> 4294967295 \<Longrightarrow> unat (ucast x :: uint32) = unat x"
  by (simp add: unsigned_ucast_eq take_bit_nat_eq_self_iff)

lemma session_window_upper:
  "unat (sessionReceiveWindowForConn s buffered) \<le> 2147483647"
  by (simp add: sessionReceiveWindowForConn_def Let_def mux_consts word_less_nat_alt not_less
      unat_ucast_down_min)

lemma session_window_lower:
  assumes "unat (sessionRecvLimit s) \<le> 2147483647"
  shows "(if buffered = 0 then 122550 else min (unat buffered) 2147483647)
    \<le> unat (sessionReceiveWindowForConn s buffered)"
proof (cases "sessionRecvLimit s \<le> sessionRecvQueued s")
  case True
  then show ?thesis
    by (simp add: sessionReceiveWindowForConn_def Let_def mux_consts word_less_nat_alt)
next
  case False
  define d where "d = sessionRecvLimit s - sessionRecvQueued s"
  define a :: uint64 where "a = ucast buffered + d"
  from False have "unat d \<le> 2147483647"
    using assms unat_sub_if_size [of "sessionRecvLimit s" "sessionRecvQueued s"]
    by (simp add: d_def word_le_nat_alt)
  then have "unat buffered + unat d < 18446744073709551616"
    using unat_lt32 [of buffered] by linarith
  then have a: "unat a = unat buffered + unat d"
    by (simp add: a_def unat_word_ariths)
  show ?thesis
    using False a unat_lt32 [of buffered] \<open>unat d \<le> 2147483647\<close>
    by (simp add: sessionReceiveWindowForConn_def Let_def mux_consts word_less_nat_alt
        unat_ucast_down_min flip: d_def a_def)
qed

end
