(* ===== verification/Mux_Window.thy ===== *)
theory Mux_Window
  imports Mux_Config
begin

text \<open>
  The packed window word of a stream (\<open>type window\<close> of \<open>src/lib/mux/conn.go\<close>): one \<open>uint64\<close>
  holds a wait bit, a 31-bit maximum size and a 31-bit counter of bytes done.
\<close>

definition dequeueBits :: nat where
  "dequeueBits = 32"

definition windowBits :: nat where
  "windowBits = 31"

definition waitBits :: nat where
  "waitBits = dequeueBits + windowBits"

definition win_unpack :: "uint64 \<Rightarrow> uint32 \<times> uint32 \<times> bool" where
  "win_unpack ptrs =
     (let maxSize = ucast (drop_bit dequeueBits ptrs AND word_of_int mask31);
          don = ucast (ptrs AND word_of_int mask31)
      in if drop_bit waitBits ptrs AND 1 = 1 then (maxSize, don, True)
         else (maxSize, don, False))"

definition win_pack :: "uint32 \<Rightarrow> uint32 \<Rightarrow> bool \<Rightarrow> uint64" where
  "win_pack maxSize don wait =
     (if wait
      then (push_bit waitBits 1 OR push_bit dequeueBits (ucast (maxSize AND word_of_int mask31)))
           OR ucast (don AND word_of_int mask31)
      else (push_bit waitBits 0 OR push_bit dequeueBits (ucast (maxSize AND word_of_int mask31)))
           OR ucast (don AND word_of_int mask31))"

lemma mask31_word: "(word_of_int mask31 :: 'a::len word) = mask 31"
  by (simp add: mask31_def mask_eq_exp_minus_1)

lemma and_mask31: "(x :: 'a::len word) AND word_of_int mask31 = take_bit 31 x"
  by (simp add: mask31_word take_bit_eq_mask)

lemma bit_win_pack:
  "bit (win_pack m d w) n \<longleftrightarrow>
     w \<and> n = 63 \<or> 32 \<le> n \<and> n < 63 \<and> bit m (n - 32) \<or> n < 31 \<and> bit d n"
  by (auto simp: win_pack_def and_mask31 bit_simps dequeueBits_def waitBits_def windowBits_def
      simp del: push_bit_of_1 push_bit_numeral)

lemma win_unpack_pack:
  "win_unpack (win_pack m d w) = (take_bit 31 m, take_bit 31 d, w)"
proof -
  have m: "ucast (take_bit 31 (drop_bit 32 (win_pack m d w))) = take_bit 31 m"
    by (rule bit_word_eqI) (auto simp: bit_win_pack bit_simps)
  have d: "ucast (take_bit 31 (win_pack m d w)) = take_bit 31 d"
    by (rule bit_word_eqI) (auto simp: bit_win_pack bit_simps)
  have "(drop_bit 63 (win_pack m d w) AND 1 = 1) = bit (win_pack m d w) 63"
    by (simp add: and_one_eq bit_iff_odd_drop_bit odd_iff_mod_2_eq_one)
  then have w: "(drop_bit 63 (win_pack m d w) AND 1 = 1) = w"
    by (simp add: bit_win_pack)
  show ?thesis
    using m d w
    by (simp add: win_unpack_def Let_def and_mask31 dequeueBits_def windowBits_def waitBits_def)
qed

lemma unat_take_bit31: "unat (take_bit 31 (x :: 'a::len word)) = unat x mod 2147483648"
proof -
  have "unat (take_bit 31 x) = take_bit 31 (unat x)"
    by (simp add: unsigned_take_bit_eq)
  then show ?thesis by (simp add: take_bit_eq_mod)
qed

lemma take_bit31_id: "unat (x :: uint32) \<le> 2147483647 \<Longrightarrow> take_bit 31 x = x"
  by (simp add: word_unat_eq_iff unat_take_bit31)

lemma unat_take_bit31_le [simp]: "unat (take_bit 31 (x :: 'a::len word)) \<le> 2147483647"
  using mod_less_divisor [of 2147483648 "unat x"] by (simp add: unat_take_bit31 del: mod_less_divisor)

text \<open>The three parts of a window word, the sizes as natural numbers.\<close>

definition win_max :: "uint64 \<Rightarrow> nat" where
  "win_max ptrs = unat (fst (win_unpack ptrs))"

definition win_done :: "uint64 \<Rightarrow> nat" where
  "win_done ptrs = unat (fst (snd (win_unpack ptrs)))"

definition win_wait :: "uint64 \<Rightarrow> bool" where
  "win_wait ptrs = snd (snd (win_unpack ptrs))"

lemma win_pack_parts:
  assumes "unat m \<le> 2147483647" "unat d \<le> 2147483647"
  shows "win_max (win_pack m d w) = unat m" "win_done (win_pack m d w) = unat d"
    "win_wait (win_pack m d w) = w" "win_unpack (win_pack m d w) = (m, d, w)"
  using assms by (simp_all add: win_max_def win_done_def win_wait_def win_unpack_pack take_bit31_id)

lemma win_unpack_bounds:
  assumes "win_unpack ptrs = (m, d, w)"
  shows "unat m \<le> 2147483647" "unat d \<le> 2147483647"
proof -
  have "unat (ucast (take_bit 31 x) :: uint32) \<le> 2147483647" for x :: uint64
  proof -
    have "unat (take_bit 31 x) \<le> 4294967295"
      using unat_take_bit31_le [of x] by linarith
    then have "unat (ucast (take_bit 31 x) :: uint32) = unat (take_bit 31 x)"
      by (rule unat_ucast_down_min)
    then show ?thesis by simp
  qed
  with assms show "unat m \<le> 2147483647" "unat d \<le> 2147483647"
    by (auto simp: win_unpack_def Let_def and_mask31 split: if_splits)
qed

lemma win_bounds [simp]: "win_max ptrs \<le> 2147483647" "win_done ptrs \<le> 2147483647"
  using win_unpack_bounds [of ptrs] by (cases "win_unpack ptrs"; simp add: win_max_def win_done_def)+

end
