(* ===== verification/Mux_Send.thy ===== *)
theory Mux_Send
  imports Mux_Window
begin

text \<open>
  The send window of a stream: \<open>src/lib/mux/conn_send_window.go\<close>.

  Each compare-and-swap loop on \<open>maxSizeDone\<close> is the transition its successful iteration makes.
  The capacity-one channel \<open>setSizeCh\<close> is the flag \<open>sw_token\<close>; \<open>sw_chClosed\<close> says that it was
  closed.  A call that blocks in \<open>waitReceiveWindow\<close> is the outcome \<open>WBlock\<close>; a loop that spins
  until another goroutine moves the window is \<open>WSpin\<close>.
\<close>

record sendWindow =
  sw_maxSizeDone :: uint64
  sw_off :: uint32
  sw_closed :: bool
  sw_buf :: bytes
  sw_token :: bool
  sw_chClosed :: bool
  sw_priority :: bool

definition sw_New :: sendWindow where
  "sw_New = \<lparr>
     sw_maxSizeDone = win_pack (word_of_int defaultInitialConnWindow) 0 False,
     sw_off = 0, sw_closed = False, sw_buf = [], sw_token = False, sw_chClosed = False,
     sw_priority = False\<rparr>"

definition SetSendBuf :: "bytes \<Rightarrow> sendWindow \<Rightarrow> sendWindow" where
  "SetSendBuf buf sw = sw\<lparr>sw_buf := buf, sw_off := 0\<rparr>"

definition sw_remainingSize :: "uint32 \<Rightarrow> uint32 \<Rightarrow> uint32" where
  "sw_remainingSize maxSize send =
     (let l = uint (maxSize AND word_of_int mask31) - uint (send AND word_of_int mask31)
      in if l > 0 then word_of_int l else 0)"

definition sw_allow :: "sendWindow \<Rightarrow> sendWindow" where
  "sw_allow sw =
     (if sw_closed sw then sw
      else if sw_chClosed sw then sw
      else sw\<lparr>sw_token := True\<rparr>)"

text \<open>The reason \<open>SetSize\<close> gives to \<open>closeWithReason\<close>: maximum, bytes read, bytes outstanding.\<close>

datatype close_reason = InvalidSendWindowUpdate uint32 uint32 uint32

definition SetSize :: "uint64 \<Rightarrow> sendWindow \<Rightarrow> bool \<times> close_reason option \<times> sendWindow" where
  "SetSize currentMaxSizeDone sw =
     (if sw_closed sw then (True, None, sw\<lparr>sw_chClosed := True\<rparr>)
      else
        (let (currentMaxSize, read, _) = win_unpack currentMaxSizeDone;
             (maxsize, send, wait) = win_unpack (sw_maxSizeDone sw)
         in if send < read then
              (True, Some (InvalidSendWindowUpdate currentMaxSize read send), sw)
            else if read = 0 \<and> currentMaxSize = maxsize then (False, None, sw)
            else
              (let outstanding = (send - read) AND word_of_int mask31;
                   remain = sw_remainingSize currentMaxSize outstanding;
                   nextWait = (remain = 0 \<and> wait);
                   sw' = sw\<lparr>sw_maxSizeDone := win_pack currentMaxSize outstanding nextWait\<rparr>
               in (False, None, if wait \<and> \<not> nextWait then sw_allow sw' else sw'))))"

definition sw_sent :: "uint32 \<Rightarrow> sendWindow \<Rightarrow> sendWindow option" where
  "sw_sent sentSize sw =
     (let (maxSize, send, wait) = win_unpack (sw_maxSizeDone sw)
      in if (send + sentSize) AND word_of_int mask31 < send then None
         else Some (sw\<lparr>sw_maxSizeDone := win_pack maxSize (send + sentSize) wait\<rparr>))"

definition rollbackSent :: "uint32 \<Rightarrow> sendWindow \<Rightarrow> sendWindow" where
  "rollbackSent sentSize sw =
     (if sentSize = 0 then sw
      else
        (let sw1 = sw\<lparr>sw_off := (if sentSize \<le> sw_off sw then sw_off sw - sentSize else 0)\<rparr>;
             (maxSize, send, wait) = win_unpack (sw_maxSizeDone sw1);
             size = (if send < sentSize then send else sentSize)
         in sw1\<lparr>sw_maxSizeDone := win_pack maxSize (send - size) wait\<rparr>))"

datatype write_out =
    WErrClosed
  | WEOF
  | WBlock sendWindow
  | WSpin
  | WSeg bytes uint32 bool sendWindow

definition sw_sendSize :: "uint32 \<Rightarrow> bytes \<Rightarrow> uint32" where
  "sw_sendSize remain rest =
     (let sendSize = (if maximumSegmentSize < int (length rest)
                      then word_of_int maximumSegmentSize
                      else word_of_nat (length rest))
      in if remain < sendSize then remain else sendSize)"

definition WriteTo :: "sendWindow \<Rightarrow> write_out" where
  "WriteTo sw =
     (if sw_closed sw then WErrClosed
      else if word_of_nat (length (sw_buf sw)) \<le> sw_off sw then WEOF
      else
        (let (maxSize, send, _) = win_unpack (sw_maxSizeDone sw);
             remain = sw_remainingSize maxSize send
         in if remain = 0 then
              WBlock (sw\<lparr>sw_maxSizeDone := win_pack maxSize send True\<rparr>)
            else if word_of_nat (length (sw_buf sw)) < sw_off sw then WEOF
            else
              (let rest = drop (unat (sw_off sw)) (sw_buf sw);
                   sendSize = sw_sendSize remain rest;
                   part = (sendSize < word_of_nat (length rest));
                   p = take (unat sendSize) rest
               in case sw_sent sendSize (sw\<lparr>sw_off := sw_off sw + sendSize\<rparr>) of
                    None \<Rightarrow> WSpin
                  | Some sw' \<Rightarrow> WSeg p sendSize part sw')))"

text \<open>
  The loop of \<open>WriteFull\<close>, up to the end of the buffer, an error or the next blocking wait.
  \<open>send part seg m\<close> is \<open>sendInfo\<close> with the flag \<open>muxNewMsgPart\<close> or \<open>muxNewMsg\<close>; \<open>None\<close> is its error.
  A blocked call resumes with the same loop once the window opens.
\<close>

datatype write_status = WrOk | WrClosed | WrSendFailed | WrBlocked | WrSpinning

fun write_loop ::
  "nat \<Rightarrow> (bool \<Rightarrow> bytes \<Rightarrow> 'm \<Rightarrow> 'm option) \<Rightarrow> sendWindow \<Rightarrow> nat \<Rightarrow> 'm \<Rightarrow>
   (nat \<times> write_status \<times> sendWindow \<times> 'm) option" where
  "write_loop 0 send sw n m = None"
| "write_loop (Suc fuel) send sw n m =
     (case WriteTo sw of
        WEOF \<Rightarrow> Some (n, WrOk, sw, m)
      | WErrClosed \<Rightarrow> Some (n, WrClosed, sw, m)
      | WBlock sw' \<Rightarrow> Some (n, WrBlocked, sw', m)
      | WSpin \<Rightarrow> Some (n, WrSpinning, sw, m)
      | WSeg seg l part sw' \<Rightarrow>
          (case send part seg m of
             None \<Rightarrow> Some (n, WrSendFailed, rollbackSent l sw', m)
           | Some m' \<Rightarrow> write_loop fuel send sw' (n + unat l) m'))"

definition WriteFull ::
  "(bool \<Rightarrow> bytes \<Rightarrow> 'm \<Rightarrow> 'm option) \<Rightarrow> bytes \<Rightarrow> sendWindow \<Rightarrow> 'm \<Rightarrow>
   (nat \<times> write_status \<times> sendWindow \<times> 'm) option" where
  "WriteFull send buf sw m = write_loop (Suc (length buf)) send (SetSendBuf buf sw) 0 m"

text \<open>
  The \<open>select\<close> of \<open>waitReceiveWindow\<close>: which of its cases fires is the scheduler's choice, and
  \<open>None\<close> means that the case is not ready.
\<close>

datatype wait_case = CaseSetSize | CaseCloseOp | CaseTimer | CaseDeadlineCh

datatype wait_out = WaitResume sendWindow | WaitErrClosed | WaitErrTimeout | WaitAgain

fun waitReceiveWindow :: "wait_case \<Rightarrow> sendWindow \<Rightarrow> wait_out option" where
  "waitReceiveWindow CaseSetSize sw =
     (if sw_token sw then Some (WaitResume (sw\<lparr>sw_token := False\<rparr>))
      else if sw_chClosed sw then Some WaitErrClosed else None)"
| "waitReceiveWindow CaseCloseOp sw = (if sw_closed sw then Some WaitErrClosed else None)"
| "waitReceiveWindow CaseTimer sw = Some WaitErrTimeout"
| "waitReceiveWindow CaseDeadlineCh sw = Some WaitAgain"

definition sw_CloseWindow :: "sendWindow \<Rightarrow> sendWindow" where
  "sw_CloseWindow sw = sw\<lparr>sw_closed := True\<rparr>"

subsection \<open>The window operations on natural numbers\<close>

abbreviation "smax sw \<equiv> win_max (sw_maxSizeDone sw)"
abbreviation "ssend sw \<equiv> win_done (sw_maxSizeDone sw)"
abbreviation "swait sw \<equiv> win_wait (sw_maxSizeDone sw)"

lemma unat_sw_remainingSize:
  "unat (sw_remainingSize m d) = unat (take_bit 31 m) - unat (take_bit 31 d)"
proof -
  define a b where "a = unat (take_bit 31 m)" and "b = unat (take_bit 31 d)"
  have ui: "uint (take_bit 31 m) = int a" "uint (take_bit 31 d) = int b"
    by (simp_all add: a_def b_def)
  have "a \<le> 2147483647"
    by (simp add: a_def)
  then have lt: "a - b < 2 ^ LENGTH(32)"
    by simp
  have "unat (word_of_int (int a - int b) :: uint32) = a - b" if "b < a"
  proof -
    have "(word_of_int (int a - int b) :: uint32) = word_of_nat (a - b)"
      using that by (simp add: of_nat_diff)
    with lt show ?thesis by (simp only: unat_of_nat_id)
  qed
  then show ?thesis
    by (simp add: sw_remainingSize_def Let_def and_mask31 ui flip: a_def b_def)
qed

lemma sw_unpack:
  assumes "win_unpack (sw_maxSizeDone sw) = (m, d, w)"
  shows "smax sw = unat m" "ssend sw = unat d" "swait sw = w"
    "unat m \<le> 2147483647" "unat d \<le> 2147483647"
    "unat (sw_remainingSize m d) = unat m - unat d"
  using assms win_unpack_bounds [OF assms]
  by (simp_all add: win_max_def win_done_def win_wait_def unat_sw_remainingSize take_bit31_id)

lemma sw_sent_Some:
  assumes "ssend sw + unat l \<le> 2147483647"
  obtains sw' where "sw_sent l sw = Some sw'"
    "sw' = sw\<lparr>sw_maxSizeDone := sw_maxSizeDone sw'\<rparr>"
    "smax sw' = smax sw" "ssend sw' = ssend sw + unat l" "swait sw' = swait sw"
proof -
  obtain m d w where u: "win_unpack (sw_maxSizeDone sw) = (m, d, w)"
    using prod_cases3 by blast
  note parts = sw_unpack [OF u]
  have add: "unat (d + l) = unat d + unat l"
    using assms parts by (subst unat_add_lem [THEN iffD1]) simp_all
  then have keep: "(d + l) AND word_of_int mask31 = d + l"
    using assms parts by (simp add: and_mask31 take_bit31_id)
  define sw' where "sw' = sw\<lparr>sw_maxSizeDone := win_pack m (d + l) w\<rparr>"
  have "sw_sent l sw = Some sw'"
    using add by (simp add: sw_sent_def u keep sw'_def word_less_nat_alt)
  moreover have "smax sw' = unat m" "ssend sw' = unat d + unat l" "swait sw' = w"
    using add assms parts by (simp_all add: sw'_def win_pack_parts)
  ultimately show ?thesis
    using that [of sw'] parts by (simp add: sw'_def)
qed

text \<open>The size of the next segment: the rest of the buffer, cut to one segment and to the window.\<close>

definition seg_len :: "sendWindow \<Rightarrow> nat" where
  "seg_len sw = min (smax sw - ssend sw) (min 4085 (length (sw_buf sw) - unat (sw_off sw)))"

definition sw_ready :: "sendWindow \<Rightarrow> bool" where
  "sw_ready sw \<longleftrightarrow> \<not> sw_closed sw \<and> unat (sw_off sw) < length (sw_buf sw) \<and>
     length (sw_buf sw) < 4294967296"

lemma sendWindow_update_eqI:
  "sw' = sw\<lparr>sw_off := x, sw_maxSizeDone := sw_maxSizeDone sw'\<rparr> \<Longrightarrow>
   sw_off sw' = x \<and> sw_buf sw' = sw_buf sw \<and> sw_closed sw' = sw_closed sw \<and>
   sw_token sw' = sw_token sw \<and> sw_chClosed sw' = sw_chClosed sw"
  by (metis sendWindow.ext_inject sendWindow.surjective sendWindow.update_convs(1,2))

lemma WriteTo_block:
  assumes "sw_ready sw" "smax sw \<le> ssend sw"
  obtains sw' where "WriteTo sw = WBlock sw'" "sw' = sw\<lparr>sw_maxSizeDone := sw_maxSizeDone sw'\<rparr>"
    "smax sw' = smax sw" "ssend sw' = ssend sw" "swait sw'"
proof -
  obtain m d w where u: "win_unpack (sw_maxSizeDone sw) = (m, d, w)"
    using prod_cases3 by blast
  note parts = sw_unpack [OF u]
  have len: "unat (word_of_nat (length (sw_buf sw)) :: uint32) = length (sw_buf sw)"
    using assms(1) by (simp add: sw_ready_def unat_of_nat_id)
  have "unat (sw_remainingSize m d) = 0"
    using assms(2) parts by simp
  then have "WriteTo sw = WBlock (sw\<lparr>sw_maxSizeDone := win_pack m d True\<rparr>)"
    using assms(1) len by (simp add: WriteTo_def u word_le_nat_alt sw_ready_def unat_eq_0)
  then show ?thesis
    using that parts by (simp add: win_pack_parts)
qed

lemma unat_sw_sendSize:
  assumes "length rest < 4294967296"
  shows "unat (sw_sendSize remain rest) = min (unat remain) (min 4085 (length rest))"
  using assms
  by (simp add: sw_sendSize_def Let_def mux_consts word_less_nat_alt unat_of_nat_id min_def)

lemma WriteTo_seg:
  assumes "sw_ready sw" "ssend sw < smax sw"
  obtains sw' where
    "WriteTo sw = WSeg (take (seg_len sw) (drop (unat (sw_off sw)) (sw_buf sw)))
       (word_of_nat (seg_len sw)) (unat (sw_off sw) + seg_len sw < length (sw_buf sw)) sw'"
    "sw' = sw\<lparr>sw_off := sw_off sw + word_of_nat (seg_len sw), sw_maxSizeDone := sw_maxSizeDone sw'\<rparr>"
    "smax sw' = smax sw" "ssend sw' = ssend sw + seg_len sw" "swait sw' = swait sw"
proof -
  obtain m d w where u: "win_unpack (sw_maxSizeDone sw) = (m, d, w)"
    using prod_cases3 by blast
  note parts = sw_unpack [OF u]
  define rest where "rest = drop (unat (sw_off sw)) (sw_buf sw)"
  define k :: uint32 where "k = word_of_nat (seg_len sw)"
  have len: "unat (word_of_nat (length (sw_buf sw)) :: uint32) = length (sw_buf sw)"
    and uk: "unat k = seg_len sw"
    using assms(1) by (simp_all add: sw_ready_def seg_len_def k_def unat_of_nat_id)
  have lrest: "unat (word_of_nat (length rest) :: uint32) = length rest"
    using assms(1) by (intro unat_of_nat_id) (auto simp: sw_ready_def rest_def)
  have "unat (sw_sendSize (sw_remainingSize m d) rest) = unat k"
    using unat_sw_sendSize [of rest "sw_remainingSize m d"] assms(1) parts
    by (auto simp: uk seg_len_def rest_def sw_ready_def)
  then have k: "sw_sendSize (sw_remainingSize m d) rest = k"
    by (simp add: word_unat_eq_iff)
  have part: "k < word_of_nat (length rest) \<longleftrightarrow> unat (sw_off sw) + seg_len sw < length (sw_buf sw)"
  proof -
    have "k < word_of_nat (length rest) \<longleftrightarrow> seg_len sw < length rest"
      by (simp only: word_less_nat_alt lrest uk)
    with assms(1) show ?thesis by (auto simp: rest_def sw_ready_def)
  qed
  have "ssend (sw\<lparr>sw_off := sw_off sw + k\<rparr>) + unat k \<le> 2147483647"
    using assms(2) parts uk by (simp add: seg_len_def)
  then obtain sw2 where s2: "sw_sent k (sw\<lparr>sw_off := sw_off sw + k\<rparr>) = Some sw2"
    "sw2 = (sw\<lparr>sw_off := sw_off sw + k\<rparr>)\<lparr>sw_maxSizeDone := sw_maxSizeDone sw2\<rparr>"
    "smax sw2 = smax sw" "ssend sw2 = ssend sw + unat k" "swait sw2 = swait sw"
    using sw_sent_Some [of "sw\<lparr>sw_off := sw_off sw + k\<rparr>" k] by auto
  have "unat (sw_remainingSize m d) \<noteq> 0"
    using assms(2) parts by simp
  then have "WriteTo sw = WSeg (take (unat k) rest) k (k < word_of_nat (length rest)) sw2"
    using assms(1) s2(1) len k
    by (simp add: WriteTo_def u Let_def word_le_nat_alt word_less_nat_alt sw_ready_def unat_eq_0
        flip: rest_def)
  then show ?thesis
    using that [of sw2] s2 part uk by (simp add: rest_def k_def)
qed

lemma WriteTo_cases:
  assumes "length (sw_buf sw) < 4294967296"
  shows "WriteTo sw =
    (if sw_closed sw then WErrClosed
     else if length (sw_buf sw) \<le> unat (sw_off sw) then WEOF else WriteTo sw)"
  using assms by (simp add: WriteTo_def word_le_nat_alt unat_of_nat_id)

lemma WriteTo_not_WSpin:
  assumes "length (sw_buf sw) < 4294967296"
  shows "WriteTo sw \<noteq> WSpin"
proof (cases "sw_ready sw")
  case True
  then show ?thesis
    by (cases "ssend sw < smax sw") (auto elim: WriteTo_seg WriteTo_block simp: not_less)
next
  case False
  then show ?thesis
    using assms by (subst WriteTo_cases) (auto simp: sw_ready_def)
qed

subsection \<open>Rollback and the write loop\<close>

lemma rollbackSent_undo:
  assumes "ssend sw' = ssend sw + unat l" "unat (sw_off sw') = unat (sw_off sw) + unat l"
    "smax sw' = smax sw" "swait sw' = swait sw"
  shows "smax (rollbackSent l sw') = smax sw" "ssend (rollbackSent l sw') = ssend sw"
    "swait (rollbackSent l sw') = swait sw" "sw_off (rollbackSent l sw') = sw_off sw"
    "sw_buf (rollbackSent l sw') = sw_buf sw'" "sw_closed (rollbackSent l sw') = sw_closed sw'"
proof -
  obtain m d w where u: "win_unpack (sw_maxSizeDone sw') = (m, d, w)"
    using prod_cases3 by blast
  note parts = sw_unpack [OF u]
  have "unat (d - l) = ssend sw" "unat (d - l) \<le> 2147483647" "\<not> d < l"
    using assms parts by (simp_all add: unat_sub_if' word_less_nat_alt)
  moreover have "sw_off sw' - l = sw_off sw" if "l \<noteq> 0"
    using assms(2) by (simp add: word_unat_eq_iff unat_sub_if')
  moreover have "l \<le> sw_off sw'"
    using assms(2) by (simp add: word_le_nat_alt)
  moreover have "l = 0 \<Longrightarrow> sw_off sw' = sw_off sw"
    using assms(2) by (simp add: word_unat_eq_iff)
  ultimately show "smax (rollbackSent l sw') = smax sw" "ssend (rollbackSent l sw') = ssend sw"
    "swait (rollbackSent l sw') = swait sw" "sw_off (rollbackSent l sw') = sw_off sw"
    "sw_buf (rollbackSent l sw') = sw_buf sw'" "sw_closed (rollbackSent l sw') = sw_closed sw'"
    using assms parts by (simp_all add: rollbackSent_def u Let_def win_pack_parts)
qed

text \<open>
  The frames a write hands to the session, in order: the \<open>part\<close> flag and the payload.  \<open>acc\<close> says
  which of them the session accepts.
\<close>

type_synonym frames = "(bool \<times> bytes) list"

definition log_send :: "(bool \<Rightarrow> bytes \<Rightarrow> frames \<Rightarrow> bool) \<Rightarrow> bool \<Rightarrow> bytes \<Rightarrow> frames \<Rightarrow> frames option" where
  "log_send acc part seg fs = (if acc part seg fs then Some (fs @ [(part, seg)]) else None)"

definition payload :: "frames \<Rightarrow> bytes" where
  "payload fs = concat (map snd fs)"

lemma payload_simps [simp]:
  "payload [] = []" "payload (f # fs) = snd f @ payload fs" "payload (fs @ gs) = payload fs @ payload gs"
  by (simp_all add: payload_def)

text \<open>Frames that cut \<open>data\<close> from the front: sizes within a segment, \<open>part\<close> set on all but the last.\<close>

fun cuts :: "bytes \<Rightarrow> frames \<Rightarrow> bool" where
  "cuts data [] = True"
| "cuts data ((part, seg) # fs) =
     (0 < length seg \<and> length seg \<le> 4085 \<and> seg = take (length seg) data \<and>
      (part \<longleftrightarrow> length seg < length data) \<and> cuts (drop (length seg) data) fs)"

lemma payload_cuts: "cuts data fs \<Longrightarrow> payload fs = take (length (payload fs)) data"
proof (induction data fs rule: cuts.induct)
  case (2 data part seg fs)
  then have "payload fs = take (length (payload fs)) (drop (length seg) data)" by simp
  with 2 show ?case
    by (metis append_take_drop_id cuts.simps(2) length_append payload_simps(2) snd_conv take_add)
qed simp

text \<open>What a run of the write loop from window \<open>sw\<close> to window \<open>sw'\<close> with new frames \<open>fs\<close> guarantees.\<close>

definition write_run :: "sendWindow \<Rightarrow> write_status \<Rightarrow> sendWindow \<Rightarrow> frames \<Rightarrow> bool" where
  "write_run sw st sw' fs \<longleftrightarrow>
     cuts (drop (unat (sw_off sw)) (sw_buf sw)) fs \<and>
     unat (sw_off sw') = unat (sw_off sw) + length (payload fs) \<and>
     unat (sw_off sw') \<le> length (sw_buf sw) \<and>
     ssend sw' = ssend sw + length (payload fs) \<and> smax sw' = smax sw \<and>
     sw_buf sw' = sw_buf sw \<and>
     (fs \<noteq> [] \<longrightarrow> ssend sw' \<le> smax sw) \<and>
     (st = WrOk \<longrightarrow> unat (sw_off sw') = length (sw_buf sw)) \<and>
     (st = WrBlocked \<longrightarrow> smax sw' \<le> ssend sw' \<and> swait sw') \<and>
     st \<in> {WrOk, WrBlocked, WrSendFailed}"

lemma seg_len_bounds:
  assumes "sw_ready sw" "ssend sw < smax sw"
  shows "0 < seg_len sw" "seg_len sw \<le> 4085" "ssend sw + seg_len sw \<le> smax sw"
    "unat (sw_off sw) + seg_len sw \<le> length (sw_buf sw)"
    "unat (word_of_nat (seg_len sw) :: uint32) = seg_len sw"
  using assms by (auto simp: seg_len_def sw_ready_def unat_of_nat_id)

text \<open>The window after a segment was cut: \<open>seg_step sw sw1\<close>.\<close>

definition seg_step :: "sendWindow \<Rightarrow> sendWindow \<Rightarrow> bool" where
  "seg_step sw sw1 \<longleftrightarrow>
     unat (sw_off sw1) = unat (sw_off sw) + seg_len sw \<and>
     sw_buf sw1 = sw_buf sw \<and> sw_closed sw1 = sw_closed sw \<and>
     sw_chClosed sw1 = sw_chClosed sw \<and> sw_token sw1 = sw_token sw \<and>
     smax sw1 = smax sw \<and> ssend sw1 = ssend sw + seg_len sw \<and> swait sw1 = swait sw"

lemma WriteTo_seg_step:
  assumes "sw_ready sw" "ssend sw < smax sw"
  obtains sw1 where
    "WriteTo sw = WSeg (take (seg_len sw) (drop (unat (sw_off sw)) (sw_buf sw)))
       (word_of_nat (seg_len sw)) (unat (sw_off sw) + seg_len sw < length (sw_buf sw)) sw1"
    "seg_step sw sw1"
proof -
  obtain sw1 where w: "WriteTo sw = WSeg (take (seg_len sw) (drop (unat (sw_off sw)) (sw_buf sw)))
       (word_of_nat (seg_len sw)) (unat (sw_off sw) + seg_len sw < length (sw_buf sw)) sw1"
    and sw1: "sw1 = sw\<lparr>sw_off := sw_off sw + word_of_nat (seg_len sw), sw_maxSizeDone := sw_maxSizeDone sw1\<rparr>"
    "smax sw1 = smax sw" "ssend sw1 = ssend sw + seg_len sw" "swait sw1 = swait sw"
    using WriteTo_seg [OF assms] .
  have "unat (sw_off sw + word_of_nat (seg_len sw)) = unat (sw_off sw) + seg_len sw"
  proof -
    have "unat (sw_off sw) + unat (word_of_nat (seg_len sw) :: uint32) < 2 ^ LENGTH(32)"
      using seg_len_bounds [OF assms] assms(1) by (simp add: sw_ready_def)
    then show ?thesis
      using seg_len_bounds(5) [OF assms] unat_add_lem by metis
  qed
  with sw1(2-) sendWindow_update_eqI [OF sw1(1)] have "seg_step sw sw1"
    by (simp add: seg_step_def)
  with w that show ?thesis by blast
qed

lemma write_run_Cons:
  assumes "sw_ready sw" "ssend sw < smax sw" "seg_step sw sw1" "write_run sw1 st sw' fs"
  shows "write_run sw st sw' ((unat (sw_off sw) + seg_len sw < length (sw_buf sw),
     take (seg_len sw) (drop (unat (sw_off sw)) (sw_buf sw))) # fs)"
proof -
  define n where "n = seg_len sw"
  note b = seg_len_bounds [OF assms(1,2), folded n_def]
  have len: "min (length (sw_buf sw) - unat (sw_off sw)) n = n"
    "unat (sw_off sw) + n < length (sw_buf sw) \<longleftrightarrow> n < length (sw_buf sw) - unat (sw_off sw)"
    using b(4) by auto
  have st: "unat (sw_off sw1) = unat (sw_off sw) + n" "sw_buf sw1 = sw_buf sw"
    "smax sw1 = smax sw" "ssend sw1 = ssend sw + n"
    using assms(3) by (simp_all add: seg_step_def n_def)
  have run: "cuts (drop (unat (sw_off sw) + n) (sw_buf sw)) fs"
    "unat (sw_off sw') = unat (sw_off sw) + (n + length (payload fs))"
    "unat (sw_off sw') \<le> length (sw_buf sw)" "ssend sw' = ssend sw + (n + length (payload fs))"
    "smax sw' = smax sw" "sw_buf sw' = sw_buf sw" "fs \<noteq> [] \<Longrightarrow> ssend sw' \<le> smax sw"
    "st = WrOk \<longrightarrow> unat (sw_off sw') = length (sw_buf sw)"
    "st = WrBlocked \<longrightarrow> smax sw' \<le> ssend sw' \<and> swait sw'" "st \<in> {WrOk, WrBlocked, WrSendFailed}"
    using assms(4) [unfolded write_run_def st] by (auto simp: add.assoc)
  have "ssend sw' \<le> smax sw"
    using run(4,7) b(3) by (cases "fs = []") simp_all
  moreover have "cuts (drop (unat (sw_off sw)) (sw_buf sw))
     ((unat (sw_off sw) + n < length (sw_buf sw), take n (drop (unat (sw_off sw)) (sw_buf sw))) # fs)"
    using run(1) b(1,2) len by (simp add: add.commute)
  ultimately show ?thesis
    unfolding write_run_def n_def [symmetric] using run len by simp
qed

lemma write_run_rollback:
  assumes "sw_ready sw" "ssend sw < smax sw" "seg_step sw sw1"
  shows "write_run sw WrSendFailed (rollbackSent (word_of_nat (seg_len sw)) sw1) []"
proof -
  have "ssend sw1 = ssend sw + unat (word_of_nat (seg_len sw) :: uint32)"
    "unat (sw_off sw1) = unat (sw_off sw) + unat (word_of_nat (seg_len sw) :: uint32)"
    "smax sw1 = smax sw" "swait sw1 = swait sw"
    using assms(3) seg_len_bounds(5) [OF assms(1,2)] by (simp_all add: seg_step_def)
  from rollbackSent_undo [OF this] show ?thesis
    using assms by (simp add: write_run_def seg_step_def sw_ready_def)
qed

lemma write_loop_run:
  assumes "\<not> sw_closed sw" "length (sw_buf sw) < 4294967296"
    "unat (sw_off sw) \<le> length (sw_buf sw)" "length (sw_buf sw) - unat (sw_off sw) < fuel"
  shows "\<exists>st sw' fs'. write_loop fuel (log_send acc) sw n fs =
     Some (n + length (payload fs'), st, sw', fs @ fs') \<and> write_run sw st sw' fs'"
  using assms
proof (induction fuel arbitrary: sw n fs)
  case 0
  then show ?case by simp
next
  case (Suc fuel)
  consider (eof) "unat (sw_off sw) = length (sw_buf sw)"
    | (block) "sw_ready sw" "smax sw \<le> ssend sw"
    | (seg) "sw_ready sw" "ssend sw < smax sw"
    using Suc.prems by (fastforce simp: sw_ready_def)
  then show ?case
  proof cases
    case eof
    then have "WriteTo sw = WEOF"
      using Suc.prems by (subst WriteTo_cases) simp_all
    with eof show ?thesis
      by (intro exI [of _ WrOk] exI [of _ sw] exI [of _ "[]"]) (simp add: write_run_def)
  next
    case block
    then obtain sw' where w: "WriteTo sw = WBlock sw'" "smax sw' = smax sw" "ssend sw' = ssend sw"
      "swait sw'" and upd: "sw' = sw\<lparr>sw_maxSizeDone := sw_maxSizeDone sw'\<rparr>"
      using WriteTo_block by blast
    from upd have "sw_off sw' = sw_off sw" "sw_buf sw' = sw_buf sw"
      by (metis sendWindow.ext_inject sendWindow.surjective sendWindow.update_convs(1))+
    with w block Suc.prems show ?thesis
      by (intro exI [of _ WrBlocked] exI [of _ sw'] exI [of _ "[]"]) (simp add: write_run_def)
  next
    case seg
    define part where "part \<longleftrightarrow> unat (sw_off sw) + seg_len sw < length (sw_buf sw)"
    define p where "p = take (seg_len sw) (drop (unat (sw_off sw)) (sw_buf sw))"
    obtain sw1 where w: "WriteTo sw = WSeg p (word_of_nat (seg_len sw)) part sw1" and st: "seg_step sw sw1"
      using WriteTo_seg_step [OF seg] by (auto simp: part_def p_def)
    note b = seg_len_bounds [OF seg]
    show ?thesis
    proof (cases "acc part p fs")
      case False
      with w write_run_rollback [OF seg st] show ?thesis
        by (intro exI [of _ WrSendFailed] exI exI [of _ "[]"]) (simp add: log_send_def)
    next
      case True
      have "\<exists>st sw' fs'. write_loop fuel (log_send acc) sw1 (n + seg_len sw) (fs @ [(part, p)]) =
          Some (n + seg_len sw + length (payload fs'), st, sw', (fs @ [(part, p)]) @ fs') \<and>
          write_run sw1 st sw' fs'"
        using st b Suc.prems by (intro Suc.IH) (auto simp: seg_step_def)
      then obtain st2 sw2 fs2 where "write_loop fuel (log_send acc) sw1 (n + seg_len sw) (fs @ [(part, p)]) =
          Some (n + seg_len sw + length (payload fs2), st2, sw2, fs @ (part, p) # fs2)"
        "write_run sw1 st2 sw2 fs2"
        by auto
      moreover have "length p = seg_len sw"
        using b by (simp add: p_def)
      moreover have "log_send acc part p fs = Some (fs @ [(part, p)])"
        using True by (simp add: log_send_def)
      ultimately show ?thesis
        using w b(5) write_run_Cons [OF seg st, of st2 sw2 fs2]
        by (intro exI [of _ st2] exI [of _ sw2] exI [of _ "(part, p) # fs2"])
          (simp add: part_def p_def add.assoc)
    qed
  qed
qed

subsection \<open>Window updates\<close>

text \<open>A blocked sender has no window left: the wait flag is only set when nothing remains.\<close>

definition sw_inv :: "sendWindow \<Rightarrow> bool" where
  "sw_inv sw \<longleftrightarrow> (swait sw \<longrightarrow> smax sw \<le> ssend sw)"

lemma sw_inv_New: "sw_inv sw_New"
  by (simp add: sw_inv_def sw_New_def win_pack_parts mux_consts)

lemma SetSize_reject:
  assumes "\<not> sw_closed sw" "win_unpack cur = (cm, r, w0)" "ssend sw < unat r"
  shows "\<exists>reason. SetSize cur sw = (True, Some reason, sw)"
proof -
  obtain m d w where u: "win_unpack (sw_maxSizeDone sw) = (m, d, w)"
    using prod_cases3 by blast
  with assms sw_unpack [OF u] show ?thesis
    by (simp add: SetSize_def word_less_nat_alt)
qed

lemma SetSize_accept:
  assumes "\<not> sw_closed sw" "\<not> sw_chClosed sw" "sw_inv sw"
    and cur: "win_unpack cur = (cm, r, w0)" "unat r \<le> ssend sw"
  obtains sw' where "SetSize cur sw = (False, None, sw')"
    "smax sw' = unat cm" "ssend sw' = ssend sw - unat r"
    "swait sw' \<longleftrightarrow> swait sw \<and> unat cm \<le> ssend sw - unat r"
    "sw_token sw' \<longleftrightarrow> sw_token sw \<or> swait sw \<and> \<not> swait sw'"
    "sw_closed sw' = sw_closed sw" "sw_chClosed sw' = sw_chClosed sw"
    "sw_buf sw' = sw_buf sw" "sw_off sw' = sw_off sw"
proof -
  obtain m d w where u: "win_unpack (sw_maxSizeDone sw) = (m, d, w)"
    using prod_cases3 by blast
  note parts = sw_unpack [OF u]
  note cb = win_unpack_bounds [OF cur(1)]
  define out where "out = (d - r) AND word_of_int mask31"
  have out: "unat out = ssend sw - unat r" "unat out \<le> 2147483647"
  proof -
    have "unat (d - r) = unat d - unat r"
      using cur(2) parts by (simp add: unat_sub_if')
    then show "unat out = ssend sw - unat r" "unat out \<le> 2147483647"
      using parts by (simp_all add: out_def and_mask31 take_bit31_id)
  qed
  have rem: "unat (sw_remainingSize cm out) = unat cm - unat out"
    using out cb by (simp add: unat_sw_remainingSize take_bit31_id)
  then have rem0: "sw_remainingSize cm out = 0 \<longleftrightarrow> unat cm \<le> unat out"
    by (metis diff_is_0_eq unat_eq_zero)
  have nr: "\<not> d < r"
    using cur(2) parts by (simp add: word_less_nat_alt)
  show ?thesis
  proof (cases "r = 0 \<and> cm = m")
    case True
    then have "SetSize cur sw = (False, None, sw)"
      using assms(1) by (simp add: SetSize_def cur u)
    with True that [of sw] parts assms(3) show ?thesis
      by (auto simp: sw_inv_def)
  next
    case False
    define sw1 where "sw1 = sw\<lparr>sw_maxSizeDone := win_pack cm out (unat cm \<le> unat out \<and> w)\<rparr>"
    have "SetSize cur sw = (False, None, if w \<and> \<not> unat cm \<le> unat out then sw_allow sw1 else sw1)"
      using assms(1) False nr rem0 by (auto simp: SetSize_def cur u Let_def sw1_def out_def)
    with that [of "if w \<and> \<not> unat cm \<le> unat out then sw_allow sw1 else sw1"] assms(1,2) parts out cb
    show ?thesis
      by (auto simp: sw1_def sw_allow_def win_pack_parts)
  qed
qed

lemma WriteTo_not_ready:
  "length (sw_buf sw) < 4294967296 \<Longrightarrow> \<not> sw_ready sw \<Longrightarrow> WriteTo sw \<in> {WErrClosed, WEOF}"
  by (subst WriteTo_cases) (auto simp: sw_ready_def)

lemma WriteTo_WBlockD:
  assumes "WriteTo sw = WBlock sw'" "length (sw_buf sw) < 4294967296"
  shows "sw_ready sw" "smax sw \<le> ssend sw" "sw' = sw\<lparr>sw_maxSizeDone := sw_maxSizeDone sw'\<rparr>"
    "smax sw' = smax sw" "ssend sw' = ssend sw" "swait sw'"
proof -
  show ready: "sw_ready sw"
    using WriteTo_not_ready [OF assms(2)] assms(1) by auto
  show le: "smax sw \<le> ssend sw"
    using WriteTo_seg [OF ready] assms(1) by (metis linorder_not_less write_out.distinct(17))
  obtain sw2 where "WriteTo sw = WBlock sw2" "sw2 = sw\<lparr>sw_maxSizeDone := sw_maxSizeDone sw2\<rparr>"
    "smax sw2 = smax sw" "ssend sw2 = ssend sw" "swait sw2"
    using WriteTo_block [OF ready le] .
  with assms(1) show "sw' = sw\<lparr>sw_maxSizeDone := sw_maxSizeDone sw'\<rparr>"
    "smax sw' = smax sw" "ssend sw' = ssend sw" "swait sw'"
    by simp_all
qed

lemma WriteTo_WSegD:
  assumes "WriteTo sw = WSeg p l part sw'" "length (sw_buf sw) < 4294967296"
  shows "sw_ready sw" "ssend sw < smax sw" "seg_step sw sw'"
    "p = take (seg_len sw) (drop (unat (sw_off sw)) (sw_buf sw))" "l = word_of_nat (seg_len sw)"
    "part \<longleftrightarrow> unat (sw_off sw) + seg_len sw < length (sw_buf sw)"
proof -
  show ready: "sw_ready sw"
    using WriteTo_not_ready [OF assms(2)] assms(1) by auto
  show lt: "ssend sw < smax sw"
    using WriteTo_block [OF ready] assms(1) by (metis linorder_not_less write_out.distinct(17))
  obtain sw2 where "WriteTo sw = WSeg (take (seg_len sw) (drop (unat (sw_off sw)) (sw_buf sw)))
       (word_of_nat (seg_len sw)) (unat (sw_off sw) + seg_len sw < length (sw_buf sw)) sw2"
    "seg_step sw sw2"
    using WriteTo_seg_step [OF ready lt] .
  with assms(1) show "seg_step sw sw'"
    "p = take (seg_len sw) (drop (unat (sw_off sw)) (sw_buf sw))" "l = word_of_nat (seg_len sw)"
    "part \<longleftrightarrow> unat (sw_off sw) + seg_len sw < length (sw_buf sw)"
    by simp_all
qed

lemma WriteTo_inv:
  assumes "sw_inv sw" "length (sw_buf sw) < 4294967296"
  shows "WriteTo sw = WBlock sw' \<Longrightarrow> sw_inv sw'" "WriteTo sw = WSeg p l part sw' \<Longrightarrow> sw_inv sw'"
  using assms WriteTo_WBlockD [of sw sw'] WriteTo_WSegD [of sw p l part sw']
  by (auto simp: sw_inv_def seg_step_def)

subsection \<open>Properties\<close>

text \<open>
  C18: A write cuts its buffer into frames of at most one segment, in order and without a gap, with the
  \<open>part\<close> flag on every frame but the one that ends the buffer.  It reports exactly the bytes the session
  accepted, charges the window with exactly those bytes (a refused frame is rolled back), never goes
  past the window, and stops only at the end of the buffer, at a full window or at a refused frame.
\<close>

theorem WriteFull_segments:
  assumes "\<not> sw_closed sw" "length buf < 4294967296"
  shows "\<exists>st sw' fs.
     WriteFull (log_send acc) buf sw [] = Some (length (payload fs), st, sw', fs) \<and>
     cuts buf fs \<and> payload fs = take (length (payload fs)) buf \<and>
     ssend sw' = ssend sw + length (payload fs) \<and> smax sw' = smax sw \<and>
     (fs \<noteq> [] \<longrightarrow> ssend sw' \<le> smax sw) \<and>
     (st = WrOk \<longrightarrow> payload fs = buf) \<and>
     (st = WrBlocked \<longrightarrow> smax sw' \<le> ssend sw' \<and> swait sw') \<and>
     st \<in> {WrOk, WrBlocked, WrSendFailed}"
proof -
  let ?sw = "SetSendBuf buf sw"
  have "\<exists>st sw' fs'. write_loop (Suc (length buf)) (log_send acc) ?sw 0 [] =
     Some (0 + length (payload fs'), st, sw', [] @ fs') \<and> write_run ?sw st sw' fs'"
    using assms by (intro write_loop_run) (simp_all add: SetSendBuf_def)
  then obtain st sw' fs where run: "WriteFull (log_send acc) buf sw [] = Some (length (payload fs), st, sw', fs)"
    "write_run ?sw st sw' fs"
    by (auto simp: WriteFull_def)
  then have "cuts buf fs"
    by (simp add: write_run_def SetSendBuf_def)
  with run payload_cuts [OF this] show ?thesis
    by (intro exI [of _ st] exI [of _ sw'] exI [of _ fs]) (auto simp: write_run_def SetSendBuf_def)
qed

theorem WriteFull_segments_witness:
  "\<exists>st sw' fs.
     WriteFull (log_send (\<lambda>_ _ _. True)) [1, 2, 3] sw_New [] = Some (length (payload fs), st, sw', fs) \<and>
     payload fs = take (length (payload fs)) [1, 2, 3] \<and> (st = WrOk \<longrightarrow> payload fs = [1, 2, 3])"
  using WriteFull_segments [of sw_New "[1, 2, 3]" "\<lambda>_ _ _. True"] by (auto simp: sw_New_def)

text \<open>
  C34: A buffer of exactly 4 GiB is dropped: the length check truncates it to 32 bits, so the write
  returns at once with zero bytes written and no error, and no frame is sent.
\<close>

theorem WriteFull_4GiB_lost:
  assumes "\<not> sw_closed sw" "length buf = 4294967296"
  shows "WriteFull send buf sw m = Some (0, WrOk, SetSendBuf buf sw, m)"
proof -
  have "(word_of_nat (length buf) :: uint32) = 0"
    using assms(2) by simp
  then have "WriteTo (SetSendBuf buf sw) = WEOF"
    using assms(1) by (simp add: WriteTo_def SetSendBuf_def)
  then show ?thesis by (simp add: WriteFull_def)
qed

theorem WriteFull_4GiB_lost_witness:
  "WriteFull (log_send (\<lambda>_ _ _. True)) (replicate 4294967296 0) sw_New [] =
     Some (0, WrOk, SetSendBuf (replicate 4294967296 0) sw_New, [])"
  by (rule WriteFull_4GiB_lost) (simp_all add: sw_New_def)

end
