(* ===== verification/Fifo.thy ===== *)
theory Fifo
  imports Main
begin

text \<open>
  The contract of a first-in first-out queue as the multiplexer uses it: a push always succeeds, a
  pop returns the oldest element or reports an empty queue, and never spins (\<open>None\<close>).  Clients of a
  queue are proved over this interface; \<open>bufChain\<close> and the other queues of package mux interpret it.
\<close>

text \<open>Pop \<open>n\<close> times, collecting what each pop returns.\<close>

fun pop_n :: "('q \<Rightarrow> ('a option \<times> 'q) option) \<Rightarrow> nat \<Rightarrow> 'q \<Rightarrow> ('a option list \<times> 'q) option" where
  "pop_n pop 0 q = Some ([], q)"
| "pop_n pop (Suc n) q =
     (case pop q of None \<Rightarrow> None
      | Some (r, q') \<Rightarrow> map_option (\<lambda>(rs, q''). (r # rs, q'')) (pop_n pop n q'))"

locale fifo =
  fixes empty_q :: 'q
    and push :: "'a \<Rightarrow> 'q \<Rightarrow> 'q"
    and pop :: "'q \<Rightarrow> ('a option \<times> 'q) option"
    and contents :: "'q \<Rightarrow> 'a list"
    and inv_q :: "'q \<Rightarrow> bool"
  assumes inv_empty: "inv_q empty_q"
    and contents_empty: "contents empty_q = []"
    and inv_push: "inv_q q \<Longrightarrow> inv_q (push x q)"
    and contents_push: "inv_q q \<Longrightarrow> contents (push x q) = contents q @ [x]"
    and pop_nil: "inv_q q \<Longrightarrow> contents q = [] \<Longrightarrow>
      \<exists>q'. pop q = Some (None, q') \<and> inv_q q' \<and> contents q' = []"
    and pop_cons: "inv_q q \<Longrightarrow> contents q = x # xs \<Longrightarrow>
      \<exists>q'. pop q = Some (Some x, q') \<and> inv_q q' \<and> contents q' = xs"
begin

lemma pop_total: "inv_q q \<Longrightarrow> \<exists>r q'. pop q = Some (r, q') \<and> inv_q q'"
  using pop_nil pop_cons by (cases "contents q") blast+

lemma pop_Some:
  assumes "inv_q q" "pop q = Some (Some x, q')"
  shows "contents q = x # contents q'" "inv_q q'"
proof -
  have "contents q \<noteq> []"
    using pop_nil [OF assms(1)] assms(2) by auto
  then obtain y ys where "contents q = y # ys" by (meson neq_Nil_conv)
  with pop_cons [OF assms(1) this] assms(2) show "contents q = x # contents q'" "inv_q q'" by auto
qed

lemma pop_None:
  assumes "inv_q q" "pop q = Some (None, q')"
  shows "contents q = []" "contents q' = []" "inv_q q'"
proof -
  show "contents q = []"
    using pop_cons [OF assms(1)] assms(2) by (cases "contents q") auto
  with pop_nil [OF assms(1)] assms(2) show "contents q' = []" "inv_q q'" by auto
qed

lemma fold_push_inv: "inv_q q \<Longrightarrow> inv_q (fold push xs q)"
  by (induction xs arbitrary: q) (simp_all add: inv_push)

lemma fold_push_contents: "inv_q q \<Longrightarrow> contents (fold push xs q) = contents q @ xs"
  by (induction xs arbitrary: q) (simp_all add: inv_push contents_push)

lemma pop_n_contents:
  "inv_q q \<Longrightarrow> n \<le> length (contents q) \<Longrightarrow>
   \<exists>q'. pop_n pop n q = Some (map Some (take n (contents q)), q') \<and> inv_q q' \<and>
     contents q' = drop n (contents q)"
proof (induction n arbitrary: q)
  case 0
  then show ?case by simp
next
  case (Suc n)
  then obtain x xs where xs: "contents q = x # xs"
    by (cases "contents q") auto
  with pop_cons [OF Suc.prems(1) xs] obtain q1 where
    q1: "pop q = Some (Some x, q1)" "inv_q q1" "contents q1 = xs" by blast
  with Suc.prems xs have "\<exists>q'. pop_n pop n q1 = Some (map Some (take n (contents q1)), q') \<and> inv_q q' \<and>
      contents q' = drop n (contents q1)"
    by (intro Suc.IH) simp_all
  with q1 xs show ?case by auto
qed

lemma push_pop_order:
  "\<exists>q'. pop_n pop (length xs) (fold push xs empty_q) = Some (map Some xs, q') \<and> contents q' = []"
  using pop_n_contents [of "fold push xs empty_q" "length xs"]
  by (auto simp: fold_push_inv fold_push_contents inv_empty contents_empty)

end

end
