(* ===== verification/Mux_Chain.thy ===== *)
theory Mux_Chain
  imports Prelude Fifo
begin

text \<open>
  The ring buffer \<open>bufDequeue\<close> and the chain of ring buffers \<open>bufChain\<close> of
  \<open>src/lib/mux/queue_chain.go\<close>.  The receive queue calls both under its mutex, so each operation is
  one state transition: the compare-and-swap of an iteration succeeds, and the flags \<open>starving\<close> and
  \<open>newChain\<close>, which only pace competing goroutines, do not change.  A slot holds \<open>None\<close> for \<open>nil\<close>.
  \<open>popTail\<close> re-reads an empty slot until it is filled; \<open>None\<close> is the outcome of that loop when
  nobody fills the slot.

  A \<open>bufChain\<close> is the list of its dequeues from the tail (oldest) to the head (newest).
\<close>

definition dequeueLimit :: nat where
  "dequeueLimit = 2 ^ 32 div 4"

record 'a bufDequeue =
  headTail :: uint64
  vals :: "'a option list"

definition dq_unpack :: "uint64 \<Rightarrow> uint32 \<times> uint32" where
  "dq_unpack ptrs =
     (ucast (drop_bit 32 ptrs AND 4294967295), ucast (ptrs AND 4294967295))"

definition dq_pack :: "uint32 \<Rightarrow> uint32 \<Rightarrow> uint64" where
  "dq_pack head tail = push_bit 32 (ucast head) OR ucast (tail AND 4294967295)"

definition dq_pushHead :: "'a \<Rightarrow> 'a bufDequeue \<Rightarrow> 'a bufDequeue option" where
  "dq_pushHead v d =
     (let (head, tail) = dq_unpack (headTail d);
          n = word_of_nat (length (vals d))
      in if (tail + n) AND 4294967295 = head then None
         else Some (d\<lparr>headTail := dq_pack (head + 1) tail,
                      vals := (vals d)[unat (head AND (n - 1)) := Some v]\<rparr>))"

definition dq_popTail :: "'a bufDequeue \<Rightarrow> ('a option \<times> 'a bufDequeue) option" where
  "dq_popTail d =
     (let (head, tail) = dq_unpack (headTail d);
          n = word_of_nat (length (vals d));
          slot = unat (tail AND (n - 1))
      in if tail = head then Some (None, d)
         else case vals d ! slot of
                None \<Rightarrow> None
              | Some v \<Rightarrow>
                  Some (Some v, d\<lparr>vals := (vals d)[slot := None],
                    headTail := (if tail < 4294967295 then headTail d + 1
                                 else headTail d + NOT (4294967295 - 1))\<rparr>))"

type_synonym 'a bufChain = "'a bufDequeue list"

definition chain_new :: "nat \<Rightarrow> 'a bufChain" where
  "chain_new initSize = [\<lparr>headTail = 0, vals = replicate initSize None\<rparr>]"

definition chain_pushHead :: "'a \<Rightarrow> 'a bufChain \<Rightarrow> 'a bufChain" where
  "chain_pushHead v c =
     (let d = last c
      in case dq_pushHead v d of
           Some d' \<Rightarrow> butlast c @ [d']
         | None \<Rightarrow>
             (let newSize = length (vals d) * 2;
                  newSize = (if dequeueLimit \<le> newSize then dequeueLimit else newSize);
                  d2 = \<lparr>headTail = 0, vals = replicate newSize None\<rparr>
              in c @ [case dq_pushHead v d2 of Some d2' \<Rightarrow> d2' | None \<Rightarrow> d2]))"

fun chain_popTail :: "'a bufChain \<Rightarrow> ('a option \<times> 'a bufChain) option" where
  "chain_popTail [] = Some (None, [])"
| "chain_popTail (d # ds) =
     (case dq_popTail d of
        None \<Rightarrow> None
      | Some (Some v, d') \<Rightarrow> Some (Some v, d' # ds)
      | Some (None, d') \<Rightarrow> (if ds = [] then Some (None, [d']) else chain_popTail ds))"

subsection \<open>The packed index word\<close>

lemma and_ones32: "(x :: uint32) AND 4294967295 = x"
proof -
  have "(4294967295 :: uint32) = - 1" by simp
  then show ?thesis by (simp only: and.right_neutral)
qed

lemma and_ones64: "(x :: uint64) AND 4294967295 = take_bit 32 x"
proof -
  have "(4294967295 :: uint64) = mask 32"
    by (simp add: mask_eq_exp_minus_1)
  then show ?thesis by (simp only: take_bit_eq_mask)
qed

lemma unat_ucast_low: "unat (ucast (take_bit 32 (x :: uint64)) :: uint32) = unat x mod 4294967296"
proof -
  have "unat (ucast (take_bit 32 x) :: uint32) = take_bit 32 (take_bit 32 (unat x))"
    by (simp only: unsigned_ucast_eq unsigned_take_bit_eq len_num0 len_bit0 len_num1) simp
  then show ?thesis by (simp add: take_bit_eq_mod)
qed

lemma dq_unpack_unat:
  "unat (fst (dq_unpack p)) = unat p div 4294967296" "unat (snd (dq_unpack p)) = unat p mod 4294967296"
proof -
  have "unat p div 4294967296 < 4294967296"
    using unat_lt64 [of p] by (simp add: less_mult_imp_div_less)
  then show "unat (fst (dq_unpack p)) = unat p div 4294967296"
    by (simp add: dq_unpack_def and_ones64 unat_ucast_low unat_drop_bit_eq drop_bit_eq_div unat_div)
  show "unat (snd (dq_unpack p)) = unat p mod 4294967296"
    by (simp add: dq_unpack_def and_ones64 unat_ucast_low)
qed

lemma unat_dq_pack: "unat (dq_pack h t) = unat h * 4294967296 + unat t"
proof -
  have lt: "unat h * 4294967296 < 18446744073709551616"
    using unat_lt32 [of h] by linarith
  have sh: "unat (push_bit 32 (ucast h :: uint64)) = unat h * 4294967296"
  proof -
    have "push_bit 32 (ucast h :: uint64) = ucast h * 4294967296"
      by (simp add: push_bit_eq_mult)
    with lt show ?thesis by (simp add: unat_word_ariths)
  qed
  have "dq_pack h t = push_bit 32 (ucast h) + ucast t"
    unfolding dq_pack_def and_ones32
    by (rule disjunctive_add_eq_or [symmetric], rule bit_word_eqI)
      (auto simp: bit_simps dest: bit_imp_le_length)
  moreover have "unat h * 4294967296 + unat t < 18446744073709551616"
    using unat_lt32 [of h] unat_lt32 [of t] by linarith
  ultimately show ?thesis
    using sh by (simp add: unat_word_ariths)
qed

lemma dq_unpack_eqI:
  assumes "unat p = unat h * 4294967296 + unat t"
  shows "dq_unpack p = (h, t)"
proof -
  have "unat (fst (dq_unpack p)) = unat h" "unat (snd (dq_unpack p)) = unat t"
    using assms unat_lt32 [of t] by (simp_all add: dq_unpack_unat)
  then show ?thesis
    by (simp add: prod_eq_iff word_unat_eq_iff)
qed

lemma dq_unpack_pack: "dq_unpack (dq_pack h t) = (h, t)"
  by (rule dq_unpack_eqI) (rule unat_dq_pack)

lemma dq_unpack_advance:
  assumes "dq_unpack p = (h, t)"
  shows "dq_unpack (if t < 4294967295 then p + 1 else p + NOT (4294967295 - 1)) = (h, t + 1)"
proof -
  have ht: "unat h = unat p div 4294967296" "unat t = unat p mod 4294967296"
    using assms dq_unpack_unat [of p] by simp_all
  then have p: "unat p = unat h * 4294967296 + unat t" by simp
  show ?thesis
  proof (cases "t < 4294967295")
    case True
    then have t: "unat t < 4294967295" by (simp add: word_less_nat_alt)
    then have "unat p + 1 < 18446744073709551616" "unat t + 1 < 4294967296"
      using p unat_lt32 [of h] by linarith+
    then have "unat (p + 1) = unat p + 1" "unat (t + 1) = unat t + 1"
      by (simp_all add: unat_word_ariths)
    with p True show ?thesis by (simp add: dq_unpack_eqI)
  next
    case False
    then have t: "unat t = 4294967295"
      using unat_lt32 [of t] by (simp add: word_less_nat_alt)
    then have t0: "t + 1 = 0"
      by (simp add: word_unat_eq_iff unat_word_ariths)
    have "p + NOT (4294967295 - 1) = p - 4294967295" by simp
    moreover have "unat (p - 4294967295) = unat h * 4294967296"
      using p t by (simp add: unat_sub_if')
    ultimately show ?thesis
      using False t0 by (simp add: dq_unpack_eqI)
  qed
qed

subsection \<open>The ring buffer holds a list\<close>

text \<open>
  \<open>ring k d xs\<close>: the dequeue has \<open>2\<^sup>k\<close> slots, the elements \<open>xs\<close> sit in the slots from the tail
  index on, modulo the number of slots, and every other slot is \<open>nil\<close>.
\<close>

definition ring :: "nat \<Rightarrow> 'a bufDequeue \<Rightarrow> 'a list \<Rightarrow> bool" where
  "ring k d xs \<longleftrightarrow>
     1 \<le> k \<and> k \<le> 30 \<and> length (vals d) = 2 ^ k \<and> length xs \<le> 2 ^ k \<and>
     fst (dq_unpack (headTail d)) = snd (dq_unpack (headTail d)) + word_of_nat (length xs) \<and>
     (\<forall>i < 2 ^ k. vals d ! ((unat (snd (dq_unpack (headTail d))) + i) mod 2 ^ k) =
        (if i < length xs then Some (xs ! i) else None))"

lemma slot_index:
  assumes "k \<le> 30"
  shows "unat ((x :: uint32) AND (word_of_nat (2 ^ k) - 1)) = unat x mod 2 ^ k"
proof -
  have "(word_of_nat (2 ^ k) :: uint32) - 1 = mask k"
    by (simp add: mask_eq_exp_minus_1)
  then have "x AND (word_of_nat (2 ^ k) - 1) = take_bit k x"
    by (simp only: take_bit_eq_mask)
  then have "unat (x AND (word_of_nat (2 ^ k) - 1)) = take_bit k (unat x)"
    by (simp only: unsigned_take_bit_eq)
  then show ?thesis
    by (simp only: take_bit_eq_mod)
qed

lemma unat_add_mod:
  assumes "k \<le> 30"
  shows "unat (t + word_of_nat j :: uint32) mod 2 ^ k = (unat t + j) mod 2 ^ k"
proof -
  have "(2 :: nat) ^ k dvd 2 ^ 32"
    using assms by (intro le_imp_power_dvd) simp
  moreover have "unat (t + word_of_nat j) = (unat t + j) mod 2 ^ 32"
    by (simp add: unat_word_ariths unsigned_of_nat take_bit_eq_mod mod_add_right_eq)
  ultimately show ?thesis
    by (simp only: mod_mod_cancel)
qed

lemma unat_succ_mod:
  assumes "k \<le> 30"
  shows "(unat (t + 1 :: uint32) + i) mod 2 ^ k = (unat t + Suc i) mod 2 ^ k"
proof -
  have "unat (t + 1) mod 2 ^ k = (unat t + 1) mod 2 ^ k"
    using unat_add_mod [OF assms, of t 1] by simp
  then have "(unat (t + 1) mod 2 ^ k + i) mod 2 ^ k = ((unat t + 1) mod 2 ^ k + i) mod 2 ^ k"
    by (rule arg_cong)
  then show ?thesis
    by (simp only: mod_add_left_eq) simp
qed

lemma mod_offset_inj:
  assumes "i < n" "j < n" "(t + i) mod n = (t + j) mod (n :: nat)"
  shows "i = j"
proof -
  have "a = b" if "a \<le> b" "b < n" "(t + b) mod n = (t + a) mod n" for a b
  proof -
    have "n dvd (t + b) - (t + a)"
      using that by (intro mod_eq_dvd_iff_nat [THEN iffD1]) simp_all
    then have "n dvd b - a" by simp
    with that(2) show ?thesis
      using that(1) nat_dvd_not_less [of "b - a" n] by (cases "a = b") auto
  qed
  from this [of i j] this [of j i] assms show ?thesis
    by (cases "i \<le> j") auto
qed

lemma ring_empty: "1 \<le> k \<Longrightarrow> k \<le> 30 \<Longrightarrow> ring k \<lparr>headTail = 0, vals = replicate (2 ^ k) None\<rparr> []"
  by (simp add: ring_def dq_unpack_def)

lemma ring_full_iff:
  assumes "ring k d xs" "dq_unpack (headTail d) = (h, t)"
  shows "(t + word_of_nat (length (vals d))) AND 4294967295 = h \<longleftrightarrow> length xs = 2 ^ k"
proof -
  from assms have h: "h = t + word_of_nat (length xs)" and len: "length (vals d) = 2 ^ k"
    and le: "length xs \<le> 2 ^ k" and k: "k \<le> 30"
    by (simp_all add: ring_def)
  have "(2::nat) ^ k \<le> 2 ^ 30"
    using k by (intro power_increasing) simp_all
  then have lt: "2 ^ k < (2::nat) ^ LENGTH(32)" "length xs < 2 ^ LENGTH(32)"
    using le by simp_all
  have "(t + word_of_nat (2 ^ k) = h) \<longleftrightarrow> (word_of_nat (2 ^ k) :: uint32) = word_of_nat (length xs)"
    using h by simp
  also have "\<dots> \<longleftrightarrow> 2 ^ k = length xs"
    using unat_of_nat_id [OF lt(1)] unat_of_nat_id [OF lt(2)] by metis
  finally show ?thesis
    using len by (simp only: and_ones32) auto
qed

lemma ring_push:
  assumes "ring k d xs" "length xs < 2 ^ k"
  shows "\<exists>d'. dq_pushHead v d = Some d' \<and> ring k d' (xs @ [v])"
proof -
  obtain h t where u: "dq_unpack (headTail d) = (h, t)" by fastforce
  from assms u have h: "h = t + word_of_nat (length xs)" and len: "length (vals d) = 2 ^ k"
    and k: "1 \<le> k" "k \<le> 30"
    and slots: "\<And>i. i < 2 ^ k \<Longrightarrow> vals d ! ((unat t + i) mod 2 ^ k) = (if i < length xs then Some (xs ! i) else None)"
    by (simp_all add: ring_def)
  define d' where "d' = d\<lparr>headTail := dq_pack (h + 1) t,
      vals := (vals d)[unat (h AND (word_of_nat (length (vals d)) - 1)) := Some v]\<rparr>"
  have push: "dq_pushHead v d = Some d'"
    using ring_full_iff [OF assms(1) u] assms(2) by (simp add: dq_pushHead_def u d'_def Let_def)
  have slot: "unat (h AND (word_of_nat (length (vals d)) - 1)) = (unat t + length xs) mod 2 ^ k"
    using k(2) by (simp only: len slot_index h unat_add_mod)
  have "vals d' ! ((unat t + i) mod 2 ^ k) = (if i < length (xs @ [v]) then Some ((xs @ [v]) ! i) else None)"
    if "i < 2 ^ k" for i
  proof (cases "i = length xs")
    case True
    then show ?thesis
      by (simp only: d'_def bufDequeue.simps slot) (simp add: len)
  next
    case False
    then have "(unat t + i) mod 2 ^ k \<noteq> (unat t + length xs) mod 2 ^ k"
      using mod_offset_inj [OF that assms(2)] by metis
    with False slots [OF that] show ?thesis
      by (simp only: d'_def bufDequeue.simps slot) (auto simp: nth_append)
  qed
  moreover have "dq_unpack (headTail d') = (h + 1, t)"
    by (simp add: d'_def dq_unpack_pack)
  ultimately have "ring k d' (xs @ [v])"
    using k assms(2) h len by (simp add: ring_def d'_def add.assoc)
  with push show ?thesis by blast
qed

lemma ring_pop:
  assumes "ring k d (x # xs)"
  shows "\<exists>d'. dq_popTail d = Some (Some x, d') \<and> ring k d' xs"
proof -
  obtain h t where u: "dq_unpack (headTail d) = (h, t)" by fastforce
  from assms u have h: "h = t + word_of_nat (Suc (length xs))" and len: "length (vals d) = 2 ^ k"
    and k: "1 \<le> k" "k \<le> 30" and lxs: "Suc (length xs) \<le> 2 ^ k"
    and slots: "\<And>i. i < 2 ^ k \<Longrightarrow> vals d ! ((unat t + i) mod 2 ^ k) =
      (if i < Suc (length xs) then Some ((x # xs) ! i) else None)"
    by (simp_all add: ring_def)
  have "(2::nat) ^ k \<le> 2 ^ 30"
    using k by (intro power_increasing) simp_all
  then have "unat (word_of_nat (Suc (length xs)) :: uint32) = Suc (length xs)"
    using lxs by (intro unat_of_nat_id) simp
  then have ne: "t \<noteq> h"
    by (metis h add_0_right add_left_cancel nat.distinct(1) unat_0)
  define n where "n = (word_of_nat (length (vals d)) :: uint32)"
  have slot: "unat (t AND (n - 1)) = unat t mod 2 ^ k"
    using k(2) by (simp only: n_def len slot_index)
  have v: "vals d ! (unat t mod 2 ^ k) = Some x"
    using slots [of 0] by simp
  define d' where "d' = d\<lparr>vals := (vals d)[unat t mod 2 ^ k := None],
      headTail := (if t < 4294967295 then headTail d + 1 else headTail d + NOT (4294967295 - 1))\<rparr>"
  have pop: "dq_popTail d = Some (Some x, d')"
    using ne v slot by (simp add: dq_popTail_def u Let_def d'_def flip: n_def)
  have u': "dq_unpack (headTail d') = (h, t + 1)"
    using dq_unpack_advance [OF u] by (simp add: d'_def)
  have "vals d' ! ((unat (t + 1) + i) mod 2 ^ k) = (if i < length xs then Some (xs ! i) else None)"
    if "i < 2 ^ k" for i
  proof -
    have "(unat (t + 1) + i) mod 2 ^ k = (unat t + Suc i) mod 2 ^ k"
      using k(2) by (rule unat_succ_mod)
    moreover have "vals d' ! ((unat t + Suc i) mod 2 ^ k) = (if i < length xs then Some (xs ! i) else None)"
    proof (cases "Suc i = 2 ^ k")
      case True
      then have "(unat t + Suc i) mod 2 ^ k = unat t mod 2 ^ k" "\<not> i < length xs"
        using lxs by simp_all
      then show ?thesis by (simp add: d'_def len)
    next
      case False
      with that have si: "Suc i < 2 ^ k" by simp
      then have "(unat t + Suc i) mod 2 ^ k \<noteq> unat t mod 2 ^ k"
        using mod_offset_inj [OF si, of 0 "unat t"] by auto
      with slots [OF si] show ?thesis by (simp add: d'_def)
    qed
    ultimately show ?thesis by simp
  qed
  with u' k lxs h len have "ring k d' xs"
    by (simp add: ring_def d'_def add.assoc)
  with pop show ?thesis by blast
qed

lemma ring_pop_empty: "ring k d [] \<Longrightarrow> dq_popTail d = Some (None, d)"
  by (cases "dq_unpack (headTail d)") (simp add: ring_def dq_popTail_def)

subsection \<open>The chain is a queue\<close>

definition dq_list :: "'a bufDequeue \<Rightarrow> 'a list" where
  "dq_list d =
     (let (h, t) = dq_unpack (headTail d)
      in map (\<lambda>i. the (vals d ! ((unat t + i) mod length (vals d)))) [0..<unat (h - t)])"

definition dq_ok :: "'a bufDequeue \<Rightarrow> bool" where
  "dq_ok d \<longleftrightarrow> (\<exists>k xs. ring k d xs)"

definition chain_list :: "'a bufChain \<Rightarrow> 'a list" where
  "chain_list c = concat (map dq_list c)"

definition chain_inv :: "'a bufChain \<Rightarrow> bool" where
  "chain_inv c \<longleftrightarrow> c \<noteq> [] \<and> (\<forall>d \<in> set c. dq_ok d)"

lemma ring_dq_list:
  assumes "ring k d xs"
  shows "dq_list d = xs"
proof -
  obtain h t where u: "dq_unpack (headTail d) = (h, t)" by fastforce
  from assms u have h: "h = t + word_of_nat (length xs)" and len: "length (vals d) = 2 ^ k"
    and k: "k \<le> 30" and le: "length xs \<le> 2 ^ k"
    and slots: "\<And>i. i < 2 ^ k \<Longrightarrow> vals d ! ((unat t + i) mod 2 ^ k) = (if i < length xs then Some (xs ! i) else None)"
    by (simp_all add: ring_def)
  have "(2::nat) ^ k \<le> 2 ^ 30"
    using k by (intro power_increasing) simp_all
  then have n: "unat (h - t) = length xs"
    using h le by (simp add: unat_of_nat_id)
  show ?thesis
  proof (rule nth_equalityI)
    show "length (dq_list d) = length xs"
      by (simp add: dq_list_def u n)
    show "dq_list d ! i = xs ! i" if "i < length (dq_list d)" for i
      using that slots [of i] le by (simp add: dq_list_def u n len)
  qed
qed

lemma dq_okE:
  assumes "dq_ok d"
  obtains k where "ring k d (dq_list d)"
proof -
  from assms obtain k xs where "ring k d xs" unfolding dq_ok_def by blast
  with ring_dq_list [OF this] that show ?thesis by simp
qed

lemma dq_push_ok:
  assumes "dq_ok d" "dq_pushHead v d = Some d'"
  shows "dq_ok d'" "dq_list d' = dq_list d @ [v]"
proof -
  obtain k where r: "ring k d (dq_list d)" using assms(1) by (rule dq_okE)
  obtain h t where u: "dq_unpack (headTail d) = (h, t)" by fastforce
  have "length (dq_list d) \<noteq> 2 ^ k"
    using assms(2) ring_full_iff [OF r u] by (auto simp: dq_pushHead_def u Let_def)
  with r have "length (dq_list d) < 2 ^ k" by (simp add: ring_def)
  from ring_push [OF r this, of v] assms(2) have "ring k d' (dq_list d @ [v])" by simp
  then show "dq_ok d'" "dq_list d' = dq_list d @ [v]"
    by (auto simp: dq_ok_def dest: ring_dq_list)
qed

lemma dq_fresh_push:
  assumes "1 \<le> k" "k \<le> 30"
  shows "\<exists>d'. dq_pushHead v \<lparr>headTail = 0, vals = replicate (2 ^ k) None\<rparr> = Some d' \<and>
    dq_ok d' \<and> dq_list d' = [v]"
  using ring_push [OF ring_empty [OF assms], of v] by (auto simp: dq_ok_def dest: ring_dq_list)

lemma grown_size:
  assumes "dq_ok d"
  shows "\<exists>k. 1 \<le> k \<and> k \<le> 30 \<and>
    (if dequeueLimit \<le> length (vals d) * 2 then dequeueLimit else length (vals d) * 2) = 2 ^ k"
proof -
  obtain k where k: "1 \<le> k" "k \<le> 30" "length (vals d) = 2 ^ k"
    using assms by (auto simp: dq_ok_def ring_def)
  have lim: "dequeueLimit = 2 ^ 30"
    by (simp add: dequeueLimit_def)
  show ?thesis
  proof (cases "dequeueLimit \<le> length (vals d) * 2")
    case True
    with lim show ?thesis by (intro exI [of _ 30]) simp
  next
    case False
    then have "(2::nat) ^ Suc k < 2 ^ 30"
      using k lim by simp
    then have "Suc k < 30"
      by (rule power_less_imp_less_exp [rotated]) simp
    with False k show ?thesis by (intro exI [of _ "Suc k"]) simp
  qed
qed

lemma chain_push:
  assumes "chain_inv c"
  shows "chain_inv (chain_pushHead v c) \<and> chain_list (chain_pushHead v c) = chain_list c @ [v]"
proof -
  from assms obtain ds d where c: "c = ds @ [d]"
    by (cases c rule: rev_cases) (auto simp: chain_inv_def)
  with assms have ok: "dq_ok d" "\<forall>d \<in> set ds. dq_ok d"
    by (simp_all add: chain_inv_def)
  show ?thesis
  proof (cases "dq_pushHead v d")
    case (Some d')
    then have "chain_pushHead v c = ds @ [d']"
      by (simp add: chain_pushHead_def c)
    with dq_push_ok [OF ok(1) Some] ok(2) c show ?thesis
      by (simp add: chain_inv_def chain_list_def)
  next
    case None
    obtain k where k: "1 \<le> k" "k \<le> 30" "(if dequeueLimit \<le> length (vals d) * 2
        then dequeueLimit else length (vals d) * 2) = 2 ^ k"
      using grown_size [OF ok(1)] by (elim exE conjE)
    obtain d2 where d2: "dq_pushHead v \<lparr>headTail = 0, vals = replicate (2 ^ k) None\<rparr> = Some d2"
      "dq_ok d2" "dq_list d2 = [v]"
      using dq_fresh_push [OF k(1,2), of v] by (elim exE conjE)
    have "chain_pushHead v c = c @ [d2]"
      by (simp only: chain_pushHead_def Let_def c last_snoc None option.case k(3) d2(1))
    with d2 ok c show ?thesis
      by (simp add: chain_inv_def chain_list_def)
  qed
qed

lemma dq_popTail_ok:
  assumes "dq_ok d"
  shows "dq_list d = [] \<Longrightarrow> dq_popTail d = Some (None, d)"
    "dq_list d = x # xs \<Longrightarrow> \<exists>d'. dq_popTail d = Some (Some x, d') \<and> dq_ok d' \<and> dq_list d' = xs"
proof -
  obtain k where r: "ring k d (dq_list d)" using assms by (rule dq_okE)
  show "dq_popTail d = Some (None, d)" if "dq_list d = []"
    using r that by (auto intro: ring_pop_empty)
  show "\<exists>d'. dq_popTail d = Some (Some x, d') \<and> dq_ok d' \<and> dq_list d' = xs" if "dq_list d = x # xs"
    using ring_pop [of k d x xs] r that by (auto simp: dq_ok_def dest: ring_dq_list)
qed

lemma chain_pop:
  assumes "chain_inv c"
  shows "\<exists>c'. chain_popTail c =
      Some (case chain_list c of [] \<Rightarrow> (None, c') | x # xs \<Rightarrow> (Some x, c')) \<and>
    chain_inv c' \<and> chain_list c' = tl (chain_list c)"
  using assms
proof (induction c)
  case Nil
  then show ?case by (simp add: chain_inv_def)
next
  case (Cons d ds)
  then have ok: "dq_ok d" and oks: "\<forall>d \<in> set ds. dq_ok d"
    by (simp_all add: chain_inv_def)
  show ?case
  proof (cases "dq_list d")
    case (Cons x xs)
    with dq_popTail_ok(2) [OF ok Cons] oks show ?thesis
      by (auto simp: chain_inv_def chain_list_def)
  next
    case Nil
    then have p: "dq_popTail d = Some (None, d)"
      using ok by (rule dq_popTail_ok(1) [rotated])
    show ?thesis
    proof (cases "ds = []")
      case True
      with p Nil ok show ?thesis by (simp add: chain_inv_def chain_list_def)
    next
      case False
      with oks have "chain_inv ds" by (simp add: chain_inv_def)
      from Cons.IH [OF this] p Nil False show ?thesis by (simp add: chain_list_def)
    qed
  qed
qed

interpretation chain: fifo "chain_new 64" chain_pushHead chain_popTail chain_list chain_inv
proof unfold_locales
  have "ring 6 \<lparr>headTail = 0, vals = replicate 64 None\<rparr> []"
    using ring_empty [of 6] by simp
  then show "chain_inv (chain_new 64)" "chain_list (chain_new 64) = []"
    by (auto simp: chain_inv_def chain_list_def chain_new_def dq_ok_def dest: ring_dq_list)
next
  fix q x xs
  assume "chain_inv q"
  then show "chain_inv (chain_pushHead x q)" "chain_list (chain_pushHead x q) = chain_list q @ [x]"
    by (simp_all add: chain_push)
  show "chain_list q = [] \<Longrightarrow> \<exists>q'. chain_popTail q = Some (None, q') \<and> chain_inv q' \<and> chain_list q' = []"
    and "chain_list q = x # xs \<Longrightarrow> \<exists>q'. chain_popTail q = Some (Some x, q') \<and> chain_inv q' \<and> chain_list q' = xs"
    using chain_pop [OF \<open>chain_inv q\<close>] by auto
qed


end
