(* ===== verification/Mux_RecvQueue.thy ===== *)
theory Mux_RecvQueue
  imports Mux_Chain
begin

text \<open>
  The receive queue of a stream: \<open>src/lib/mux/queue_receive_window.go\<close>.  \<open>lengthWait\<close> packs the
  number of queued bytes with the flag of a waiting reader.  \<open>Push\<close> reports whether it has to wake
  the reader; a \<open>Pop\<close> that finds no bytes raises the flag and waits (\<open>RqWait\<close>).
\<close>

record listElement =
  le_Buf :: bytes
  le_L :: uint16
  le_Part :: bool

definition le_Reset :: listElement where
  "le_Reset = \<lparr>le_Buf = [], le_L = 0, le_Part = False\<rparr>"

datatype element_error = BufLengthNotMatch

definition newListElement :: "bytes \<Rightarrow> uint16 \<Rightarrow> bool \<Rightarrow> element_error + listElement" where
  "newListElement buf l part =
     (if (word_of_nat (length buf) :: uint16) < l then Inl BufLengthNotMatch
      else Inr \<lparr>le_Buf = buf, le_L = l, le_Part = part\<rparr>)"

record receiveWindowQueue =
  rq_lengthWait :: uint64
  rq_chain :: "listElement bufChain"
  rq_stopped :: bool

definition newReceiveWindowQueue :: receiveWindowQueue where
  "newReceiveWindowQueue = \<lparr>rq_lengthWait = 0, rq_chain = chain_new 64, rq_stopped = False\<rparr>"

definition rq_Push :: "listElement \<Rightarrow> receiveWindowQueue \<Rightarrow> bool \<times> receiveWindowQueue" where
  "rq_Push element q =
     (let (len, wait) = dq_unpack (rq_lengthWait q);
          len = len + ucast (le_L element)
      in (wait = 1,
          q\<lparr>rq_lengthWait := dq_pack len 0, rq_chain := chain_pushHead element (rq_chain q)\<rparr>))"

definition rq_TryPop :: "receiveWindowQueue \<Rightarrow> (listElement option \<times> receiveWindowQueue) option" where
  "rq_TryPop q =
     (case chain_popTail (rq_chain q) of
        None \<Rightarrow> None
      | Some (None, c) \<Rightarrow> Some (None, q\<lparr>rq_chain := c\<rparr>)
      | Some (Some element, c) \<Rightarrow>
          Some (Some element, q\<lparr>rq_chain := c,
            rq_lengthWait := rq_lengthWait q + NOT (push_bit 32 (ucast (le_L element)) - 1)\<rparr>))"

datatype rq_out = RqElem listElement receiveWindowQueue | RqWait receiveWindowQueue | RqSpin

definition rq_Pop :: "receiveWindowQueue \<Rightarrow> rq_out" where
  "rq_Pop q =
     (let (len, _) = dq_unpack (rq_lengthWait q)
      in if len = 0 then RqWait (q\<lparr>rq_lengthWait := dq_pack 0 1\<rparr>)
         else case rq_TryPop q of
                Some (Some element, q') \<Rightarrow> RqElem element q'
              | _ \<Rightarrow> RqSpin)"

text \<open>The cases of the \<open>select\<close> in \<open>waitPush\<close>; \<open>None\<close> means that the case is not ready.\<close>

datatype push_case = CaseReadOp | CaseStopOp | CasePushTimer | CasePushDeadline

datatype push_out = PushResume | PushEOF | PushTimeout | PushAgain

fun rq_waitPush :: "push_case \<Rightarrow> bool \<Rightarrow> receiveWindowQueue \<Rightarrow> push_out option" where
  "rq_waitPush CaseReadOp offered q = (if offered then Some PushResume else None)"
| "rq_waitPush CaseStopOp offered q = (if rq_stopped q then Some PushEOF else None)"
| "rq_waitPush CasePushTimer offered q = Some PushTimeout"
| "rq_waitPush CasePushDeadline offered q = Some PushAgain"

definition rq_Len :: "receiveWindowQueue \<Rightarrow> uint32" where
  "rq_Len q = fst (dq_unpack (rq_lengthWait q))"

definition rq_Stop :: "receiveWindowQueue \<Rightarrow> receiveWindowQueue" where
  "rq_Stop q = q\<lparr>rq_stopped := True\<rparr>"

subsection \<open>The byte count is exact\<close>

definition rq_elems :: "receiveWindowQueue \<Rightarrow> listElement list" where
  "rq_elems q = chain_list (rq_chain q)"

definition rq_total :: "receiveWindowQueue \<Rightarrow> nat" where
  "rq_total q = sum_list (map (unat \<circ> le_L) (rq_elems q))"

definition rq_inv :: "receiveWindowQueue \<Rightarrow> bool" where
  "rq_inv q \<longleftrightarrow> chain_inv (rq_chain q) \<and> unat (rq_Len q) = rq_total q"

lemma rq_inv_new: "rq_inv newReceiveWindowQueue" "rq_elems newReceiveWindowQueue = []"
  by (simp_all add: rq_inv_def rq_Len_def rq_total_def rq_elems_def newReceiveWindowQueue_def
      chain.inv_empty chain.contents_empty dq_unpack_def)

lemma rq_Push_ok:
  assumes "rq_inv q" "rq_total q + unat (le_L e) < 4294967296" "rq_Push e q = (w, q')"
  shows "rq_inv q'" "rq_elems q' = rq_elems q @ [e]" "rq_stopped q' = rq_stopped q"
proof -
  obtain len wait where u: "dq_unpack (rq_lengthWait q) = (len, wait)" by fastforce
  have q': "q' = q\<lparr>rq_lengthWait := dq_pack (len + ucast (le_L e)) 0,
      rq_chain := chain_pushHead e (rq_chain q)\<rparr>"
    using assms(3) by (simp add: rq_Push_def u Let_def)
  have "unat len = rq_total q"
    using assms(1) by (simp add: rq_inv_def rq_Len_def u)
  then have "unat (len + ucast (le_L e)) = rq_total q + unat (le_L e)"
    using assms(2) by (simp add: unat_word_ariths)
  moreover show el: "rq_elems q' = rq_elems q @ [e]"
    using assms(1) by (simp add: q' rq_elems_def rq_inv_def chain.contents_push)
  ultimately show "rq_inv q'"
    using assms(1)
    by (simp add: rq_inv_def rq_total_def rq_Len_def q' dq_unpack_pack chain.inv_push)
  show "rq_stopped q' = rq_stopped q"
    by (simp add: q')
qed

lemma dq_unpack_sub:
  assumes "dq_unpack p = (h, t)" "unat l \<le> unat h"
  shows "dq_unpack (p + NOT (push_bit 32 (ucast (l :: uint16)) - 1)) = (h - ucast l, t)"
proof -
  have p: "unat p = unat h * 4294967296 + unat t"
    using assms(1) dq_unpack_unat [of p] by simp
  have l: "unat (push_bit 32 (ucast l :: uint64)) = unat l * 4294967296"
  proof -
    have "push_bit 32 (ucast l :: uint64) = ucast l * 4294967296"
      by (simp add: push_bit_eq_mult)
    with unat_lt16 [of l] show ?thesis by (simp add: unat_word_ariths)
  qed
  have "p + NOT (push_bit 32 (ucast l) - 1) = p - push_bit 32 (ucast l)"
    by (simp add: not_eq_complement)
  moreover have "unat (p - push_bit 32 (ucast l :: uint64)) = (unat h - unat l) * 4294967296 + unat t"
    using assms(2) l p by (simp add: unat_sub_if' diff_mult_distrib)
  moreover have "unat (h - ucast l) = unat h - unat l"
    using assms(2) by (simp add: unat_sub_if')
  ultimately show ?thesis
    by (simp add: dq_unpack_eqI)
qed

lemma rq_TryPop_cons:
  assumes "rq_inv q" "rq_elems q = e # es"
  shows "\<exists>q'. rq_TryPop q = Some (Some e, q') \<and> rq_inv q' \<and> rq_elems q' = es \<and>
    rq_stopped q' = rq_stopped q"
proof -
  obtain len wait where u: "dq_unpack (rq_lengthWait q) = (len, wait)" by fastforce
  have len: "unat len = rq_total q" "unat (le_L e) \<le> unat len"
    using assms by (simp_all add: rq_inv_def rq_Len_def u rq_total_def)
  obtain c where c: "chain_popTail (rq_chain q) = Some (Some e, c)" "chain_inv c" "chain_list c = es"
    using assms chain.pop_cons [of "rq_chain q" e es] by (auto simp: rq_inv_def rq_elems_def)
  define q' where "q' = q\<lparr>rq_chain := c,
      rq_lengthWait := rq_lengthWait q + NOT (push_bit 32 (ucast (le_L e)) - 1)\<rparr>"
  have "unat (len - ucast (le_L e)) = unat len - unat (le_L e)"
    using len(2) by (simp add: unat_sub_if')
  then have "rq_inv q'"
    using c len assms dq_unpack_sub [OF u len(2)]
    by (simp add: rq_inv_def q'_def rq_Len_def rq_total_def rq_elems_def)
  with c show ?thesis
    by (simp add: rq_TryPop_def q'_def rq_elems_def)
qed

lemma rq_TryPop_nil:
  assumes "rq_inv q" "rq_elems q = []"
  shows "\<exists>q'. rq_TryPop q = Some (None, q') \<and> rq_inv q' \<and> rq_elems q' = [] \<and>
    rq_stopped q' = rq_stopped q"
  using assms chain.pop_nil [of "rq_chain q"]
  by (auto simp: rq_TryPop_def rq_inv_def rq_elems_def rq_total_def rq_Len_def)

lemma rq_Pop_cons:
  assumes "rq_inv q" "rq_elems q = e # es" "0 < rq_total q"
  shows "\<exists>q'. rq_Pop q = RqElem e q' \<and> rq_inv q' \<and> rq_elems q' = es \<and> rq_stopped q' = rq_stopped q"
proof -
  obtain len wait where u: "dq_unpack (rq_lengthWait q) = (len, wait)" by fastforce
  have "len \<noteq> 0"
    using assms(1,3) by (auto simp: rq_inv_def rq_Len_def u)
  with rq_TryPop_cons [OF assms(1,2)] show ?thesis
    by (auto simp: rq_Pop_def u)
qed

lemma rq_Pop_nil:
  assumes "rq_inv q" "rq_elems q = []"
  shows "\<exists>q'. rq_Pop q = RqWait q' \<and> rq_inv q' \<and> rq_elems q' = [] \<and> rq_stopped q' = rq_stopped q"
proof -
  obtain len wait where u: "dq_unpack (rq_lengthWait q) = (len, wait)" by fastforce
  have "len = 0"
    using assms by (simp add: rq_inv_def rq_Len_def u rq_total_def unat_eq_0)
  with assms show ?thesis
    by (simp add: rq_Pop_def u rq_inv_def rq_Len_def rq_total_def rq_elems_def dq_unpack_pack)
qed

end
