(* ===== verification/Mux_Recv.thy ===== *)
theory Mux_Recv
  imports Mux_Window Mux_RecvQueue
begin

text \<open>
  The receive window of a stream: \<open>src/lib/mux/conn_receive_window.go\<close>.

  Operations act on the window and on the session budget it shares with the other streams.  An
  operation that calls \<open>sendInfo(muxMsgSendOk, ...)\<close> returns the window word it sends.  The
  bandwidth and latency estimates enter \<open>calcSize\<close> only through \<open>float64\<close> arithmetic; the numbers
  that arithmetic yields are the argument \<open>calc_floats\<close>, and every lemma holds for all of them.
\<close>

record receiveWindow =
  rw_maxSizeDone :: uint64
  rw_off :: uint32
  rw_closed :: bool
  rw_bufQueue :: receiveWindowQueue
  rw_element :: "listElement option"
  rw_buffered :: uint32
  rw_count :: int

text \<open>
  \<open>cf_bw\<close>: when both bandwidths are positive, \<open>uint32(latency * (muxBw + connBw))\<close> and the limit
  \<open>uint32(maximumWindowSize * (connBw / (muxBw + connBw)))\<close>.  \<open>cf_latency\<close>:
  \<open>uint32(float64(maximumSegmentSize*3000) * latency)\<close>.  \<open>cf_fill n rem size\<close>: with
  \<open>ra = rem / size\<close>, the value \<open>uint32(float64(n) * 1.5625 * ra * ra)\<close> if \<open>ra > 0.8\<close>.
\<close>

record calc_floats =
  cf_bw :: "(uint32 \<times> uint32) option"
  cf_latency :: uint32
  cf_fill :: "uint32 \<Rightarrow> uint32 \<Rightarrow> uint32 \<Rightarrow> uint32 option"

definition rw_New :: receiveWindow where
  "rw_New = \<lparr>
     rw_maxSizeDone = win_pack (word_of_int defaultInitialConnWindow) 0 False,
     rw_off = 0, rw_closed = False, rw_bufQueue = newReceiveWindowQueue,
     rw_element = Some le_Reset, rw_buffered = 0, rw_count = 0\<rparr>"

definition reserveBytes ::
  "uint16 \<Rightarrow> receiveWindow \<times> mux_budget \<Rightarrow> receiveWindow \<times> mux_budget" where
  "reserveBytes l s =
     (if l = 0 then s
      else ((fst s)\<lparr>rw_buffered := rw_buffered (fst s) + ucast l\<rparr>,
            addSessionReceive (ucast l) (snd s)))"

definition releaseBytes ::
  "uint16 \<Rightarrow> receiveWindow \<times> mux_budget \<Rightarrow> receiveWindow \<times> mux_budget" where
  "releaseBytes l s =
     (if l = 0 then s
      else ((fst s)\<lparr>rw_buffered := rw_buffered (fst s) + NOT (ucast l - 1)\<rparr>,
            releaseSessionReceive (ucast l) (snd s)))"

definition effectiveMaxSize :: "mux_budget \<Rightarrow> receiveWindow \<Rightarrow> uint32 \<Rightarrow> uint32" where
  "effectiveMaxSize mux rw maxSize =
     (let maxSize = (if maxSize < word_of_int defaultInitialConnWindow
                     then word_of_int defaultInitialConnWindow else maxSize);
          limit = maxConnReceiveWindow mux;
          maxSize = (if limit < maxSize then limit else maxSize);
          sessionLimit = sessionReceiveWindowForConn mux (rw_buffered rw)
      in if sessionLimit < maxSize then sessionLimit else maxSize)"

definition rw_remainingSize :: "mux_budget \<Rightarrow> receiveWindow \<Rightarrow> uint32 \<Rightarrow> uint16 \<Rightarrow> uint32" where
  "rw_remainingSize mux rw maxSize delta =
     (let maxSize = effectiveMaxSize mux rw maxSize;
          used = (ucast (rw_buffered rw) + ucast delta :: uint64)
      in if used < ucast maxSize then ucast (ucast maxSize - used :: uint64) else 0)"

text \<open>The new maximum size one pass of \<open>calcSize\<close> computes from the current window word.\<close>

definition calc_target :: "calc_floats \<Rightarrow> mux_budget \<Rightarrow> receiveWindow \<Rightarrow> uint32" where
  "calc_target fl mux rw =
     (let n = (case cf_bw fl of None \<Rightarrow> 0 | Some (est, _) \<Rightarrow> est);
          n = (if n < word_of_int defaultInitialConnWindow
               then word_of_int defaultInitialConnWindow else n);
          n = (if n < cf_latency fl then cf_latency fl else n);
          (size, read, wait) = win_unpack (rw_maxSizeDone rw);
          size = effectiveMaxSize mux rw size;
          rem = rw_remainingSize mux rw size 0;
          n = (case cf_fill fl n rem size of None \<Rightarrow> n | Some g \<Rightarrow> g);
          minN = ucast ((ucast size * 7 :: uint64) div 8);
          minN = (if wait \<and> rem = 0 then size div 2 else minN);
          n = (if n < minN then minN else n);
          n = (if 2 * size < n then
                 (if size = word_of_int defaultInitialConnWindow
                  then (if size * 6 < n then size * 6 else n) else 2 * size)
               else n);
          n = (case cf_bw fl of None \<Rightarrow> n | Some (_, limit) \<Rightarrow> if limit < n then limit else n);
          n = (if maxConnReceiveWindow mux < n then maxConnReceiveWindow mux else n)
      in effectiveMaxSize mux rw n)"

definition calcSize :: "calc_floats \<Rightarrow> mux_budget \<Rightarrow> receiveWindow \<Rightarrow> receiveWindow" where
  "calcSize fl mux rw =
     (let rw1 = (if rw_count rw = 0 then
            (let (size, read, wait) = win_unpack (rw_maxSizeDone rw)
             in rw\<lparr>rw_maxSizeDone := win_pack (calc_target fl mux rw) read wait, rw_count := -10\<rparr>)
          else rw)
      in rw1\<lparr>rw_count := rw_count rw1 + 1\<rparr>)"

datatype rw_error = WriteOnClosedWindow | ElementError element_error

definition rw_Write ::
  "calc_floats \<Rightarrow> bytes \<Rightarrow> uint16 \<Rightarrow> bool \<Rightarrow> receiveWindow \<times> mux_budget \<Rightarrow>
   rw_error + (uint64 option \<times> receiveWindow \<times> mux_budget)" where
  "rw_Write fl buf l part s =
     (let (rw, mux) = s
      in if rw_closed rw then Inl WriteOnClosedWindow
         else case newListElement buf l part of
           Inl e \<Rightarrow> Inl (ElementError e)
         | Inr element \<Rightarrow>
             (let rw = calcSize fl mux rw;
                  (rawMaxSize, read, wait) = win_unpack (rw_maxSizeDone rw);
                  maxSize = effectiveMaxSize mux rw rawMaxSize;
                  remain = rw_remainingSize mux rw maxSize l;
                  wait = (if remain = 0 \<and> \<not> wait then True else wait);
                  sendUpdate = (maxSize \<noteq> rawMaxSize \<or>
                    \<not> wait \<and> 0 < read \<and>
                    (maxSize div 2 \<le> read \<or> word_of_int (maximumSegmentSize * 4) \<le> read));
                  nextRead = (if sendUpdate then 0 else read);
                  sendRead = (if sendUpdate then read else 0);
                  rw = rw\<lparr>rw_maxSizeDone := win_pack maxSize nextRead wait\<rparr>;
                  (rw, mux) = reserveBytes l (rw, mux);
                  rw = rw\<lparr>rw_bufQueue := snd (rq_Push element (rw_bufQueue rw))\<rparr>
              in Inr (if sendUpdate then Some (win_pack maxSize sendRead False) else None, rw, mux)))"

definition sendStatus ::
  "calc_floats \<Rightarrow> uint16 \<Rightarrow> mux_budget \<Rightarrow> receiveWindow \<Rightarrow> uint64 option \<times> receiveWindow" where
  "sendStatus fl l mux rw0 =
     (let rw = calcSize fl mux rw0;
          (rawMaxSize, read, wait) = win_unpack (rw_maxSizeDone rw);
          maxSize = effectiveMaxSize mux rw rawMaxSize;
          overflow = ((read + ucast l) AND word_of_int mask31 < read);
          nextRead = (if overflow then ucast l else read + ucast l);
          remain = rw_remainingSize mux rw maxSize 0;
          sendUpdate = (maxSize \<noteq> rawMaxSize \<or> overflow \<or>
            (wait \<and> 0 < remain \<or> maxSize div 2 \<le> nextRead \<or>
             word_of_int (maximumSegmentSize * 4) \<le> nextRead \<or> remain = maxSize))
      in if sendUpdate
         then (Some (win_pack maxSize nextRead False), rw\<lparr>rw_maxSizeDone := win_pack maxSize 0 False\<rparr>)
         else (None, rw\<lparr>rw_maxSizeDone := win_pack maxSize nextRead wait\<rparr>))"


subsection \<open>Reading\<close>

text \<open>
  One pass from the label \<open>copyData\<close> copies from the current element into the rest of the caller's
  buffer, which has \<open>room\<close> bytes left; when the element is used up its bytes are released and the
  peer may be told.  The results: data, end of file (with the bytes \<open>n\<close> counts), a read that waits in
  \<open>Pop\<close> holding the bytes copied so far, and a nil dereference.
\<close>

datatype read_out = RData bytes | REOF bytes | RBlock bytes | RTimeout bytes | RNil | RSpin

definition read_copy ::
  "calc_floats \<Rightarrow> nat \<Rightarrow> listElement \<Rightarrow> receiveWindow \<times> mux_budget \<Rightarrow>
   bytes \<times> uint64 option \<times> receiveWindow \<times> mux_budget" where
  "read_copy fl room e s =
     (let (rw, mux) = s;
          l = take room (drop (unat (rw_off rw)) (take (unat (le_L e)) (le_Buf e)));
          rw = rw\<lparr>rw_off := rw_off rw + word_of_nat (length l)\<rparr>
      in if rw_off rw = ucast (le_L e) then
           (let (rw, mux) = releaseBytes (le_L e) (rw, mux);
                (up, rw) = sendStatus fl (le_L e) mux rw
            in (l, up, rw, mux))
         else (l, None, rw, mux))"

text \<open>The label \<open>copyData\<close> up to the copy: the element to copy from, or the end of the call.\<close>

definition read_pop :: "bytes \<Rightarrow> receiveWindow \<Rightarrow> read_out \<times> receiveWindow + listElement \<times> receiveWindow" where
  "read_pop acc rw =
     (case rq_Pop (rw_bufQueue rw) of
        RqElem e q \<Rightarrow> Inr (e, rw\<lparr>rw_element := Some e, rw_bufQueue := q, rw_off := 0\<rparr>)
      | RqWait q \<Rightarrow> Inl (RBlock acc, rw\<lparr>rw_bufQueue := q\<rparr>)
      | RqSpin \<Rightarrow> Inl (RSpin, rw))"

definition read_enter :: "bytes \<Rightarrow> receiveWindow \<Rightarrow> read_out \<times> receiveWindow + listElement \<times> receiveWindow" where
  "read_enter acc rw =
     (case rw_element rw of
        None \<Rightarrow> Inl (RNil, rw)
      | Some e \<Rightarrow>
          (if rw_off rw = ucast (le_L e) then
             (if rw_closed rw then Inl (REOF [], rw) else read_pop acc rw)
           else Inr (e, rw)))"

text \<open>The loop around \<open>copyData\<close>; \<open>ups\<close> collects the window words sent on the way.\<close>

fun read_loop ::
  "nat \<Rightarrow> (nat \<Rightarrow> calc_floats) \<Rightarrow> nat \<Rightarrow> bytes \<Rightarrow> uint64 list \<Rightarrow>
   read_out \<times> receiveWindow + listElement \<times> receiveWindow \<Rightarrow> mux_budget \<Rightarrow>
   read_out \<times> uint64 list \<times> receiveWindow \<times> mux_budget" where
  "read_loop k fl room acc ups (Inl (out, rw)) mux = (out, ups, rw, mux)"
| "read_loop 0 fl room acc ups (Inr (e, rw)) mux = (RSpin, ups, rw, mux)"
| "read_loop (Suc k) fl room acc ups (Inr (e, rw)) mux =
     (let (l, up, rw, mux) = read_copy (fl k) room e (rw, mux);
          ups = ups @ (case up of None \<Rightarrow> [] | Some u \<Rightarrow> [u])
      in if length l < room \<and> le_Part e
         then read_loop k fl (room - length l) (acc @ l) ups (read_enter (acc @ l) rw) mux
         else (RData (acc @ l), ups, rw, mux))"

definition readFromQueue ::
  "nat \<Rightarrow> (nat \<Rightarrow> calc_floats) \<Rightarrow> nat \<Rightarrow> receiveWindow \<times> mux_budget \<Rightarrow>
   read_out \<times> uint64 list \<times> receiveWindow \<times> mux_budget" where
  "readFromQueue k fl lenp s = read_loop k fl lenp [] [] (read_enter [] (fst s)) (snd s)"

definition rw_Read ::
  "nat \<Rightarrow> (nat \<Rightarrow> calc_floats) \<Rightarrow> nat \<Rightarrow> receiveWindow \<times> mux_budget \<Rightarrow>
   read_out \<times> uint64 list \<times> receiveWindow \<times> mux_budget" where
  "rw_Read k fl lenp s =
     (if rw_closed (fst s) then (REOF [], [], s) else readFromQueue k fl lenp s)"

text \<open>\<open>release\<close> drains the queue and drops the current element.\<close>

fun release_queue ::
  "nat \<Rightarrow> receiveWindow \<times> mux_budget \<Rightarrow> (receiveWindow \<times> mux_budget) option" where
  "release_queue 0 s = None"
| "release_queue (Suc k) s =
     (case rq_TryPop (rw_bufQueue (fst s)) of
        None \<Rightarrow> None
      | Some (None, q) \<Rightarrow> Some ((fst s)\<lparr>rw_bufQueue := q\<rparr>, snd s)
      | Some (Some ele, q) \<Rightarrow> release_queue k (releaseBytes (le_L ele) ((fst s)\<lparr>rw_bufQueue := q\<rparr>, snd s)))"

definition rw_release ::
  "nat \<Rightarrow> receiveWindow \<times> mux_budget \<Rightarrow> (receiveWindow \<times> mux_budget) option" where
  "rw_release k s =
     (case release_queue k s of
        None \<Rightarrow> None
      | Some (rw, mux) \<Rightarrow>
          (case rw_element rw of
             None \<Rightarrow> Some (rw, mux)
           | Some e \<Rightarrow>
               (let (rw, mux) = (if rw_off rw < ucast (le_L e) then releaseBytes (le_L e) (rw, mux)
                                 else (rw, mux))
                in Some (rw\<lparr>rw_element := None\<rparr>, mux))))"

definition rw_Stop :: "receiveWindow \<Rightarrow> receiveWindow" where
  "rw_Stop rw = rw\<lparr>rw_bufQueue := rq_Stop (rw_bufQueue rw)\<rparr>"

definition rw_CloseWindow ::
  "nat \<Rightarrow> receiveWindow \<times> mux_budget \<Rightarrow> (receiveWindow \<times> mux_budget) option" where
  "rw_CloseWindow k s = rw_release k (rw_Stop ((fst s)\<lparr>rw_closed := True\<rparr>), snd s)"

text \<open>
  A read that waits in \<open>Pop\<close> continues with the case \<open>waitPush\<close> selects: it pops again, it waits
  on, or it closes the window and returns the bytes it has.
\<close>

definition read_wakeup ::
  "nat \<Rightarrow> (nat \<Rightarrow> calc_floats) \<Rightarrow> nat \<Rightarrow> bytes \<Rightarrow> push_out \<Rightarrow> receiveWindow \<times> mux_budget \<Rightarrow>
   (read_out \<times> uint64 list \<times> receiveWindow \<times> mux_budget) option" where
  "read_wakeup k fl room acc c s =
     (let closing = (\<lambda>out. map_option (\<lambda>s. (out, [], s))
            (rw_CloseWindow k ((fst s)\<lparr>rw_element := None, rw_off := 0\<rparr>, snd s)))
      in case c of
           PushEOF \<Rightarrow> closing (REOF acc)
         | PushTimeout \<Rightarrow> closing (RTimeout acc)
         | PushAgain \<Rightarrow> Some (RBlock acc, [], s)
         | PushResume \<Rightarrow> Some (read_loop k fl room acc [] (read_pop acc (fst s)) (snd s)))"

subsection \<open>The effective window\<close>

abbreviation "rmax rw \<equiv> win_max (rw_maxSizeDone rw)"
abbreviation "rdone rw \<equiv> win_done (rw_maxSizeDone rw)"
abbreviation "rwait rw \<equiv> win_wait (rw_maxSizeDone rw)"

lemma unat_effectiveMaxSize:
  "unat (effectiveMaxSize mux rw m) =
     min (min (max (unat m) 122550) (unat (maxConnReceiveWindow mux)))
       (unat (sessionReceiveWindowForConn mux (rw_buffered rw)))"
  by (simp add: effectiveMaxSize_def Let_def mux_consts word_less_nat_alt)

lemma effectiveMaxSize_le:
  "unat (effectiveMaxSize mux rw m) \<le> unat (maxConnReceiveWindow mux)"
  "budget_ok mux \<Longrightarrow> unat (effectiveMaxSize mux rw m) \<le> 2147483647"
  by (auto simp: unat_effectiveMaxSize budget_ok_def)

lemma effectiveMaxSize_pos:
  assumes "budget_ok mux"
  shows "0 < unat (effectiveMaxSize mux rw m)"
    and "rw_buffered rw = 0 \<Longrightarrow> 122550 \<le> unat (effectiveMaxSize mux rw m)"
proof -
  have "(if rw_buffered rw = 0 then 122550 else min (unat (rw_buffered rw)) 2147483647)
      \<le> unat (sessionReceiveWindowForConn mux (rw_buffered rw))"
    using assms by (intro session_window_lower) (simp add: budget_ok_def)
  then have "0 < unat (sessionReceiveWindowForConn mux (rw_buffered rw))"
    and "rw_buffered rw = 0 \<Longrightarrow> 122550 \<le> unat (sessionReceiveWindowForConn mux (rw_buffered rw))"
    by (auto simp: min_def unat_eq_0 split: if_splits)
  with assms show "0 < unat (effectiveMaxSize mux rw m)"
    and "rw_buffered rw = 0 \<Longrightarrow> 122550 \<le> unat (effectiveMaxSize mux rw m)"
    by (auto simp: unat_effectiveMaxSize budget_ok_def)
qed

lemma effectiveMaxSize_idem [simp]:
  "effectiveMaxSize mux rw (effectiveMaxSize mux rw m) = effectiveMaxSize mux rw m"
  by (simp only: word_unat_eq_iff unat_effectiveMaxSize)

lemma unat_rw_remainingSize:
  assumes "budget_ok mux"
  shows "unat (rw_remainingSize mux rw m l) =
    unat (effectiveMaxSize mux rw m) - (unat (rw_buffered rw) + unat l)"
proof -
  define b where "b = unat (rw_buffered rw)"
  define e where "e = effectiveMaxSize mux rw m"
  define used :: uint64 where "used = ucast (rw_buffered rw) + ucast l"
  have "b + unat l < 18446744073709551616"
    using unat_lt32 [of "rw_buffered rw"] unat_lt16 [of l] b_def by linarith
  then have used: "unat used = b + unat l"
    by (simp add: used_def unat_word_ariths b_def)
  have "unat (ucast (ucast e - used :: uint64) :: uint32) = unat e - unat used" if "used < ucast e"
  proof -
    have sub: "unat (ucast e - used :: uint64) = unat e - unat used"
      using that by (simp add: unat_sub_if' word_less_nat_alt)
    then have "unat (ucast e - used :: uint64) \<le> 4294967295"
      using effectiveMaxSize_le(2) [OF assms, of rw m] by (simp add: e_def)
    from unat_ucast_down_min [OF this] sub show ?thesis by simp
  qed
  then show ?thesis
    using used
    by (simp add: rw_remainingSize_def Let_def word_less_nat_alt b_def
        flip: e_def used_def)
qed

text \<open>Two windows that differ at most in the window word and in the countdown of \<open>calcSize\<close>.\<close>

definition rw_same :: "receiveWindow \<Rightarrow> receiveWindow \<Rightarrow> bool" where
  "rw_same rw rw' \<longleftrightarrow> rw_off rw' = rw_off rw \<and> rw_closed rw' = rw_closed rw \<and>
     rw_bufQueue rw' = rw_bufQueue rw \<and> rw_element rw' = rw_element rw \<and>
     rw_buffered rw' = rw_buffered rw"

lemma calcSize_spec:
  assumes "budget_ok mux" "0 < rmax rw" "rmax rw \<le> unat (maxConnReceiveWindow mux)"
  obtains rw' where "calcSize fl mux rw = rw'"
    "rw_same rw rw'"
    "0 < rmax rw'" "rmax rw' \<le> unat (maxConnReceiveWindow mux)"
    "rdone rw' = rdone rw" "rwait rw' = rwait rw"
proof (cases "rw_count rw = 0")
  case True
  obtain m d w where u: "win_unpack (rw_maxSizeDone rw) = (m, d, w)"
    using prod_cases3 by blast
  define t where "t = calc_target fl mux rw"
  have t: "0 < unat t" "unat t \<le> unat (maxConnReceiveWindow mux)" "unat t \<le> 2147483647"
    using effectiveMaxSize_pos(1) [OF assms(1)] effectiveMaxSize_le(1) effectiveMaxSize_le(2) [OF assms(1)]
    by (simp_all add: t_def calc_target_def Let_def u)
  show ?thesis
    by (rule that [OF refl]) (use True t u win_unpack_bounds [OF u] in
        \<open>simp_all add: calcSize_def Let_def win_pack_parts win_done_def win_wait_def rw_same_def flip: t_def\<close>)
next
  case False
  show ?thesis
    by (rule that [OF refl]) (use False assms in \<open>simp_all add: calcSize_def Let_def rw_same_def\<close>)
qed

text \<open>The bytes a window update acknowledges, and the updates the receiver may send.\<close>

definition up_read :: "uint64 option \<Rightarrow> nat" where
  "up_read up = (case up of None \<Rightarrow> 0 | Some u \<Rightarrow> win_done u)"

definition win_ok :: "mux_budget \<Rightarrow> uint64 \<Rightarrow> bool" where
  "win_ok mux u \<longleftrightarrow> 0 < win_max u \<and> win_max u \<le> unat (maxConnReceiveWindow mux)"

lemma up_read_simps [simp]: "up_read None = 0" "up_read (Some u) = win_done u"
  by (simp_all add: up_read_def)

lemma sendStatus_spec:
  assumes "budget_ok mux" "win_ok mux (rw_maxSizeDone rw)" "rdone rw + unat l \<le> 2147483647"
  obtains up rw' where "sendStatus fl l mux rw = (up, rw')" "rw_same rw rw'"
    "rdone rw' + up_read up = rdone rw + unat l"
    "win_ok mux (rw_maxSizeDone rw')" "\<forall>u \<in> set_option up. win_ok mux u"
    "rw_buffered rw = 0 \<Longrightarrow> rdone rw' = 0"
proof -
  obtain rw1 where c: "calcSize fl mux rw = rw1" "rw_same rw rw1" "rdone rw1 = rdone rw"
    using assms(1,2) calcSize_spec by (metis win_ok_def)
  obtain m d w where u: "win_unpack (rw_maxSizeDone rw1) = (m, d, w)"
    using prod_cases3 by blast
  define e where "e = effectiveMaxSize mux rw1 m"
  have e: "unat e \<le> 2147483647" "0 < unat e" "unat e \<le> unat (maxConnReceiveWindow mux)"
    using assms(1) by (simp_all only: e_def effectiveMaxSize_le effectiveMaxSize_pos)
  have d: "unat d = rdone rw" "unat (d + ucast l) = rdone rw + unat l"
    using c(3) u assms(3) by (simp_all add: win_done_def unat_word_ariths)
  then have nov: "\<not> (d + ucast l) AND word_of_int mask31 < d"
    using assms(3) by (simp add: and_mask31 take_bit31_id word_less_nat_alt)
  define upd where "upd = (e \<noteq> m \<or> w \<and> 0 < rw_remainingSize mux rw1 e 0 \<or> e div 2 \<le> d + ucast l \<or>
      word_of_int (maximumSegmentSize * 4) \<le> d + ucast l \<or> rw_remainingSize mux rw1 e 0 = e)"
  have st: "sendStatus fl l mux rw =
      (if upd then (Some (win_pack e (d + ucast l) False), rw1\<lparr>rw_maxSizeDone := win_pack e 0 False\<rparr>)
       else (None, rw1\<lparr>rw_maxSizeDone := win_pack e (d + ucast l) w\<rparr>))"
    using nov by (simp add: sendStatus_def c(1) Let_def u upd_def flip: e_def)
  have "upd" if "rw_buffered rw = 0"
  proof -
    have "unat (rw_remainingSize mux rw1 e 0) = unat e"
      using that c(2) assms(1) by (simp add: unat_rw_remainingSize rw_same_def e_def)
    then show ?thesis by (simp add: upd_def word_unat_eq_iff)
  qed
  note upd0 = this
  show ?thesis
  proof (cases upd)
    case True
    then show ?thesis
      using c e d assms(3) by (intro that [OF st [unfolded if_P [OF True]]])
        (simp_all add: win_pack_parts win_ok_def rw_same_def)
  next
    case False
    then show ?thesis
      using c e d assms(3) upd0 by (intro that [OF st [unfolded if_not_P [OF False]]])
        (auto simp: win_pack_parts win_ok_def rw_same_def)
  qed
qed

subsection \<open>The invariant of an open window\<close>

definition le_data :: "listElement \<Rightarrow> bytes" where
  "le_data e = take (unat (le_L e)) (le_Buf e)"

definition le_ok :: "listElement \<Rightarrow> bool" where
  "le_ok e \<longleftrightarrow> unat (le_L e) \<le> length (le_Buf e)"

text \<open>The bytes of the current element that are still counted as buffered.\<close>

definition cur_bytes :: "receiveWindow \<Rightarrow> nat" where
  "cur_bytes rw =
     (case rw_element rw of None \<Rightarrow> 0
      | Some e \<Rightarrow> if unat (rw_off rw) < unat (le_L e) then unat (le_L e) else 0)"

text \<open>The bytes that arrived and were not read yet, in order.\<close>

definition rw_pending :: "receiveWindow \<Rightarrow> bytes" where
  "rw_pending rw =
     (case rw_element rw of None \<Rightarrow> [] | Some e \<Rightarrow> drop (unat (rw_off rw)) (le_data e)) @
     concat (map le_data (rq_elems (rw_bufQueue rw)))"

definition rw_inv :: "mux_budget \<Rightarrow> receiveWindow \<Rightarrow> bool" where
  "rw_inv mux rw \<longleftrightarrow>
     \<not> rw_closed rw \<and> rq_inv (rw_bufQueue rw) \<and>
     (\<forall>e \<in> set (rq_elems (rw_bufQueue rw)). le_ok e \<and> le_L e \<noteq> 0) \<and>
     (\<exists>e. rw_element rw = Some e \<and> le_ok e \<and> unat (rw_off rw) \<le> unat (le_L e)) \<and>
     unat (rw_buffered rw) = rq_total (rw_bufQueue rw) + cur_bytes rw \<and>
     rdone rw + unat (rw_buffered rw) \<le> 2147483647 \<and>
     win_ok mux (rw_maxSizeDone rw) \<and> (rw_buffered rw = 0 \<longrightarrow> rdone rw = 0)"

lemma rw_inv_New: "budget_ok mux \<Longrightarrow> rw_inv mux rw_New"
  by (simp add: rw_inv_def rw_New_def rq_inv_new rq_total_def le_Reset_def le_ok_def cur_bytes_def
      win_ok_def win_pack_parts mux_consts budget_ok_def)

lemma budget_frame [simp]:
  "maxConnReceiveWindow (addSessionReceive n mux) = maxConnReceiveWindow mux"
  "maxConnReceiveWindow (releaseSessionReceive n mux) = maxConnReceiveWindow mux"
  "budget_ok (addSessionReceive n mux) = budget_ok mux"
  "budget_ok (releaseSessionReceive n mux) = budget_ok mux"
  "win_ok (addSessionReceive n mux) u = win_ok mux u"
  "win_ok (releaseSessionReceive n mux) u = win_ok mux u"
  by (simp_all add: addSessionReceive_def releaseSessionReceive_def maxConnReceiveWindow_def
      budget_ok_def win_ok_def)

lemma rw_inv_budget [simp]:
  "rw_inv (addSessionReceive n mux) rw = rw_inv mux rw"
  "rw_inv (releaseSessionReceive n mux) rw = rw_inv mux rw"
  by (simp_all add: rw_inv_def)

lemma newListElement_full:
  assumes "unat l = length buf"
  shows "newListElement buf l part = Inr \<lparr>le_Buf = buf, le_L = l, le_Part = part\<rparr>"
  by (simp add: newListElement_def flip: assms)

text \<open>Queueing one more element, with a window word that acknowledges no more than before.\<close>

lemma rw_inv_push:
  assumes inv: "rw_inv mux rw" "rw_same rw rw1"
    and ele: "le_ok ele" "le_L ele \<noteq> 0" "rq_Push ele (rw_bufQueue rw) = (wk, q)"
    and word: "win_ok mux ptrs" "win_done ptrs \<le> rdone rw"
    and room: "rdone rw + unat (rw_buffered rw) + unat (le_L ele) \<le> 2147483647"
    and rw': "rw' = rw1\<lparr>rw_maxSizeDone := ptrs, rw_buffered := rw_buffered rw + ucast (le_L ele),
      rw_bufQueue := q\<rparr>"
  shows "rw_inv mux rw'" "rw_pending rw' = rw_pending rw @ le_data ele"
    "unat (rw_buffered rw') = unat (rw_buffered rw) + unat (le_L ele)"
proof -
  have tot: "rq_total (rw_bufQueue rw) + unat (le_L ele) < 4294967296"
    using inv(1) room by (simp add: rw_inv_def)
  have qs: "rq_inv q" "rq_elems q = rq_elems (rw_bufQueue rw) @ [ele]"
    using rq_Push_ok [OF _ tot ele(3)] inv(1) by (simp_all add: rw_inv_def)
  have buf: "unat (rw_buffered rw + ucast (le_L ele)) = unat (rw_buffered rw) + unat (le_L ele)"
    using room by (simp add: unat_word_ariths)
  then have ne: "rw_buffered rw + ucast (le_L ele) \<noteq> 0"
    using ele(2) by (metis add_is_0 unat_0 unat_eq_zero)
  show "rw_inv mux rw'"
    using inv qs ele(1,2) buf ne word room
    by (auto simp: rw_inv_def rw' rw_same_def cur_bytes_def rq_total_def split: option.splits)
  show "rw_pending rw' = rw_pending rw @ le_data ele"
    using inv(2) qs by (simp add: rw_pending_def rw' rw_same_def split: option.split)
  show "unat (rw_buffered rw') = unat (rw_buffered rw) + unat (le_L ele)"
    using buf by (simp add: rw')
qed

lemma rw_Write_spec:
  assumes inv: "budget_ok mux" "rw_inv mux rw"
    and l: "unat l = length buf" "l \<noteq> 0"
    and room: "rdone rw + unat (rw_buffered rw) + unat l \<le> 2147483647"
  obtains up rw' where "rw_Write fl buf l part (rw, mux) = Inr (up, rw', addSessionReceive (ucast l) mux)"
    "rw_inv mux rw'" "rw_pending rw' = rw_pending rw @ buf"
    "unat (rw_buffered rw') = unat (rw_buffered rw) + unat l"
    "rdone rw' + up_read up = rdone rw" "\<forall>u \<in> set_option up. win_ok mux u"
    "rw_element rw' = rw_element rw" "rw_off rw' = rw_off rw"
proof -
  have open_: "\<not> rw_closed rw" and wok: "win_ok mux (rw_maxSizeDone rw)"
    using inv(2) by (simp_all add: rw_inv_def)
  obtain rw1 where c: "calcSize fl mux rw = rw1" "rw_same rw rw1" "rdone rw1 = rdone rw"
    using inv(1) wok calcSize_spec by (metis win_ok_def)
  obtain m d w where u: "win_unpack (rw_maxSizeDone rw1) = (m, d, w)"
    using prod_cases3 by blast
  have d: "unat d = rdone rw" "unat d \<le> 2147483647"
    using c(3) u win_unpack_bounds [OF u] by (simp_all add: win_done_def)
  define e where "e = effectiveMaxSize mux rw1 m"
  have e: "unat e \<le> 2147483647" "0 < unat e" "unat e \<le> unat (maxConnReceiveWindow mux)"
    using inv(1) by (simp_all only: e_def effectiveMaxSize_le effectiveMaxSize_pos)
  define ele where "ele = \<lparr>le_Buf = buf, le_L = l, le_Part = part\<rparr>"
  have ele: "newListElement buf l part = Inr ele" "le_data ele = buf" "le_L ele = l" "le_ok ele"
    using l(1) newListElement_full [OF l(1)] by (simp_all add: ele_def le_data_def le_ok_def)
  obtain wk q where q: "rq_Push ele (rw_bufQueue rw) = (wk, q)" by fastforce
  define nw where "nw = (if rw_remainingSize mux rw1 e l = 0 \<and> \<not> w then True else w)"
  define upd where "upd = (e \<noteq> m \<or> \<not> nw \<and> 0 < d \<and> (e div 2 \<le> d \<or> word_of_int (maximumSegmentSize * 4) \<le> d))"
  define ptrs where "ptrs = win_pack e (if upd then 0 else d) nw"
  define up where "up = (if upd then Some (win_pack e d False) else None)"
  define rw' where "rw' = rw1\<lparr>rw_maxSizeDone := ptrs,
      rw_buffered := rw_buffered rw + ucast (le_L ele), rw_bufQueue := q\<rparr>"
  have W: "rw_Write fl buf l part (rw, mux) = Inr (up, rw', addSessionReceive (ucast l) mux)"
    using open_ ele(1,3) l(2) q c(2)
    by (simp add: rw_Write_def c(1) u Let_def reserveBytes_def rw_same_def rw'_def ptrs_def up_def
        nw_def upd_def flip: e_def)
  have p: "win_ok mux ptrs" "win_done ptrs \<le> rdone rw" "win_done ptrs + up_read up = rdone rw"
    "\<forall>u \<in> set_option up. win_ok mux u"
    using d e by (auto simp: ptrs_def up_def win_pack_parts win_ok_def)
  show ?thesis
    using rw_inv_push [OF inv(2) c(2) ele(4) _ q p(1,2) _ rw'_def] l(2) room ele p(3,4) c(2)
    by (intro that [OF W]) (simp_all add: rw'_def rw_same_def)
qed

subsection \<open>Reads deliver the pending bytes in order\<close>

text \<open>
  The budget of a stream: bytes counted as read but not yet acknowledged, and bytes buffered.
\<close>

definition rw_budget :: "receiveWindow \<Rightarrow> nat" where
  "rw_budget rw = rdone rw + unat (rw_buffered rw)"

definition ups_read :: "uint64 list \<Rightarrow> nat" where
  "ups_read ups = sum_list (map win_done ups)"

definition up_list :: "uint64 option \<Rightarrow> uint64 list" where
  "up_list up = (case up of None \<Rightarrow> [] | Some u \<Rightarrow> [u])"

lemma ups_read_simps [simp]:
  "ups_read [] = 0" "ups_read (u # us) = win_done u + ups_read us"
  "ups_read (us @ vs) = ups_read us + ups_read vs" "ups_read (up_list up) = up_read up"
  "set (up_list up) = set_option up"
  by (auto simp: ups_read_def up_list_def split: option.split)

lemma releaseBytes_eq:
  "releaseBytes l (rw, mux) =
     (rw\<lparr>rw_buffered := rw_buffered rw - ucast l\<rparr>, releaseSessionReceive (ucast l) mux)"
  by (cases "l = 0") (simp_all add: releaseBytes_def releaseSessionReceive_def not_eq_complement)

lemma read_copy_data:
  assumes "read_copy fl room e (rw, mux) = (l, up, rw', mux')"
  shows "l = take room (drop (unat (rw_off rw)) (le_data e))"
  using assms by (auto simp: read_copy_def Let_def le_data_def split: if_splits prod.splits)

text \<open>A copy that leaves bytes in the element: only the offset moves.\<close>

lemma read_copy_part:
  assumes inv: "rw_inv mux rw" "rw_element rw = Some e"
    and room: "unat (rw_off rw) + room < unat (le_L e)"
  obtains l rw' where "read_copy fl room e (rw, mux) = (l, None, rw', mux)" "length l = room"
    "rw_inv mux rw'" "rw_pending rw = l @ rw_pending rw'" "rw_budget rw' = rw_budget rw"
    "rw_buffered rw' = rw_buffered rw"
proof -
  have ok: "unat (le_L e) \<le> length (le_Buf e)"
    using inv by (simp add: rw_inv_def le_ok_def)
  define l where "l = take room (drop (unat (rw_off rw)) (le_data e))"
  have len: "length l = room"
    using ok room by (simp add: l_def le_data_def)
  have lt: "unat (rw_off rw) + room < 4294967296"
    using room unat_lt16 [of "le_L e"] by linarith
  then have off: "unat (rw_off rw + word_of_nat room) = unat (rw_off rw) + room"
    by (simp add: unat_word_ariths unat_of_nat_id)
  define rw' where "rw' = rw\<lparr>rw_off := rw_off rw + word_of_nat room\<rparr>"
  have "rw_off rw + word_of_nat room \<noteq> ucast (le_L e)"
    using off room by (auto simp: word_unat_eq_iff)
  then have C: "read_copy fl room e (rw, mux) = (l, None, rw', mux)"
    using len by (simp add: read_copy_def Let_def rw'_def l_def le_data_def)
  show ?thesis
  proof (rule that [OF C len])
    show "rw_inv mux rw'"
      using inv off room by (simp add: rw_inv_def rw'_def cur_bytes_def)
    show "rw_pending rw = l @ rw_pending rw'"
    proof -
      have "drop (unat (rw_off rw)) (le_data e) = l @ drop (unat (rw_off rw) + room) (le_data e)"
        by (simp add: l_def add.commute flip: drop_drop)
      with off inv(2) show ?thesis by (simp add: rw_pending_def rw'_def)
    qed
  qed (simp_all add: rw'_def rw_budget_def)
qed

text \<open>A copy that uses the element up: its bytes move from \<open>buffered\<close> to the bytes read.\<close>

lemma read_copy_full:
  assumes inv: "budget_ok mux" "rw_inv mux rw" "rw_element rw = Some e"
    and off: "unat (rw_off rw) < unat (le_L e)" "unat (le_L e) \<le> unat (rw_off rw) + room"
  obtains l up rw' where
    "read_copy fl room e (rw, mux) = (l, up, rw', releaseSessionReceive (ucast (le_L e)) mux)"
    "l \<noteq> []" "rw_inv mux rw'" "rw_pending rw = l @ rw_pending rw'" "rw_budget rw' + up_read up = rw_budget rw"
    "rw_element rw' = Some e" "rw_off rw' = ucast (le_L e)" "rw_bufQueue rw' = rw_bufQueue rw"
    "\<forall>u \<in> set_option up. win_ok mux u" "unat (rw_buffered rw) = unat (rw_buffered rw') + unat (le_L e)"
proof -
  have ok: "unat (le_L e) \<le> length (le_Buf e)"
    using inv by (simp add: rw_inv_def le_ok_def)
  define l where "l = take room (drop (unat (rw_off rw)) (le_data e))"
  have len: "length l = unat (le_L e) - unat (rw_off rw)"
    using ok off by (simp add: l_def le_data_def)
  have l: "l = drop (unat (rw_off rw)) (le_data e)" "l \<noteq> []"
    using ok off by (auto simp: l_def le_data_def)
  have "rw_off rw + word_of_nat (length l) = (ucast (le_L e) :: uint32)"
    using off unat_lt16 [of "le_L e"]
    by (simp add: len word_unat_eq_iff unat_word_ariths unat_of_nat_id del: of_nat_diff)
  note noff = this
  define rw1 where "rw1 = rw\<lparr>rw_off := ucast (le_L e), rw_buffered := rw_buffered rw - ucast (le_L e)\<rparr>"
  define mux' where "mux' = releaseSessionReceive (ucast (le_L e)) mux"
  have buf: "unat (rw_buffered rw) = rq_total (rw_bufQueue rw) + unat (le_L e)"
    "unat (rw_buffered rw - ucast (le_L e)) = rq_total (rw_bufQueue rw)"
    using inv(2,3) off(1) by (simp_all add: rw_inv_def cur_bytes_def unat_sub_if')
  have pre: "budget_ok mux'" "win_ok mux' (rw_maxSizeDone rw1)" "rdone rw1 + unat (le_L e) \<le> 2147483647"
    using inv buf by (simp_all add: mux'_def rw1_def rw_inv_def)
  obtain up rw' where st: "sendStatus fl (le_L e) mux' rw1 = (up, rw')" "rw_same rw1 rw'"
    "rdone rw' + up_read up = rdone rw1 + unat (le_L e)" "win_ok mux' (rw_maxSizeDone rw')"
    "\<forall>u \<in> set_option up. win_ok mux' u" "rw_buffered rw1 = 0 \<Longrightarrow> rdone rw' = 0"
    using sendStatus_spec [OF pre] by metis
  have C: "read_copy fl room e (rw, mux) = (l, up, rw', mux')"
    using noff st(1)
    by (simp add: read_copy_def Let_def le_data_def releaseBytes_eq rw1_def mux'_def l_def)
  have same: "rw_element rw' = Some e" "rw_off rw' = ucast (le_L e)" "rw_bufQueue rw' = rw_bufQueue rw"
    "rw_buffered rw' = rw_buffered rw - ucast (le_L e)" "rw_closed rw' = rw_closed rw"
    using st(2) inv(3) by (simp_all add: rw_same_def rw1_def)
  show ?thesis
  proof (rule that [OF C [unfolded mux'_def] l(2) _ _ _ same(1-3)])
    show "rw_inv mux rw'"
      using inv st(3,4,6) same buf by (simp add: rw_inv_def cur_bytes_def rw1_def mux'_def)
    show "rw_pending rw = l @ rw_pending rw'"
      using inv(3) same by (simp add: rw_pending_def l(1) le_data_def)
  qed (use st same buf in \<open>simp_all add: rw_budget_def rw1_def mux'_def\<close>)
qed

text \<open>The part of the session counter that belongs to the other streams.\<close>

definition rw_others :: "mux_budget \<Rightarrow> receiveWindow \<Rightarrow> uint64" where
  "rw_others mux rw = sessionRecvQueued mux - ucast (rw_buffered rw)"

lemma ucast_eq_add:
  fixes a b :: uint32 and l :: uint16
  assumes "unat a = unat b + unat l"
  shows "(ucast a :: uint64) = ucast b + ucast (ucast l :: uint32)"
  using assms unat_lt32 [of a] by (simp add: word_unat_eq_iff unat_word_ariths)

lemma rw_others_release:
  fixes l :: uint16
  assumes "unat (rw_buffered rw) = unat (rw_buffered rw') + unat l"
  shows "rw_others (releaseSessionReceive (ucast l) mux) rw' = rw_others mux rw"
  using ucast_eq_add [OF assms]
  by (cases "l = 0") (simp_all add: rw_others_def releaseSessionReceive_def not_eq_complement)

lemma rw_others_add:
  fixes l :: uint16
  assumes "unat (rw_buffered rw') = unat (rw_buffered rw) + unat l"
  shows "rw_others (addSessionReceive (ucast l) mux) rw' = rw_others mux rw"
  using ucast_eq_add [OF assms]
  by (cases "l = 0") (simp_all add: rw_others_def addSessionReceive_def)

text \<open>
  What a read from window \<open>rw\<close> guarantees: it takes bytes from the front of the pending ones, keeps
  the invariant and the balance of the acknowledged bytes, and only waits when nothing is pending.
\<close>

definition read_post ::
  "receiveWindow \<Rightarrow> mux_budget \<Rightarrow> nat \<Rightarrow> bytes \<Rightarrow> uint64 list \<Rightarrow>
   read_out \<times> uint64 list \<times> receiveWindow \<times> mux_budget \<Rightarrow> bool" where
  "read_post rw mux room acc ups res \<longleftrightarrow>
     (\<exists>out new rw' mux' d. res = (out, ups @ new, rw', mux') \<and>
        (\<forall>u \<in> set new. win_ok mux u) \<and> rw_inv mux rw' \<and>
        sessionRecvLimit mux' = sessionRecvLimit mux \<and> mux_config mux' = mux_config mux \<and>
        rw_others mux' rw' = rw_others mux rw \<and>
        rw_pending rw = d @ rw_pending rw' \<and> rw_budget rw' + ups_read new = rw_budget rw \<and>
        length d \<le> room \<and>
        (out = RData (acc @ d) \<and> (0 < room \<longrightarrow> d \<noteq> []) \<or>
         out = RBlock (acc @ d) \<and> rw_buffered rw' = 0 \<and> (0 < room \<longrightarrow> length d < room)))"

lemma read_pop_spec:
  assumes inv: "rw_inv mux rw" and e: "rw_element rw = Some e" "rw_off rw = ucast (le_L e)"
  shows "(\<exists>rw'. read_pop acc rw = Inl (RBlock acc, rw') \<and> rw_inv mux rw' \<and> rw_pending rw = [] \<and>
            rw_pending rw' = [] \<and> rw_buffered rw = 0 \<and> rw_buffered rw' = 0 \<and> rdone rw' = rdone rw) \<or>
         (\<exists>e' rw'. read_pop acc rw = Inr (e', rw') \<and> rw_inv mux rw' \<and> rw_pending rw' = rw_pending rw \<and>
            rw_element rw' = Some e' \<and> unat (rw_off rw') < unat (le_L e') \<and>
            Suc (length (rq_elems (rw_bufQueue rw'))) = length (rq_elems (rw_bufQueue rw)) \<and>
            rw_buffered rw' = rw_buffered rw \<and> rdone rw' = rdone rw)"
proof (cases "rq_elems (rw_bufQueue rw)")
  case Nil
  then obtain q where "rq_Pop (rw_bufQueue rw) = RqWait q" "rq_inv q" "rq_elems q = []"
    using inv rq_Pop_nil by (metis rw_inv_def)
  with Nil inv e show ?thesis
    by (simp add: read_pop_def rw_inv_def rw_pending_def rq_total_def cur_bytes_def le_data_def
        unat_eq_0)
next
  case (Cons e' es)
  then have L: "0 < unat (le_L e')" "le_ok e'"
    using inv by (simp_all add: rw_inv_def)
  then have "0 < rq_total (rw_bufQueue rw)"
    by (simp add: rq_total_def Cons)
  then obtain q where q: "rq_Pop (rw_bufQueue rw) = RqElem e' q" "rq_inv q" "rq_elems q = es"
    using inv rq_Pop_cons [OF _ Cons] by (auto simp: rw_inv_def)
  with Cons L inv e show ?thesis
    by (simp add: read_pop_def rw_inv_def rw_pending_def rq_total_def cur_bytes_def le_data_def)
qed

lemma rw_inv_same_config:
  "sessionRecvLimit mux' = sessionRecvLimit mux \<Longrightarrow> mux_config mux' = mux_config mux \<Longrightarrow>
   win_ok mux' = win_ok mux \<and> rw_inv mux' = rw_inv mux \<and> budget_ok mux' = budget_ok mux"
  by (simp add: fun_eq_iff win_ok_def rw_inv_def budget_ok_def maxConnReceiveWindow_def)

lemma release_config [simp]:
  "sessionRecvLimit (releaseSessionReceive n mux) = sessionRecvLimit mux"
  "mux_config (releaseSessionReceive n mux) = mux_config mux"
  "sessionRecvLimit (addSessionReceive n mux) = sessionRecvLimit mux"
  "mux_config (addSessionReceive n mux) = mux_config mux"
  by (simp_all add: releaseSessionReceive_def addSessionReceive_def)

lemma read_post_step:
  assumes l: "rw_pending rw = l @ rw_pending rw1" "l \<noteq> []" "length l < room"
    and up: "rw_budget rw1 + up_read up = rw_budget rw" "\<forall>u \<in> set_option up. win_ok mux u"
    and mux: "sessionRecvLimit mux1 = sessionRecvLimit mux" "mux_config mux1 = mux_config mux"
      "rw_others mux1 rw1 = rw_others mux rw"
    and post: "read_post rw1 mux1 (room - length l) (acc @ l) (ups @ up_list up) res"
  shows "read_post rw mux room acc ups res"
proof -
  obtain out new rw' mux' d where res: "res = (out, (ups @ up_list up) @ new, rw', mux')"
    and p: "\<forall>u \<in> set new. win_ok mux1 u" "rw_inv mux1 rw'" "sessionRecvLimit mux' = sessionRecvLimit mux1"
      "mux_config mux' = mux_config mux1" "rw_others mux' rw' = rw_others mux1 rw1"
      "rw_pending rw1 = d @ rw_pending rw'" "rw_budget rw' + ups_read new = rw_budget rw1"
      "length d \<le> room - length l"
      "out = RData ((acc @ l) @ d) \<and> (0 < room - length l \<longrightarrow> d \<noteq> []) \<or>
       out = RBlock ((acc @ l) @ d) \<and> rw_buffered rw' = 0 \<and>
         (0 < room - length l \<longrightarrow> length d < room - length l)"
    using post by (auto simp: read_post_def)
  show ?thesis
    unfolding read_post_def
    by (rule exI [of _ out], rule exI [of _ "up_list up @ new"], rule exI [of _ rw'],
        rule exI [of _ mux'], rule exI [of _ "l @ d"])
      (use res p l up mux rw_inv_same_config [OF mux(1,2)] in auto)
qed

text \<open>Popping the next element and reading on, given that reading from an element is right.\<close>

lemma read_pop_post:
  assumes pre: "rw_inv mux rw" "rw_element rw = Some e" "rw_off rw = ucast (le_L e)"
    and read: "\<And>e' rw'. rw_inv mux rw' \<Longrightarrow> rw_element rw' = Some e' \<Longrightarrow> unat (rw_off rw') < unat (le_L e') \<Longrightarrow>
      length (rq_elems (rw_bufQueue rw')) < length (rq_elems (rw_bufQueue rw)) \<Longrightarrow>
      read_post rw' mux room acc ups (read_loop k fl room acc ups (Inr (e', rw')) mux)"
  shows "read_post rw mux room acc ups (read_loop k fl room acc ups (read_pop acc rw) mux)"
  using read_pop_spec [OF pre, of acc]
proof (elim disjE exE conjE)
  fix rw'
  assume "read_pop acc rw = Inl (RBlock acc, rw')" "rw_inv mux rw'" "rw_pending rw = []"
    "rw_pending rw' = []" "rw_buffered rw = 0" "rw_buffered rw' = 0" "rdone rw' = rdone rw"
  then show ?thesis
    by (auto simp: read_post_def rw_budget_def rw_others_def)
next
  fix e' rw'
  assume p: "read_pop acc rw = Inr (e', rw')" "rw_inv mux rw'" "rw_pending rw' = rw_pending rw"
    "rw_element rw' = Some e'" "unat (rw_off rw') < unat (le_L e')"
    "Suc (length (rq_elems (rw_bufQueue rw'))) = length (rq_elems (rw_bufQueue rw))"
    "rw_buffered rw' = rw_buffered rw" "rdone rw' = rdone rw"
  then have "read_post rw' mux room acc ups (read_loop k fl room acc ups (Inr (e', rw')) mux)"
    by (intro read) simp_all
  with p show ?thesis
    by (simp add: read_post_def rw_budget_def rw_others_def)
qed

lemma read_loop_spec:
  assumes "budget_ok mux" "rw_inv mux rw" "rw_element rw = Some e" "unat (rw_off rw) < unat (le_L e)"
    "length (rq_elems (rw_bufQueue rw)) < k"
  shows "read_post rw mux room acc ups (read_loop k fl room acc ups (Inr (e, rw)) mux)"
  using assms
proof (induction k arbitrary: mux rw e room acc ups)
  case 0
  then show ?case by simp
next
  case (Suc k)
  show ?case
  proof (cases "unat (rw_off rw) + room < unat (le_L e)")
    case True
    obtain l rw' where "read_copy (fl k) room e (rw, mux) = (l, None, rw', mux)" "length l = room"
      "rw_inv mux rw'" "rw_pending rw = l @ rw_pending rw'" "rw_budget rw' = rw_budget rw"
      "rw_buffered rw' = rw_buffered rw"
      using read_copy_part [OF Suc.prems(2,3) True] .
    then show ?thesis
      by (auto simp: read_post_def rw_others_def)
  next
    case False
    define mux1 where "mux1 = releaseSessionReceive (ucast (le_L e)) mux"
    obtain l up rw1 where c: "read_copy (fl k) room e (rw, mux) = (l, up, rw1, mux1)"
      and l: "l \<noteq> []" "rw_inv mux rw1" "rw_pending rw = l @ rw_pending rw1"
        "rw_budget rw1 + up_read up = rw_budget rw" "rw_element rw1 = Some e" "rw_off rw1 = ucast (le_L e)"
        "rw_bufQueue rw1 = rw_bufQueue rw" "\<forall>u \<in> set_option up. win_ok mux u"
        "unat (rw_buffered rw) = unat (rw_buffered rw1) + unat (le_L e)"
      using read_copy_full [OF Suc.prems(1-4)] False by (metis mux1_def not_less)
    have mux1: "sessionRecvLimit mux1 = sessionRecvLimit mux" "mux_config mux1 = mux_config mux"
      "rw_others mux1 rw1 = rw_others mux rw" "rw_inv mux1 = rw_inv mux" "budget_ok mux1"
      using rw_others_release [OF l(9)] Suc.prems(1) by (simp_all add: mux1_def fun_eq_iff)
    have len: "length l \<le> room"
      using read_copy_data [OF c] by simp
    show ?thesis
    proof (cases "length l < room \<and> le_Part e")
      case no: False
      have "read_post rw mux room acc ups (RData (acc @ l), ups @ up_list up, rw1, mux1)"
        unfolding read_post_def
        by (rule exI [of _ "RData (acc @ l)"], rule exI [of _ "up_list up"], rule exI [of _ rw1],
            rule exI [of _ mux1], rule exI [of _ l]) (use l len mux1 in simp)
      with no c show ?thesis by (auto simp: up_list_def Let_def)
    next
      case yes: True
      have "read_post rw mux room acc ups
         (read_loop k fl (room - length l) (acc @ l) (ups @ up_list up) (read_pop (acc @ l) rw1) mux1)"
        using l(2,5,6,7) mux1(4,5) Suc.prems(5)
        by (intro read_post_step [OF l(3,1) conjunct1 [OF yes] l(4,8) mux1(1-3)] read_pop_post Suc.IH)
          simp_all
      moreover have "read_enter (acc @ l) rw1 = read_pop (acc @ l) rw1"
        using l(2,5,6) by (simp add: read_enter_def rw_inv_def)
      ultimately show ?thesis
        using yes c by (simp add: up_list_def Let_def)
    qed
  qed
qed

text \<open>A whole read, from the start or after the wait in \<open>Pop\<close>.\<close>

lemma readFromQueue_post:
  assumes "budget_ok mux" "rw_inv mux rw" "length (rq_elems (rw_bufQueue rw)) < k"
  shows "read_post rw mux room [] [] (readFromQueue k fl room (rw, mux))"
proof -
  obtain e where e: "rw_element rw = Some e" "unat (rw_off rw) \<le> unat (le_L e)" "\<not> rw_closed rw"
    using assms(2) by (auto simp: rw_inv_def)
  show ?thesis
  proof (cases "rw_off rw = ucast (le_L e)")
    case True
    have "read_post rw mux room [] [] (read_loop k fl room [] [] (read_pop [] rw) mux)"
      using assms by (intro read_pop_post [OF assms(2) e(1) True] read_loop_spec) simp_all
    with True e show ?thesis
      by (simp add: readFromQueue_def read_enter_def)
  next
    case False
    then have "unat (rw_off rw) \<noteq> unat (le_L e)"
      by (auto simp: word_unat_eq_iff)
    then have "read_post rw mux room [] [] (read_loop k fl room [] [] (Inr (e, rw)) mux)"
      using assms e(1,2) by (intro read_loop_spec) simp_all
    with False e show ?thesis
      by (simp add: readFromQueue_def read_enter_def)
  qed
qed

lemma read_wakeup_post:
  assumes "budget_ok mux" "rw_inv mux rw" "length (rq_elems (rw_bufQueue rw)) < k"
    and "rw_element rw = Some e" "rw_off rw = ucast (le_L e)"
  shows "\<exists>res. read_wakeup k fl room acc PushResume (rw, mux) = Some res \<and> read_post rw mux room acc [] res"
proof -
  have "read_post rw mux room acc [] (read_loop k fl room acc [] (read_pop acc rw) mux)"
    using assms by (intro read_pop_post [OF assms(2,4,5)] read_loop_spec) simp_all
  then show ?thesis
    by (simp add: read_wakeup_def)
qed

subsection \<open>Closing returns the stream's share of the session budget\<close>

lemma rw_others_releaseBytes:
  assumes "unat l \<le> unat (rw_buffered rw)" "releaseBytes l (rw, mux) = (rw', mux')"
  shows "rw' = rw\<lparr>rw_buffered := rw_buffered rw - ucast l\<rparr>" "rw_others mux' rw' = rw_others mux rw"
    "unat (rw_buffered rw') = unat (rw_buffered rw) - unat l"
proof -
  show rw': "rw' = rw\<lparr>rw_buffered := rw_buffered rw - ucast l\<rparr>"
    using assms(2) by (simp add: releaseBytes_eq)
  show b: "unat (rw_buffered rw') = unat (rw_buffered rw) - unat l"
    using assms(1) by (simp add: rw' unat_sub_if')
  show "rw_others mux' rw' = rw_others mux rw"
    using assms b rw_others_release [of rw rw' l mux] by (simp add: releaseBytes_eq)
qed

lemma release_queue_spec:
  assumes "rq_inv (rw_bufQueue rw)" "length (rq_elems (rw_bufQueue rw)) < k"
    and "unat (rw_buffered rw) = rq_total (rw_bufQueue rw) + c"
  shows "\<exists>rw' mux'. release_queue k (rw, mux) = Some (rw', mux') \<and> rq_elems (rw_bufQueue rw') = [] \<and>
     unat (rw_buffered rw') = c \<and> rw_others mux' rw' = rw_others mux rw \<and>
     rw_element rw' = rw_element rw \<and> rw_off rw' = rw_off rw \<and> rw_closed rw' = rw_closed rw \<and>
     rq_stopped (rw_bufQueue rw') = rq_stopped (rw_bufQueue rw)"
  using assms
proof (induction k arbitrary: rw mux)
  case (Suc k)
  show ?case
  proof (cases "rq_elems (rw_bufQueue rw)")
    case Nil
    then obtain q where "rq_TryPop (rw_bufQueue rw) = Some (None, q)" "rq_elems q = []"
      "rq_stopped q = rq_stopped (rw_bufQueue rw)"
      using rq_TryPop_nil Suc.prems(1) by blast
    with Nil Suc.prems(3) show ?thesis
      by (simp add: rq_total_def rw_others_def)
  next
    case (Cons e es)
    then obtain q where q: "rq_TryPop (rw_bufQueue rw) = Some (Some e, q)" "rq_inv q" "rq_elems q = es"
      "rq_stopped q = rq_stopped (rw_bufQueue rw)"
      using rq_TryPop_cons Suc.prems(1) by blast
    obtain rw1 mux1 where r: "releaseBytes (le_L e) (rw\<lparr>rw_bufQueue := q\<rparr>, mux) = (rw1, mux1)"
      by fastforce
    have tot: "unat (rw_buffered rw) = unat (le_L e) + rq_total q + c"
      using Suc.prems(3) Cons q(3) by (simp add: rq_total_def)
    then have r1: "rw1 = (rw\<lparr>rw_bufQueue := q\<rparr>)\<lparr>rw_buffered := rw_buffered (rw\<lparr>rw_bufQueue := q\<rparr>) - ucast (le_L e)\<rparr>"
      "rw_others mux1 rw1 = rw_others mux rw" "unat (rw_buffered rw1) = rq_total q + c"
      using rw_others_releaseBytes [OF _ r] by (simp_all add: rw_others_def)
    have "\<exists>rw' mux'. release_queue k (rw1, mux1) = Some (rw', mux') \<and> rq_elems (rw_bufQueue rw') = [] \<and>
     unat (rw_buffered rw') = c \<and> rw_others mux' rw' = rw_others mux1 rw1 \<and>
     rw_element rw' = rw_element rw1 \<and> rw_off rw' = rw_off rw1 \<and> rw_closed rw' = rw_closed rw1 \<and>
     rq_stopped (rw_bufQueue rw') = rq_stopped (rw_bufQueue rw1)"
      using q Cons Suc.prems(2) r1 by (intro Suc.IH) simp_all
    moreover have "release_queue (Suc k) (rw, mux) = release_queue k (rw1, mux1)"
      using q(1) r by simp
    ultimately show ?thesis
      using r1 q(4) by simp
  qed
qed simp

lemma release_current:
  assumes b: "unat (rw_buffered rw) = (if unat (rw_off rw) < unat (le_L e) then unat (le_L e) else 0)"
    and s: "s = (if rw_off rw < ucast (le_L e) then releaseBytes (le_L e) (rw, mux) else (rw, mux))"
  shows "rw_buffered (fst s) = 0" "sessionRecvQueued (snd s) = rw_others mux rw"
    "rw_bufQueue (fst s) = rw_bufQueue rw" "rw_closed (fst s) = rw_closed rw"
proof -
  have "unat (rw_buffered (fst s)) = 0 \<and> rw_others (snd s) (fst s) = rw_others mux rw \<and>
     rw_bufQueue (fst s) = rw_bufQueue rw \<and> rw_closed (fst s) = rw_closed rw"
  proof (cases "rw_off rw < ucast (le_L e)")
    case True
    then have c: "unat (le_L e) = unat (rw_buffered rw)"
      using b by (simp add: word_less_nat_alt)
    obtain rw2 mux2 where r: "releaseBytes (le_L e) (rw, mux) = (rw2, mux2)"
      by fastforce
    note r2 = rw_others_releaseBytes [OF eq_imp_le [OF c] r]
    have "rw_bufQueue rw2 = rw_bufQueue rw" "rw_closed rw2 = rw_closed rw"
      by (simp_all add: r2(1))
    with True r r2(2,3) c show ?thesis
      by (simp add: s)
  next
    case False
    then show ?thesis
      using b by (simp add: s word_less_nat_alt)
  qed
  then show "rw_buffered (fst s) = 0" "sessionRecvQueued (snd s) = rw_others mux rw"
    "rw_bufQueue (fst s) = rw_bufQueue rw" "rw_closed (fst s) = rw_closed rw"
    by (auto simp: unat_eq_0 rw_others_def)
qed

lemma release_queue_config:
  "release_queue k (rw, mux) = Some (rw', mux') \<Longrightarrow>
   sessionRecvLimit mux' = sessionRecvLimit mux \<and> mux_config mux' = mux_config mux"
proof (induction k arbitrary: rw mux)
  case (Suc k)
  then show ?case
    by (fastforce simp: releaseBytes_eq split: option.splits prod.splits)
qed simp

text \<open>The bytes a window holds are those of its queue and of its current element, open or closed.\<close>

definition rw_counted :: "receiveWindow \<Rightarrow> bool" where
  "rw_counted rw \<longleftrightarrow>
     rq_inv (rw_bufQueue rw) \<and> unat (rw_buffered rw) = rq_total (rw_bufQueue rw) + cur_bytes rw"

lemma rw_inv_counted: "rw_inv mux rw \<Longrightarrow> rw_counted rw"
  by (simp add: rw_inv_def rw_counted_def)

lemma rw_CloseWindow_spec:
  assumes "rw_counted rw" "length (rq_elems (rw_bufQueue rw)) < k"
  obtains rw' mux' where "rw_CloseWindow k (rw, mux) = Some (rw', mux')" "rw_closed rw'"
    "rq_stopped (rw_bufQueue rw')" "rw_element rw' = None" "rq_elems (rw_bufQueue rw') = []"
    "rw_buffered rw' = 0" "sessionRecvQueued mux' = sessionRecvQueued mux - ucast (rw_buffered rw)"
    "sessionRecvLimit mux' = sessionRecvLimit mux" "mux_config mux' = mux_config mux"
proof -
  define rw0 where "rw0 = rw_Stop (rw\<lparr>rw_closed := True\<rparr>)"
  have "rq_inv (rw_bufQueue rw0)" "rq_elems (rw_bufQueue rw0) = rq_elems (rw_bufQueue rw)"
    "unat (rw_buffered rw0) = rq_total (rw_bufQueue rw0) + cur_bytes rw"
    using assms(1)
    by (simp_all add: rw0_def rw_counted_def rw_Stop_def rq_Stop_def rq_inv_def rq_Len_def rq_total_def rq_elems_def)
  then obtain rw1 mux1 where q: "release_queue k (rw0, mux) = Some (rw1, mux1)"
    "rq_elems (rw_bufQueue rw1) = []" "unat (rw_buffered rw1) = cur_bytes rw"
    "rw_others mux1 rw1 = rw_others mux rw0" "rw_element rw1 = rw_element rw" "rw_off rw1 = rw_off rw"
    "rw_closed rw1" "rq_stopped (rw_bufQueue rw1)"
    using release_queue_spec [of rw0 k "cur_bytes rw" mux] assms(2)
    by (auto simp: rw0_def rw_Stop_def rq_Stop_def)
  have cfg: "sessionRecvLimit mux1 = sessionRecvLimit mux" "mux_config mux1 = mux_config mux"
    using release_queue_config [OF q(1)] by simp_all
  show ?thesis
  proof (cases "rw_element rw")
    case None
    then have "rw_CloseWindow k (rw, mux) = Some (rw1, mux1)"
      using q(1,5) by (simp add: rw_CloseWindow_def rw_release_def flip: rw0_def)
    moreover have "rw_buffered rw1 = 0"
      using q(3) None by (simp add: cur_bytes_def unat_eq_0)
    ultimately show ?thesis
      using that [of rw1 mux1] q None cfg by (simp add: rw_others_def rw0_def rw_Stop_def)
  next
    case (Some e)
    define s where "s = (if rw_off rw1 < ucast (le_L e) then releaseBytes (le_L e) (rw1, mux1) else (rw1, mux1))"
    have "unat (rw_buffered rw1) = (if unat (rw_off rw1) < unat (le_L e) then unat (le_L e) else 0)"
      using q(3,6) Some by (simp add: cur_bytes_def)
    note r = release_current [OF this s_def]
    have c: "rw_CloseWindow k (rw, mux) = Some ((fst s)\<lparr>rw_element := None\<rparr>, snd s)"
      using q(1,5) Some by (simp add: rw_CloseWindow_def rw_release_def s_def split_beta flip: rw0_def)
    have "sessionRecvLimit (snd s) = sessionRecvLimit mux" "mux_config (snd s) = mux_config mux"
      using cfg by (simp_all add: s_def releaseBytes_eq)
    then show ?thesis
      using that [OF c] r q(2,4,7,8) by (simp add: rw_others_def rw0_def rw_Stop_def)
  qed
qed

text \<open>C20: closing a receive window (\<open>CloseWindow\<close>) drains its queue, drops the current element and
  gives back exactly the bytes the stream holds: its buffered count goes to zero and the session
  counter keeps only the other streams' bytes.  The number of queued elements bounds the drain.\<close>

theorem rw_CloseWindow_returns_budget:
  assumes "rw_inv mux rw" "length (rq_elems (rw_bufQueue rw)) < k"
  shows "\<exists>rw' mux'. rw_CloseWindow k (rw, mux) = Some (rw', mux') \<and> rw_closed rw' \<and>
     rq_stopped (rw_bufQueue rw') \<and> rw_element rw' = None \<and> rq_elems (rw_bufQueue rw') = [] \<and>
     rw_buffered rw' = 0 \<and> sessionRecvQueued mux' = sessionRecvQueued mux - ucast (rw_buffered rw)"
  by (rule rw_CloseWindow_spec [OF rw_inv_counted [OF assms(1)] assms(2), of mux]) blast

theorem rw_CloseWindow_returns_budget_witness:
  "\<exists>rw' mux'. rw_CloseWindow 1 (rw_New, new_budget (DefaultMuxConfig initialPingInterval)) = Some (rw', mux') \<and>
     rw_closed rw' \<and> rq_stopped (rw_bufQueue rw') \<and> rw_element rw' = None \<and>
     rq_elems (rw_bufQueue rw') = [] \<and> rw_buffered rw' = 0 \<and> sessionRecvQueued mux' = 0"
proof -
  have "rw_inv (new_budget (DefaultMuxConfig initialPingInterval)) rw_New"
    by (intro rw_inv_New budget_ok_new)
  from rw_CloseWindow_returns_budget [OF this, of 1] show ?thesis
    by (simp add: rw_New_def rq_inv_new new_budget_def Let_def)
qed

end
