(* ===== verification/Mux_Flow.thy ===== *)
theory Mux_Flow
  imports Mux_Send Mux_Recv
begin

text \<open>
  One direction of a stream end to end: the writer's send window, the frames under way, the reader's
  receive window and the window updates on their way back.  Every step is one operation of
  \<open>Mux_Send\<close> or \<open>Mux_Recv\<close>, in any interleaving; the other streams of the session move
  \<open>sessionRecvQueued\<close> at will.  The fields \<open>f_written\<close> and \<open>f_read\<close> are history: the bytes that
  left the writer in accepted frames, and the bytes completed reads returned.
\<close>

record flow =
  f_sw :: sendWindow
  f_blocked :: bool
  f_data :: frames
  f_rw :: receiveWindow
  f_mux :: mux_budget
  f_reading :: "(nat \<times> bytes) option"
  f_ups :: "uint64 list"
  f_broken :: bool
  f_written :: bytes
  f_read :: bytes

definition flow_init :: "MuxConfig \<Rightarrow> flow" where
  "flow_init cfg = \<lparr>f_sw = sw_New, f_blocked = False, f_data = [], f_rw = rw_New, f_mux = new_budget cfg,
     f_reading = None, f_ups = [], f_broken = False, f_written = [], f_read = []\<rparr>"

text \<open>What the end of a read (or its wait) does to the state.\<close>

definition read_result ::
  "nat \<Rightarrow> read_out \<times> uint64 list \<times> receiveWindow \<times> mux_budget \<Rightarrow> flow \<Rightarrow> flow" where
  "read_result lenp res s =
     (case res of (out, ups, rw, mux) \<Rightarrow>
        (let s' = s\<lparr>f_ups := f_ups s @ ups, f_rw := rw, f_mux := mux\<rparr>
         in case out of
              RData d \<Rightarrow> s'\<lparr>f_read := f_read s @ d, f_reading := None\<rparr>
            | RBlock acc \<Rightarrow> s'\<lparr>f_reading := Some (lenp, acc)\<rparr>
            | _ \<Rightarrow> s'\<lparr>f_broken := True\<rparr>))"

text \<open>The steps that carry frames, bytes and updates along, once they left the writer.\<close>

inductive drain_step :: "flow \<Rightarrow> flow \<Rightarrow> bool" where
  deliver: "f_data s = (part, p) # fs \<Longrightarrow>
     rw_Write fl p (word_of_nat (length p)) part (f_rw s, f_mux s) = Inr (up, rw, mux) \<Longrightarrow>
     drain_step s (s\<lparr>f_data := fs, f_rw := rw, f_mux := mux, f_ups := f_ups s @ up_list up\<rparr>)"
| reject: "f_data s = (part, p) # fs \<Longrightarrow>
     rw_Write fl p (word_of_nat (length p)) part (f_rw s, f_mux s) = Inl err \<Longrightarrow>
     drain_step s (s\<lparr>f_data := fs, f_broken := True\<rparr>)"
| update: "f_ups s = u # us \<Longrightarrow> SetSize u (f_sw s) = (cl, reason, sw) \<Longrightarrow>
     drain_step s (s\<lparr>f_ups := us, f_sw := sw, f_broken := (f_broken s \<or> cl)\<rparr>)"
| read: "f_reading s = None \<Longrightarrow> 0 < lenp \<Longrightarrow> rw_pending (f_rw s) \<noteq> [] \<Longrightarrow>
     length (rq_elems (rw_bufQueue (f_rw s))) < k \<Longrightarrow>
     drain_step s (read_result lenp (rw_Read k fl lenp (f_rw s, f_mux s)) s)"
| wakeup: "f_reading s = Some (lenp, acc) \<Longrightarrow> length acc < lenp \<Longrightarrow> rw_pending (f_rw s) \<noteq> [] \<Longrightarrow>
     length (rq_elems (rw_bufQueue (f_rw s))) < k \<Longrightarrow>
     read_wakeup k fl (lenp - length acc) acc PushResume (f_rw s, f_mux s) = Some res \<Longrightarrow>
     drain_step s (read_result lenp res s)"

inductive flow_step :: "flow \<Rightarrow> flow \<Rightarrow> bool" where
  drain: "drain_step s s' \<Longrightarrow> flow_step s s'"
| start_write: "\<not> f_blocked s \<Longrightarrow> length buf < 4294967296 \<Longrightarrow>
     flow_step s (s\<lparr>f_sw := SetSendBuf buf (f_sw s)\<rparr>)"
| send: "\<not> f_blocked s \<Longrightarrow> WriteTo (f_sw s) = WSeg p l part sw \<Longrightarrow>
     flow_step s (s\<lparr>f_sw := sw, f_data := f_data s @ [(part, p)], f_written := f_written s @ p\<rparr>)"
| send_fails: "\<not> f_blocked s \<Longrightarrow> WriteTo (f_sw s) = WSeg p l part sw \<Longrightarrow>
     flow_step s (s\<lparr>f_sw := rollbackSent l sw\<rparr>)"
| block: "\<not> f_blocked s \<Longrightarrow> WriteTo (f_sw s) = WBlock sw \<Longrightarrow>
     flow_step s (s\<lparr>f_sw := sw, f_blocked := True\<rparr>)"
| resume: "f_blocked s \<Longrightarrow> waitReceiveWindow CaseSetSize (f_sw s) = Some (WaitResume sw) \<Longrightarrow>
     flow_step s (s\<lparr>f_sw := sw, f_blocked := False\<rparr>)"
| write_timeout: "f_blocked s \<Longrightarrow> flow_step s (s\<lparr>f_blocked := False\<rparr>)"
| read_empty: "f_reading s = None \<Longrightarrow> 0 < lenp \<Longrightarrow> rw_pending (f_rw s) = [] \<Longrightarrow> 0 < k \<Longrightarrow>
     flow_step s (read_result lenp (rw_Read k fl lenp (f_rw s, f_mux s)) s)"
| other_streams: "flow_step s (s\<lparr>f_mux := (f_mux s)\<lparr>sessionRecvQueued := n\<rparr>\<rparr>)"

subsection \<open>The invariant\<close>

definition flow_reading_ok :: "flow \<Rightarrow> bool" where
  "flow_reading_ok s \<longleftrightarrow>
     (\<forall>lenp acc. f_reading s = Some (lenp, acc) \<longrightarrow> length acc < lenp \<and>
        (\<exists>e. rw_element (f_rw s) = Some e \<and> rw_off (f_rw s) = ucast (le_L e)))"

definition reading_acc :: "flow \<Rightarrow> bytes" where
  "reading_acc s = (case f_reading s of None \<Rightarrow> [] | Some (lenp, acc) \<Rightarrow> acc)"

definition flow_sender_ok :: "flow \<Rightarrow> bool" where
  "flow_sender_ok s \<longleftrightarrow>
     \<not> sw_closed (f_sw s) \<and> \<not> sw_chClosed (f_sw s) \<and> sw_inv (f_sw s) \<and>
     length (sw_buf (f_sw s)) < 4294967296 \<and> unat (sw_off (f_sw s)) \<le> length (sw_buf (f_sw s)) \<and>
     win_ok (f_mux s) (sw_maxSizeDone (f_sw s)) \<and> ssend (f_sw s) \<le> unat (maxConnReceiveWindow (f_mux s)) \<and>
     (f_blocked s \<longrightarrow> swait (f_sw s) \<or> sw_token (f_sw s))"

definition flow_inv :: "flow \<Rightarrow> bool" where
  "flow_inv s \<longleftrightarrow>
     \<not> f_broken s \<and> budget_ok (f_mux s) \<and> flow_sender_ok s \<and> rw_inv (f_mux s) (f_rw s) \<and>
     (\<forall>f \<in> set (f_data s). 0 < length (snd f) \<and> length (snd f) \<le> 4085) \<and>
     (\<forall>u \<in> set (f_ups s). win_ok (f_mux s) u) \<and> flow_reading_ok s \<and>
     ssend (f_sw s) = length (payload (f_data s)) + rw_budget (f_rw s) + ups_read (f_ups s) \<and>
     f_written s = f_read s @ reading_acc s @ rw_pending (f_rw s) @ payload (f_data s)"

lemmas flow_defs = flow_inv_def flow_sender_ok_def flow_reading_ok_def reading_acc_def

lemma sw_New_simps:
  "smax sw_New = 122550" "ssend sw_New = 0" "\<not> swait sw_New" "\<not> sw_closed sw_New"
  "\<not> sw_chClosed sw_New" "sw_buf sw_New = []" "sw_off sw_New = 0"
  by (simp_all add: sw_New_def win_pack_parts mux_consts)

lemma rw_New_simps: "rw_pending rw_New = []" "rw_budget rw_New = 0"
  by (simp_all add: rw_New_def rw_pending_def le_Reset_def le_data_def rq_inv_new rw_budget_def
      win_pack_parts mux_consts)

lemma flow_inv_init: "flow_inv (flow_init cfg)"
  using budget_ok_new [of cfg]
  by (simp add: flow_defs flow_init_def rw_inv_New sw_inv_New sw_New_simps rw_New_simps win_ok_def)
    (simp add: budget_ok_def)

subsection \<open>Sending keeps the invariant\<close>

lemma flow_inv_sender:
  assumes "flow_inv s" "flow_sender_ok s'"
    and "ssend (f_sw s') = ssend (f_sw s) + length (payload fs)"
    and "\<forall>f \<in> set fs. 0 < length (snd f) \<and> length (snd f) \<le> 4085"
    and "f_data s' = f_data s @ fs" "f_written s' = f_written s @ payload fs"
    and "f_rw s' = f_rw s" "f_mux s' = f_mux s" "f_reading s' = f_reading s" "f_ups s' = f_ups s"
      "f_broken s' = f_broken s" "f_read s' = f_read s"
  shows "flow_inv s'"
  using assms by (auto simp: flow_inv_def flow_reading_ok_def reading_acc_def)

lemma flow_inv_start_write:
  assumes "flow_inv s" "length buf < 4294967296"
  shows "flow_inv (s\<lparr>f_sw := SetSendBuf buf (f_sw s)\<rparr>)"
proof (rule flow_inv_sender [OF assms(1), where fs = "[]"])
  show "flow_sender_ok (s\<lparr>f_sw := SetSendBuf buf (f_sw s)\<rparr>)"
    using assms by (auto simp: flow_inv_def flow_sender_ok_def SetSendBuf_def sw_inv_def)
qed (simp_all add: SetSendBuf_def)

lemma flow_inv_sender_parts:
  assumes "flow_inv s"
  shows "flow_sender_ok s" "length (sw_buf (f_sw s)) < 4294967296"
  using assms by (simp_all add: flow_inv_def flow_sender_ok_def)

lemma flow_inv_send:
  assumes inv: "flow_inv s" and blk: "\<not> f_blocked s" and w: "WriteTo (f_sw s) = WSeg p l part sw"
  shows "flow_inv (s\<lparr>f_sw := sw, f_data := f_data s @ [(part, p)], f_written := f_written s @ p\<rparr>)"
proof -
  note ok = flow_inv_sender_parts [OF inv]
  note seg = WriteTo_WSegD [OF w ok(2)]
  note b = seg_len_bounds [OF seg(1,2)]
  have "length p = seg_len (f_sw s)"
    using seg(4) b by simp
  note len = this
  show ?thesis
  proof (rule flow_inv_sender [OF inv, where fs = "[(part, p)]"])
    show "flow_sender_ok (s\<lparr>f_sw := sw, f_data := f_data s @ [(part, p)], f_written := f_written s @ p\<rparr>)"
      using ok(1) seg(3) b blk WriteTo_inv(2) [OF _ ok(2) w]
      by (auto simp: flow_sender_ok_def seg_step_def win_ok_def)
  qed (use seg(3) b len in \<open>auto simp: seg_step_def\<close>)
qed

lemma flow_inv_send_fails:
  assumes inv: "flow_inv s" and blk: "\<not> f_blocked s" and w: "WriteTo (f_sw s) = WSeg p l part sw"
  shows "flow_inv (s\<lparr>f_sw := rollbackSent l sw\<rparr>)"
proof -
  note ok = flow_inv_sender_parts [OF inv]
  note seg = WriteTo_WSegD [OF w ok(2)]
  note b = seg_len_bounds [OF seg(1,2)]
  have "ssend sw = ssend (f_sw s) + unat l" "unat (sw_off sw) = unat (sw_off (f_sw s)) + unat l"
    "smax sw = smax (f_sw s)" "swait sw = swait (f_sw s)"
    using seg(3,5) b by (simp_all add: seg_step_def)
  note undo = rollbackSent_undo [OF this]
  have keep: "sw_chClosed (rollbackSent l sw) = sw_chClosed sw" "sw_token (rollbackSent l sw) = sw_token sw"
    by (simp_all add: rollbackSent_def Let_def split_beta)
  show ?thesis
  proof (rule flow_inv_sender [OF inv, where fs = "[]"])
    show "flow_sender_ok (s\<lparr>f_sw := rollbackSent l sw\<rparr>)"
      using ok(1) seg(3) undo keep blk by (auto simp: flow_sender_ok_def seg_step_def win_ok_def sw_inv_def)
  qed (use undo in simp_all)
qed

lemma flow_inv_block:
  assumes inv: "flow_inv s" and w: "WriteTo (f_sw s) = WBlock sw"
  shows "flow_inv (s\<lparr>f_sw := sw, f_blocked := True\<rparr>)"
proof -
  note ok = flow_inv_sender_parts [OF inv]
  note blk = WriteTo_WBlockD [OF w ok(2)]
  obtain v where v: "sw = (f_sw s)\<lparr>sw_maxSizeDone := v\<rparr>"
    using blk(3) ..
  have "sw_closed sw = sw_closed (f_sw s)" "sw_chClosed sw = sw_chClosed (f_sw s)"
    "sw_buf sw = sw_buf (f_sw s)" "sw_off sw = sw_off (f_sw s)"
    by (simp_all add: v)
  note keep = this
  show ?thesis
  proof (rule flow_inv_sender [OF inv, where fs = "[]"])
    show "flow_sender_ok (s\<lparr>f_sw := sw, f_blocked := True\<rparr>)"
      using ok(1) blk(2,4-6) keep by (auto simp: flow_sender_ok_def win_ok_def sw_inv_def)
  qed (simp_all add: blk(5))
qed

lemma flow_inv_resume:
  assumes inv: "flow_inv s" and w: "waitReceiveWindow CaseSetSize (f_sw s) = Some (WaitResume sw)"
  shows "flow_inv (s\<lparr>f_sw := sw, f_blocked := False\<rparr>)"
proof -
  have sw: "sw = (f_sw s)\<lparr>sw_token := False\<rparr>"
    using w by (simp split: if_splits)
  show ?thesis
  proof (rule flow_inv_sender [OF inv, where fs = "[]"])
    show "flow_sender_ok (s\<lparr>f_sw := sw, f_blocked := False\<rparr>)"
      using inv by (auto simp: sw flow_inv_def flow_sender_ok_def sw_inv_def)
  qed (simp_all add: sw)
qed

lemma flow_inv_timeout:
  assumes "flow_inv s"
  shows "flow_inv (s\<lparr>f_blocked := False\<rparr>)"
  using flow_inv_sender_parts [OF assms]
  by (intro flow_inv_sender [OF assms, where fs = "[]"]) (simp_all add: flow_sender_ok_def)

lemma flow_inv_others:
  assumes "flow_inv s"
  shows "flow_inv (s\<lparr>f_mux := (f_mux s)\<lparr>sessionRecvQueued := n\<rparr>\<rparr>)"
proof -
  let ?mux = "(f_mux s)\<lparr>sessionRecvQueued := n\<rparr>"
  have "win_ok ?mux = win_ok (f_mux s)" "rw_inv ?mux = rw_inv (f_mux s)" "budget_ok ?mux = budget_ok (f_mux s)"
    "maxConnReceiveWindow ?mux = maxConnReceiveWindow (f_mux s)"
    using rw_inv_same_config [of ?mux "f_mux s"] by (auto simp: maxConnReceiveWindow_def)
  with assms show ?thesis
    by (auto simp: flow_inv_def flow_sender_ok_def flow_reading_ok_def reading_acc_def)
qed

subsection \<open>Delivery, window updates and reads keep the invariant\<close>

lemma payload_le: "f \<in> set fs \<Longrightarrow> length (snd f) \<le> length (payload fs)"
  by (induction fs) auto

lemma flow_deliver_spec:
  assumes inv: "flow_inv s" and d: "f_data s = (part, p) # fs"
  obtains up rw where "rw_Write fl p (word_of_nat (length p)) part (f_rw s, f_mux s) =
      Inr (up, rw, addSessionReceive (ucast (word_of_nat (length p) :: uint16)) (f_mux s))"
    "rw_inv (f_mux s) rw" "rw_pending rw = rw_pending (f_rw s) @ p"
    "rw_budget rw + up_read up = rw_budget (f_rw s) + length p"
    "\<forall>u \<in> set_option up. win_ok (f_mux s) u"
    "rw_element rw = rw_element (f_rw s)" "rw_off rw = rw_off (f_rw s)"
proof -
  define l :: uint16 where "l = word_of_nat (length p)"
  have p: "0 < length p" "length p \<le> 4085"
    using inv d by (auto simp: flow_inv_def)
  then have l: "unat l = length p"
    by (simp add: l_def unat_of_nat_id)
  then have "l \<noteq> 0"
    using p by auto
  have "rw_budget (f_rw s) + length p \<le> ssend (f_sw s)"
    using inv d by (simp add: flow_inv_def)
  then have "rdone (f_rw s) + unat (rw_buffered (f_rw s)) + unat l \<le> 2147483647"
    using inv l by (simp add: flow_inv_def flow_sender_ok_def budget_ok_def rw_budget_def)
  then obtain up rw where "rw_Write fl p l part (f_rw s, f_mux s) =
      Inr (up, rw, addSessionReceive (ucast l) (f_mux s))"
    "rw_inv (f_mux s) rw" "rw_pending rw = rw_pending (f_rw s) @ p"
    "unat (rw_buffered rw) = unat (rw_buffered (f_rw s)) + unat l"
    "rdone rw + up_read up = rdone (f_rw s)" "\<forall>u \<in> set_option up. win_ok (f_mux s) u"
    "rw_element rw = rw_element (f_rw s)" "rw_off rw = rw_off (f_rw s)"
    using inv l \<open>l \<noteq> 0\<close> rw_Write_spec [of "f_mux s" "f_rw s" l p fl part] by (auto simp: flow_inv_def)
  then show ?thesis
    using that l by (simp add: rw_budget_def l_def)
qed

lemma flow_inv_deliver:
  assumes inv: "flow_inv s" and d: "f_data s = (part, p) # fs"
    and w: "rw_Write fl p (word_of_nat (length p)) part (f_rw s, f_mux s) = Inr (up, rw, mux)"
  shows "flow_inv (s\<lparr>f_data := fs, f_rw := rw, f_mux := mux, f_ups := f_ups s @ up_list up\<rparr>)"
proof -
  note facts = flow_deliver_spec [OF inv d, of fl]
  have mux: "mux = addSessionReceive (ucast (word_of_nat (length p) :: uint16)) (f_mux s)"
    and r: "rw_inv (f_mux s) rw" "rw_pending rw = rw_pending (f_rw s) @ p"
      "rw_budget rw + up_read up = rw_budget (f_rw s) + length p"
      "\<forall>u \<in> set_option up. win_ok (f_mux s) u"
      "rw_element rw = rw_element (f_rw s)" "rw_off rw = rw_off (f_rw s)"
    using facts w by (metis Pair_inject sum.inject(2))+
  show ?thesis
    using inv d r by (auto simp: flow_defs mux)
qed

lemma flow_no_reject:
  assumes "flow_inv s" "f_data s = (part, p) # fs"
  shows "rw_Write fl p (word_of_nat (length p)) part (f_rw s, f_mux s) \<noteq> Inl err"
  using flow_deliver_spec [OF assms, of fl] by (metis sum.distinct(1))

lemma flow_update_spec:
  assumes inv: "flow_inv s" and u: "f_ups s = u # us"
  obtains sw where "SetSize u (f_sw s) = (False, None, sw)" "smax sw = win_max u"
    "ssend sw = ssend (f_sw s) - win_done u" "win_done u \<le> ssend (f_sw s)"
    "swait sw \<longleftrightarrow> swait (f_sw s) \<and> smax sw \<le> ssend sw"
    "sw_token sw \<longleftrightarrow> sw_token (f_sw s) \<or> swait (f_sw s) \<and> \<not> swait sw"
    "sw_closed sw = sw_closed (f_sw s)" "sw_chClosed sw = sw_chClosed (f_sw s)"
    "sw_buf sw = sw_buf (f_sw s)" "sw_off sw = sw_off (f_sw s)"
proof -
  obtain cm r w0 where c: "win_unpack u = (cm, r, w0)"
    using prod_cases3 by blast
  have le: "win_done u \<le> ssend (f_sw s)"
    using inv u by (simp add: flow_inv_def)
  have "\<not> sw_closed (f_sw s)" "\<not> sw_chClosed (f_sw s)" "sw_inv (f_sw s)"
    using inv by (simp_all add: flow_inv_def flow_sender_ok_def)
  note ok = this
  have parts: "unat r = win_done u" "unat cm = win_max u"
    by (simp_all add: c win_done_def win_max_def)
  with le have le': "unat r \<le> ssend (f_sw s)" by simp
  obtain sw where sw: "SetSize u (f_sw s) = (False, None, sw)" "smax sw = win_max u"
    "ssend sw = ssend (f_sw s) - win_done u"
    "swait sw \<longleftrightarrow> swait (f_sw s) \<and> win_max u \<le> ssend (f_sw s) - win_done u"
    "sw_token sw \<longleftrightarrow> sw_token (f_sw s) \<or> swait (f_sw s) \<and> \<not> swait sw"
    "sw_closed sw = sw_closed (f_sw s)" "sw_chClosed sw = sw_chClosed (f_sw s)"
    "sw_buf sw = sw_buf (f_sw s)" "sw_off sw = sw_off (f_sw s)"
    using SetSize_accept [OF ok c le', unfolded parts] .
  show ?thesis
    using sw(2-) le by (intro that [OF sw(1)]) simp_all
qed

lemma flow_inv_update:
  assumes inv: "flow_inv s" and u: "f_ups s = u # us" and set: "SetSize u (f_sw s) = (cl, reason, sw)"
  shows "flow_inv (s\<lparr>f_ups := us, f_sw := sw, f_broken := (f_broken s \<or> cl)\<rparr>)"
proof -
  have r: "\<not> cl" "smax sw = win_max u" "ssend sw = ssend (f_sw s) - win_done u" "win_done u \<le> ssend (f_sw s)"
    "swait sw \<longleftrightarrow> swait (f_sw s) \<and> smax sw \<le> ssend sw"
    "sw_token sw \<longleftrightarrow> sw_token (f_sw s) \<or> swait (f_sw s) \<and> \<not> swait sw"
    "sw_closed sw = sw_closed (f_sw s)" "sw_chClosed sw = sw_chClosed (f_sw s)"
    "sw_buf sw = sw_buf (f_sw s)" "sw_off sw = sw_off (f_sw s)"
    using flow_update_spec [OF inv u] set by (metis Pair_inject)+
  have "flow_sender_ok (s\<lparr>f_ups := us, f_sw := sw, f_broken := (f_broken s \<or> cl)\<rparr>)"
    using inv u r by (auto simp: flow_inv_def flow_sender_ok_def win_ok_def sw_inv_def)
  with inv u r(1,3,4) show ?thesis
    by (auto simp: flow_inv_def flow_reading_ok_def reading_acc_def)
qed

lemma rw_inv_empty:
  assumes "rw_inv mux rw" "rw_buffered rw = 0"
  shows "\<exists>e. rw_element rw = Some e \<and> rw_off rw = ucast (le_L e)"
proof -
  obtain e where e: "rw_element rw = Some e" "unat (rw_off rw) \<le> unat (le_L e)"
    using assms(1) by (auto simp: rw_inv_def)
  moreover have "cur_bytes rw = 0"
    using assms by (simp add: rw_inv_def)
  ultimately have "unat (rw_off rw) = unat (ucast (le_L e) :: uint32)"
    by (auto simp: cur_bytes_def split: if_splits)
  then have "rw_off rw = ucast (le_L e)"
    by (rule word_unat_eq_iff [THEN iffD2])
  with e show ?thesis by blast
qed

text \<open>Both ways into a read, with the data it takes.\<close>

lemma flow_inv_read_result:
  assumes inv: "flow_inv s"
    and post: "read_post (f_rw s) (f_mux s) (lenp - length acc) acc [] res"
    and acc: "reading_acc s = acc" "length acc < lenp"
  shows "flow_inv (read_result lenp res s)"
proof -
  obtain out new rw mux d where res: "res = (out, new, rw, mux)"
    and r: "\<forall>u \<in> set new. win_ok (f_mux s) u" "rw_inv (f_mux s) rw"
      "sessionRecvLimit mux = sessionRecvLimit (f_mux s)" "mux_config mux = mux_config (f_mux s)"
      "rw_pending (f_rw s) = d @ rw_pending rw" "rw_budget rw + ups_read new = rw_budget (f_rw s)"
      "length d \<le> lenp - length acc"
      "out = RData (acc @ d) \<or> out = RBlock (acc @ d) \<and> rw_buffered rw = 0 \<and> length (acc @ d) < lenp"
    using post acc(2) by (auto simp: read_post_def)
  have same: "win_ok mux = win_ok (f_mux s)" "rw_inv mux = rw_inv (f_mux s)" "budget_ok mux = budget_ok (f_mux s)"
    "maxConnReceiveWindow mux = maxConnReceiveWindow (f_mux s)"
    using rw_inv_same_config [OF r(3,4)] r(4) by (simp_all add: maxConnReceiveWindow_def)
  have at_end: "\<exists>e. rw_element rw = Some e \<and> rw_off rw = ucast (le_L e)" if "rw_buffered rw = 0"
    by (rule rw_inv_empty [OF r(2) that])
  have sender: "flow_sender_ok (read_result lenp res s)"
    using inv r(8) same by (auto simp: res read_result_def Let_def flow_inv_def flow_sender_ok_def)
  from r(8) show ?thesis
  proof
    assume "out = RData (acc @ d)"
    with inv sender r(1,2,5-7) same acc show ?thesis
      by (auto simp: res read_result_def Let_def flow_inv_def flow_reading_ok_def reading_acc_def)
  next
    assume "out = RBlock (acc @ d) \<and> rw_buffered rw = 0 \<and> length (acc @ d) < lenp"
    with inv sender r(1,2,5-7) same acc at_end show ?thesis
      by (auto simp: res read_result_def Let_def flow_inv_def flow_reading_ok_def reading_acc_def)
  qed
qed

lemma read_result_read:
  assumes inv: "flow_inv s" and idle: "f_reading s = None"
    and k: "length (rq_elems (rw_bufQueue (f_rw s))) < k"
  shows "read_post (f_rw s) (f_mux s) (lenp - length (reading_acc s)) (reading_acc s) []
     (rw_Read k fl lenp (f_rw s, f_mux s))"
proof -
  have "\<not> rw_closed (f_rw s)"
    using inv by (simp add: flow_inv_def rw_inv_def)
  then show ?thesis
    using inv idle readFromQueue_post [of "f_mux s" "f_rw s" k lenp fl, OF _ _ k]
    by (simp add: rw_Read_def flow_inv_def reading_acc_def)
qed

lemma read_result_wakeup:
  assumes inv: "flow_inv s" and busy: "f_reading s = Some (lenp, acc)"
    and k: "length (rq_elems (rw_bufQueue (f_rw s))) < k"
    and w: "read_wakeup k fl (lenp - length acc) acc PushResume (f_rw s, f_mux s) = Some res"
  shows "read_post (f_rw s) (f_mux s) (lenp - length acc) acc [] res"
proof -
  obtain e where "rw_element (f_rw s) = Some e" "rw_off (f_rw s) = ucast (le_L e)"
    using inv busy by (auto simp: flow_inv_def flow_reading_ok_def)
  then show ?thesis
    using read_wakeup_post [OF _ _ k, of "f_mux s" e fl "lenp - length acc" acc] inv w
    by (simp add: flow_inv_def)
qed

lemma flow_inv_drain:
  assumes "drain_step s s'" "flow_inv s"
  shows "flow_inv s'"
  using assms
proof cases
  case (reject part p fs fl err)
  then show ?thesis
    using assms(2) flow_no_reject by blast
next
  case (read lenp k fl)
  then show ?thesis
    using assms(2) read_result_read flow_inv_read_result [OF assms(2)]
    by (simp add: reading_acc_def)
next
  case (wakeup lenp acc k fl res)
  then show ?thesis
    using read_result_wakeup [OF assms(2) wakeup(2,5,6)] flow_inv_read_result [OF assms(2)]
    by (auto simp: reading_acc_def)
qed (use assms(2) flow_inv_deliver flow_inv_update in auto)

lemma rw_pending_Nil_iff:
  assumes "rw_inv mux rw"
  shows "rw_pending rw = [] \<longleftrightarrow> rw_buffered rw = 0"
proof -
  obtain e where e: "rw_element rw = Some e" "le_ok e"
    using assms by (auto simp: rw_inv_def)
  have "cur_bytes rw = 0 \<longleftrightarrow> drop (unat (rw_off rw)) (le_data e) = []"
    using e by (auto simp: cur_bytes_def le_data_def le_ok_def)
  moreover have "rq_total (rw_bufQueue rw) = 0 \<longleftrightarrow> concat (map le_data (rq_elems (rw_bufQueue rw))) = []"
  proof -
    have "\<forall>e \<in> set (rq_elems (rw_bufQueue rw)). unat (le_L e) = 0 \<longleftrightarrow> le_data e = []"
      using assms by (auto simp: rw_inv_def le_data_def le_ok_def unat_eq_0)
    then show ?thesis by (auto simp: rq_total_def)
  qed
  moreover have "rw_buffered rw = 0 \<longleftrightarrow> rq_total (rw_bufQueue rw) = 0 \<and> cur_bytes rw = 0"
    using assms unat_eq_0 [of "rw_buffered rw"] by (auto simp: rw_inv_def)
  ultimately show ?thesis
    using e by (auto simp: rw_pending_def)
qed

lemma flow_inv_step:
  assumes "flow_step s s'" "flow_inv s"
  shows "flow_inv s'"
  using assms
proof cases
  case (read_empty lenp k fl)
  have "rw_buffered (f_rw s) = 0"
    using assms(2) read_empty rw_pending_Nil_iff by (auto simp: flow_inv_def)
  then have "rq_elems (rw_bufQueue (f_rw s)) = []"
    using assms(2) by (cases "rq_elems (rw_bufQueue (f_rw s))") (auto simp: flow_inv_def rw_inv_def rq_total_def unat_eq_0)
  then show ?thesis
    using assms(2) read_empty read_result_read flow_inv_read_result [OF assms(2)]
    by (simp add: reading_acc_def)
qed (use assms(2) flow_inv_drain flow_inv_start_write flow_inv_send flow_inv_send_fails flow_inv_block
    flow_inv_resume flow_inv_timeout flow_inv_others in auto)

lemma flow_inv_reachable:
  assumes "flow_step\<^sup>*\<^sup>* (flow_init cfg) s"
  shows "flow_inv s"
  using assms by (induction rule: rtranclp_induct) (auto simp: flow_inv_init intro: flow_inv_step)

subsection \<open>Draining always unblocks the writer\<close>

definition drain_measure :: "flow \<Rightarrow> nat \<times> nat \<times> nat" where
  "drain_measure s = (length (f_data s), length (rw_pending (f_rw s)), length (f_ups s))"

definition drain_order :: "((nat \<times> nat \<times> nat) \<times> (nat \<times> nat \<times> nat)) set" where
  "drain_order = less_than <*lex*> less_than <*lex*> less_than"

lemma wf_drain_order: "wf drain_order"
  by (auto simp: drain_order_def)

lemma read_result_decreases:
  assumes inv: "flow_inv s" and p: "rw_pending (f_rw s) \<noteq> []" "0 < room"
    and post: "read_post (f_rw s) (f_mux s) room acc [] res"
  shows "(drain_measure (read_result lenp res s), drain_measure s) \<in> drain_order"
proof -
  obtain out new rw mux d where res: "res = (out, new, rw, mux)"
    and r: "rw_inv (f_mux s) rw" "rw_pending (f_rw s) = d @ rw_pending rw"
      "out = RData (acc @ d) \<and> d \<noteq> [] \<or> out = RBlock (acc @ d) \<and> rw_buffered rw = 0"
    using post p(2) by (auto simp: read_post_def)
  have "length (rw_pending rw) < length (rw_pending (f_rw s))"
    using r(2,3) p(1) rw_pending_Nil_iff [OF r(1)] by auto
  with r(3) show ?thesis
    by (auto simp: res read_result_def Let_def drain_measure_def drain_order_def)
qed

lemma drain_decreases:
  assumes "drain_step s s'" "flow_inv s"
  shows "(drain_measure s', drain_measure s) \<in> drain_order"
  using assms
proof cases
  case (read lenp k fl)
  then have "read_post (f_rw s) (f_mux s) lenp [] [] (rw_Read k fl lenp (f_rw s, f_mux s))"
    using read_result_read [OF assms(2) read(2,5), of lenp fl] by (simp add: reading_acc_def)
  from read_result_decreases [OF assms(2) read(4,3) this] read(1) show ?thesis by simp
next
  case (wakeup lenp acc k fl res)
  then show ?thesis
    using read_result_decreases [OF assms(2) wakeup(4) _ read_result_wakeup [OF assms(2) wakeup(2,5,6)]] by simp
qed (auto simp: drain_measure_def drain_order_def)

lemma drain_blocked: "drain_step s s' \<Longrightarrow> f_blocked s' = f_blocked s"
  by (induction rule: drain_step.induct) (auto simp: read_result_def Let_def split: prod.split read_out.split)

lemma drain_star_inv:
  assumes "drain_step\<^sup>*\<^sup>* s s'" "flow_inv s"
  shows "flow_inv s' \<and> f_blocked s' = f_blocked s"
  using assms by (induction rule: rtranclp_induct) (auto simp: drain_blocked intro: flow_inv_drain)

text \<open>Whatever is under way can be moved on.\<close>

lemma drain_enabled:
  assumes inv: "flow_inv s" and "f_data s \<noteq> [] \<or> f_ups s \<noteq> [] \<or> rw_pending (f_rw s) \<noteq> []"
  shows "\<exists>s'. drain_step s s'"
proof -
  consider (data) part p fs where "f_data s = (part, p) # fs" | (ups) u us where "f_ups s = u # us"
    | (pending) "rw_pending (f_rw s) \<noteq> []"
    using assms(2) by (metis list.exhaust surj_pair)
  then show ?thesis
  proof cases
    case data
    then show ?thesis
      using flow_deliver_spec [OF inv data] drain_step.deliver by metis
  next
    case ups
    then show ?thesis
      using flow_update_spec [OF inv ups] drain_step.update by metis
  next
    case pending
    define k where "k = Suc (length (rq_elems (rw_bufQueue (f_rw s))))"
    show ?thesis
    proof (cases "f_reading s")
      case None
      with pending show ?thesis
        using drain_step.read [of s 1 k] by (auto simp: k_def)
    next
      case (Some r)
      then obtain lenp acc where r: "f_reading s = Some (lenp, acc)" by (cases r) auto
      then obtain e where e: "rw_element (f_rw s) = Some e" "rw_off (f_rw s) = ucast (le_L e)" "length acc < lenp"
        using inv by (auto simp: flow_inv_def flow_reading_ok_def)
      have "budget_ok (f_mux s)" "rw_inv (f_mux s) (f_rw s)" "length (rq_elems (rw_bufQueue (f_rw s))) < k"
        using inv by (simp_all add: flow_inv_def k_def)
      from read_wakeup_post [OF this e(1,2)] obtain res fl where
        "read_wakeup k fl (lenp - length acc) acc PushResume (f_rw s, f_mux s) = Some res"
        by blast
      with r e(3) pending show ?thesis
        using drain_step.wakeup [of s lenp acc k fl res] by (auto simp: k_def)
    qed
  qed
qed

lemma blocked_has_work:
  assumes inv: "flow_inv s" and "f_blocked s" "\<not> sw_token (f_sw s)"
  shows "f_data s \<noteq> [] \<or> f_ups s \<noteq> [] \<or> rw_pending (f_rw s) \<noteq> []"
proof (rule ccontr)
  assume none: "\<not> ?thesis"
  have "smax (f_sw s) \<le> ssend (f_sw s)" "0 < smax (f_sw s)"
    using assms by (auto simp: flow_inv_def flow_sender_ok_def sw_inv_def win_ok_def)
  then have "0 < rw_budget (f_rw s)"
    using inv none by (simp add: flow_inv_def)
  moreover have "rw_buffered (f_rw s) = 0" "rdone (f_rw s) = 0"
    using inv none rw_pending_Nil_iff [of "f_mux s" "f_rw s"] by (auto simp: flow_inv_def rw_inv_def)
  ultimately show False by (simp add: rw_budget_def)
qed

lemma drain_no_infinite:
  assumes "flow_inv (f 0)" "\<And>i. drain_step (f i) (f (Suc i))"
  shows False
proof -
  have "flow_inv (f i)" for i
    by (induction i) (use assms flow_inv_drain in auto)
  then have "\<exists>g. \<forall>i. (g (Suc i), g i) \<in> drain_order"
    using assms(2) drain_decreases by (intro exI [of _ "\<lambda>i. drain_measure (f i)"]) blast
  moreover have "\<not> (\<exists>g. \<forall>i. (g (Suc i), g i) \<in> drain_order)"
    using wf_drain_order by (simp add: wf_iff_no_infinite_down_chain)
  ultimately show False by blast
qed

subsection \<open>A run that fills the window\<close>

text \<open>A writer of a long buffer after \<open>n\<close> segments, while nothing is read.\<close>

definition after_sends :: "bytes \<Rightarrow> nat \<Rightarrow> flow \<Rightarrow> bool" where
  "after_sends buf n s \<longleftrightarrow> \<not> f_blocked s \<and> sw_buf (f_sw s) = buf \<and> unat (sw_off (f_sw s)) = 4085 * n \<and>
     ssend (f_sw s) = 4085 * n \<and> smax (f_sw s) = 122550 \<and> \<not> sw_closed (f_sw s) \<and>
     length (f_data s) = n"

lemma send_run:
  assumes "length buf = 200000" "n \<le> 30"
  shows "\<exists>s. flow_step\<^sup>*\<^sup>* (flow_init cfg) s \<and> after_sends buf n s"
  using assms(2)
proof (induction n)
  case 0
  have "flow_step (flow_init cfg) ((flow_init cfg)\<lparr>f_sw := SetSendBuf buf (f_sw (flow_init cfg))\<rparr>)"
    using assms(1) by (intro flow_step.start_write) (simp_all add: flow_init_def)
  moreover have "after_sends buf 0 ((flow_init cfg)\<lparr>f_sw := SetSendBuf buf (f_sw (flow_init cfg))\<rparr>)"
    using sw_New_simps by (simp add: after_sends_def flow_init_def SetSendBuf_def)
  ultimately show ?case by blast
next
  case (Suc n)
  then obtain s where s: "flow_step\<^sup>*\<^sup>* (flow_init cfg) s" "after_sends buf n s" by auto
  have pre: "sw_ready (f_sw s)" "ssend (f_sw s) < smax (f_sw s)" "seg_len (f_sw s) = 4085"
    using s(2) assms(1) Suc.prems by (simp_all add: after_sends_def sw_ready_def seg_len_def)
  obtain p l part sw where w: "WriteTo (f_sw s) = WSeg p l part sw" "seg_step (f_sw s) sw"
    using WriteTo_seg_step [OF pre(1,2)] by metis
  have "flow_step s (s\<lparr>f_sw := sw, f_data := f_data s @ [(part, p)], f_written := f_written s @ p\<rparr>)"
    using s(2) w(1) by (intro flow_step.send) (simp_all add: after_sends_def)
  moreover have "after_sends buf (Suc n)
      (s\<lparr>f_sw := sw, f_data := f_data s @ [(part, p)], f_written := f_written s @ p\<rparr>)"
    using s(2) w(2) pre(3) by (simp add: after_sends_def seg_step_def)
  ultimately show ?case
    using s(1) by (meson rtranclp.rtrancl_into_rtrancl)
qed

lemma block_run:
  assumes "length (buf :: bytes) = 200000"
  shows "\<exists>s. flow_step\<^sup>*\<^sup>* (flow_init cfg) s \<and> f_blocked s \<and> \<not> f_broken s"
proof -
  obtain s where s: "flow_step\<^sup>*\<^sup>* (flow_init cfg) s" "after_sends buf 30 s"
    using send_run [OF assms, of 30] by auto
  then obtain sw where "WriteTo (f_sw s) = WBlock sw"
    using assms WriteTo_block [of "f_sw s"] by (auto simp: after_sends_def sw_ready_def)
  then have "flow_step s (s\<lparr>f_sw := sw, f_blocked := True\<rparr>)"
    using s(2) by (intro flow_step.block) (simp_all add: after_sends_def)
  with s(1) have "flow_step\<^sup>*\<^sup>* (flow_init cfg) (s\<lparr>f_sw := sw, f_blocked := True\<rparr>)"
    by (rule rtranclp.rtrancl_into_rtrancl)
  moreover have "\<not> f_broken s"
    using flow_inv_reachable [OF s(1)] by (simp add: flow_inv_def)
  ultimately show ?thesis
    by (intro exI [of _ "s\<lparr>f_sw := sw, f_blocked := True\<rparr>"]) simp
qed

subsection \<open>Properties\<close>



text \<open>C2: The sender's outstanding count is always exactly the bytes in flight, the bytes buffered, the
  bytes read but not acknowledged and the bytes acknowledged by updates still under way.  So the bytes
  the receiver has to hold for the stream, now and when all frames have arrived, never exceed the
  configured connection window, whatever window sizes the float estimates chose.\<close>

theorem flow_conservation:
  assumes "flow_step\<^sup>*\<^sup>* (flow_init cfg) s"
  shows "ssend (f_sw s) = length (payload (f_data s)) + unat (rw_buffered (f_rw s)) + rdone (f_rw s) +
       ups_read (f_ups s) \<and>
     unat (rw_buffered (f_rw s)) + length (payload (f_data s)) \<le> unat (maxConnReceiveWindow (f_mux s))"
  using flow_inv_reachable [OF assms] by (auto simp: flow_inv_def flow_sender_ok_def rw_budget_def)

theorem flow_conservation_witness:
  "\<exists>s. flow_step\<^sup>*\<^sup>* (flow_init (DefaultMuxConfig initialPingInterval)) s \<and> length (f_data s) = 3 \<and>
     length (payload (f_data s)) + unat (rw_buffered (f_rw s)) + rdone (f_rw s) + ups_read (f_ups s) = 12255"
proof -
  obtain s where s: "flow_step\<^sup>*\<^sup>* (flow_init (DefaultMuxConfig initialPingInterval)) s"
    "after_sends (replicate 200000 0) 3 s"
    using send_run [of "replicate 200000 0" 3] by auto
  with flow_conservation [OF s(1)] show ?thesis
    by (intro exI [of _ s]) (simp add: after_sends_def)
qed

text \<open>C3: A writer that waits for window space is never stuck.  From every reachable state the steps that
  deliver frames, deliver window updates and read the delivered bytes come to an end, and when none of
  them is possible any more a waiting writer has its wake-up token, so its wait returns.\<close>

theorem flow_no_deadlock:
  assumes "flow_step\<^sup>*\<^sup>* (flow_init cfg) s" "f_blocked s"
  shows "(\<nexists>f. f 0 = s \<and> (\<forall>i. drain_step (f i) (f (Suc i)))) \<and>
     (\<forall>s'. drain_step\<^sup>*\<^sup>* s s' \<longrightarrow> (\<nexists>s''. drain_step s' s'') \<longrightarrow>
        (\<exists>sw. waitReceiveWindow CaseSetSize (f_sw s') = Some (WaitResume sw)))"
proof (intro conjI allI impI)
  have inv: "flow_inv s"
    by (rule flow_inv_reachable [OF assms(1)])
  then show "\<nexists>f. f 0 = s \<and> (\<forall>i. drain_step (f i) (f (Suc i)))"
    using drain_no_infinite by blast
  fix s'
  assume run: "drain_step\<^sup>*\<^sup>* s s'" and stop: "\<nexists>s''. drain_step s' s''"
  have "flow_inv s'" "f_blocked s'"
    using drain_star_inv [OF run inv] assms(2) by simp_all
  then have "sw_token (f_sw s')"
    using stop blocked_has_work drain_enabled by blast
  then show "\<exists>sw. waitReceiveWindow CaseSetSize (f_sw s') = Some (WaitResume sw)"
    by simp
qed

theorem flow_no_deadlock_witness:
  "\<exists>s. flow_step\<^sup>*\<^sup>* (flow_init (DefaultMuxConfig initialPingInterval)) s \<and> f_blocked s \<and>
     (\<nexists>f. f 0 = s \<and> (\<forall>i. drain_step (f i) (f (Suc i))))"
proof -
  obtain s where s: "flow_step\<^sup>*\<^sup>* (flow_init (DefaultMuxConfig initialPingInterval)) s" "f_blocked s"
    using block_run [of "replicate 200000 0" "DefaultMuxConfig initialPingInterval"] by auto
  from flow_no_deadlock [OF s] s show ?thesis by blast
qed

end
