(* ===== verification/Mux_Packager.thy ===== *)
theory Mux_Packager
  imports Mux_Config
begin

text \<open>
  The frames of the multiplexer on the wire: \<open>src/lib/mux/netpackager.go\<close>, the frame flags of
  \<open>src/lib/mux/mux.go\<close> and the buffer rule of \<open>src/lib/mux/pool.go\<close>.

  A writer is the list of bytes written, a reader the list of bytes still to come, so \<open>io.ReadFull\<close>
  is a split of that list or one of its two errors.  A buffer from the pool is an argument \<open>wb\<close>: its
  size is fixed, its old contents are arbitrary.
\<close>

subsection \<open>Fixed-width integers as bytes\<close>

fun put_le :: "nat \<Rightarrow> nat \<Rightarrow> bytes" where
  "put_le 0 v = []"
| "put_le (Suc n) v = word_of_nat v # put_le n (v div 256)"

fun get_le :: "bytes \<Rightarrow> nat" where
  "get_le [] = 0"
| "get_le (b # bs) = unat b + 256 * get_le bs"

definition put_be :: "nat \<Rightarrow> nat \<Rightarrow> bytes" where
  "put_be n v = rev (put_le n v)"

definition get_be :: "bytes \<Rightarrow> nat" where
  "get_be bs = get_le (rev bs)"

lemma length_put_le [simp]: "length (put_le n v) = n"
  by (induction n arbitrary: v) simp_all

lemma get_put_le: "get_le (put_le n v) = v mod 256 ^ n"
proof (induction n arbitrary: v)
  case (Suc n)
  have "unat (word_of_nat v :: uint8) = v mod 256"
    by (simp add: unsigned_of_nat take_bit_eq_mod)
  with Suc show ?case
    by (simp add: mod_mult2_eq mult.commute)
qed simp

lemma get_put_be: "get_be (put_be n v) = v mod 256 ^ n"
  by (simp add: get_be_def put_be_def get_put_le)

lemma length_put_be [simp]: "length (put_be n v) = n"
  by (simp add: put_be_def)

lemma word_get_le [simp]:
  "(word_of_nat (get_le (put_le 2 (unat (x :: uint16)))) :: uint16) = x"
  "(word_of_nat (get_le (put_le 4 (unat (y :: uint32)))) :: uint32) = y"
  "(word_of_nat (get_le (put_le 8 (unat (z :: uint64)))) :: uint64) = z"
  using unat_lt16 [of x] unat_lt32 [of y] unat_lt64 [of z] by (simp_all add: get_put_le)

datatype read_error = ReadEOF | ReadUnexpectedEOF

definition ReadFull :: "nat \<Rightarrow> bytes \<Rightarrow> read_error + (bytes \<times> bytes)" where
  "ReadFull n s =
     (if n \<le> length s then Inr (take n s, drop n s)
      else if s = [] then Inl ReadEOF else Inl ReadUnexpectedEOF)"

lemma ReadFull_append [simp]: "length a = n \<Longrightarrow> ReadFull n (a @ s) = Inr (a, s)"
  by (simp add: ReadFull_def)

subsection \<open>Flags\<close>

definition muxPingFlag :: uint8 where "muxPingFlag = 0"
definition muxNewConnOk :: uint8 where "muxNewConnOk = 1"
definition muxNewConnFail :: uint8 where "muxNewConnFail = 2"
definition muxNewMsg :: uint8 where "muxNewMsg = 3"
definition muxNewMsgPart :: uint8 where "muxNewMsgPart = 4"
definition muxMsgSendOk :: uint8 where "muxMsgSendOk = 5"
definition muxNewConn :: uint8 where "muxNewConn = 6"
definition muxConnClose :: uint8 where "muxConnClose = 7"
definition muxPingReturn :: uint8 where "muxPingReturn = 8"
definition muxPeerHello :: uint8 where "muxPeerHello = 9"
definition muxConnCloseWrite :: uint8 where "muxConnCloseWrite = 10"
definition muxPing :: int32 where "muxPing = -1"

lemmas mux_flags = muxPingFlag_def muxNewConnOk_def muxNewConnFail_def muxNewMsg_def muxNewMsgPart_def
  muxMsgSendOk_def muxNewConn_def muxConnClose_def muxPingReturn_def muxPeerHello_def
  muxConnCloseWrite_def muxPing_def

definition isMuxStreamDataFlag :: "uint8 \<Rightarrow> bool" where
  "isMuxStreamDataFlag flag \<longleftrightarrow> flag = muxNewMsg \<or> flag = muxNewMsgPart"

definition isMuxOrderedCloseFlag :: "uint8 \<Rightarrow> bool" where
  "isMuxOrderedCloseFlag flag \<longleftrightarrow> flag = muxConnClose \<or> flag = muxConnCloseWrite"

definition isMuxStreamOrderedFlag :: "uint8 \<Rightarrow> bool" where
  "isMuxStreamOrderedFlag flag \<longleftrightarrow> isMuxStreamDataFlag flag \<or> isMuxOrderedCloseFlag flag"

definition isMuxImmediateFlushFlag :: "uint8 \<Rightarrow> bool" where
  "isMuxImmediateFlushFlag flag \<longleftrightarrow>
     flag \<in> {muxPingFlag, muxPingReturn, muxPeerHello, muxNewConn, muxNewConnOk, muxNewConnFail,
             muxConnClose, muxConnCloseWrite}"

text \<open>The flags whose frames carry bytes.\<close>

definition has_content :: "uint8 \<Rightarrow> bool" where
  "has_content flag \<longleftrightarrow> flag \<in> {muxNewMsg, muxNewMsgPart, muxPingFlag, muxPingReturn}"

subsection \<open>Building a frame\<close>

record muxPackager =
  pk_flag :: uint8
  pk_id :: int32
  pk_window :: uint64
  pk_priority :: bool
  pk_length :: uint16
  pk_content :: "bytes option"

definition pk_reset :: "muxPackager \<Rightarrow> muxPackager" where
  "pk_reset p = p\<lparr>pk_id := 0, pk_flag := 0, pk_length := 0, pk_content := None, pk_window := 0\<rparr>"

definition pk_new :: muxPackager where
  "pk_new = \<lparr>pk_flag = 0, pk_id = 0, pk_window = 0, pk_priority = False, pk_length = 0, pk_content = None\<rparr>"

definition poolSizeWindowBuffer :: int64 where
  "poolSizeWindowBuffer = poolSizeBuffer"

text \<open>The buffers \<open>Put\<close> takes back: those of the pool's size (a buffer is its whole capacity here).\<close>

definition normalizeForPut :: "bytes \<Rightarrow> int64 \<Rightarrow> bytes option" where
  "normalizeForPut buf sz = (if int (length buf) \<noteq> sz then None else Some buf)"

text \<open>The argument \<open>interface{}\<close> of \<open>Set\<close> by its dynamic type; a nil slice reads as an empty one.\<close>

datatype pk_data = DNil | DBytes bytes | DUint64 uint64

datatype pack_error =
    PkContentNil | PkContentEmpty | PkSegmentTooLarge | PkBufTooSmall | PkContentType | PkWindowType
  | PkRead read_error

definition base_Set :: "bytes \<Rightarrow> bytes \<Rightarrow> muxPackager \<Rightarrow> pack_error + muxPackager" where
  "base_Set wb content p =
     (let n = length content; p = p\<lparr>pk_length := 0\<rparr>
      in if n = 0 then Inl PkContentEmpty
         else if maximumSegmentSize < int n then Inl PkSegmentTooLarge
         else
           (let buf = (case pk_content p of None \<Rightarrow> wb | Some b \<Rightarrow> b)
            in if length buf < n then Inl PkBufTooSmall
               else Inr (p\<lparr>pk_content := Some (content @ drop n buf), pk_length := word_of_nat n\<rparr>)))"

definition pk_GetContent :: "muxPackager \<Rightarrow> bytes option" where
  "pk_GetContent p =
     (case pk_content p of
        None \<Rightarrow> None
      | Some b \<Rightarrow> if pk_length p = 0 then None else Some (take (unat (pk_length p)) b))"

definition pk_Set :: "bytes \<Rightarrow> uint8 \<Rightarrow> int32 \<Rightarrow> pk_data \<Rightarrow> muxPackager \<Rightarrow> pack_error + muxPackager" where
  "pk_Set wb flag cid content p =
     (let p = p\<lparr>pk_flag := flag, pk_id := cid\<rparr>
      in if has_content flag then
           (case content of
              DNil \<Rightarrow> Inl PkContentNil
            | DBytes buf \<Rightarrow> base_Set wb buf p
            | DUint64 _ \<Rightarrow> Inl PkContentType)
         else if flag = muxMsgSendOk then
           (case content of
              DUint64 window \<Rightarrow> Inr (p\<lparr>pk_window := window\<rparr>)
            | _ \<Rightarrow> Inl PkWindowType)
         else Inr p)"

subsection \<open>Writing and reading frames\<close>

definition base_Pack :: "muxPackager \<Rightarrow> bytes" where
  "base_Pack p =
     put_le 2 (unat (pk_length p)) @
     take (unat (pk_length p)) (case pk_content p of None \<Rightarrow> [] | Some b \<Rightarrow> b)"

definition pk_Pack :: "muxPackager \<Rightarrow> bytes \<times> muxPackager" where
  "pk_Pack p =
     (let head = pk_flag p # put_le 4 (unat (pk_id p))
      in if has_content (pk_flag p) then (head @ base_Pack p, p\<lparr>pk_content := None\<rparr>)
         else if pk_flag p = muxMsgSendOk then (head @ put_le 8 (unat (pk_window p)), p)
         else (head, p))"

definition base_UnPack :: "bytes \<Rightarrow> muxPackager \<Rightarrow> bytes \<Rightarrow> pack_error + (uint16 \<times> muxPackager \<times> bytes)" where
  "base_UnPack wb p s =
     (case ReadFull 2 s of
        Inl e \<Rightarrow> Inl (PkRead e)
      | Inr (h, s) \<Rightarrow>
          (let len = word_of_nat (get_le h) :: uint16; p = p\<lparr>pk_length := len\<rparr>
           in if maximumSegmentSize < int (unat len) then Inl PkSegmentTooLarge
              else
                (let buf = (case pk_content p of None \<Rightarrow> wb | Some b \<Rightarrow> b)
                 in if length buf < unat len then Inl PkBufTooSmall
                    else case ReadFull (unat len) s of
                           Inl e \<Rightarrow> Inl (PkRead e)
                         | Inr (c, s) \<Rightarrow>
                             Inr (2 + len, p\<lparr>pk_content := Some (c @ drop (unat len) buf)\<rparr>, s))))"

definition pk_UnPack :: "bytes \<Rightarrow> muxPackager \<Rightarrow> bytes \<Rightarrow> pack_error + (uint16 \<times> muxPackager \<times> bytes)" where
  "pk_UnPack wb p s =
     (case ReadFull 5 s of
        Inl e \<Rightarrow> Inl (PkRead e)
      | Inr (h, s) \<Rightarrow>
          (let p = p\<lparr>pk_flag := hd h, pk_id := word_of_nat (get_le (tl h))\<rparr>
           in if has_content (pk_flag p) then
                (case base_UnPack wb p s of
                   Inl e \<Rightarrow> Inl e
                 | Inr (m, p, s) \<Rightarrow> Inr (5 + m, p, s))
              else if pk_flag p = muxMsgSendOk then
                (case ReadFull 8 s of
                   Inl e \<Rightarrow> Inl (PkRead e)
                 | Inr (w, s) \<Rightarrow> Inr (13, p\<lparr>pk_window := word_of_nat (get_le w)\<rparr>, s))
              else Inr (5, p, s)))"

subsection \<open>What a frame means\<close>

text \<open>The parts of a frame the peer can see.\<close>

datatype frame = Frame (frame_flag: uint8) (frame_id: int32) (frame_data: bytes) (frame_window: uint64)

definition pk_frame :: "muxPackager \<Rightarrow> frame" where
  "pk_frame p = Frame (pk_flag p) (pk_id p)
     (if has_content (pk_flag p) then take (unat (pk_length p)) (case pk_content p of None \<Rightarrow> [] | Some b \<Rightarrow> b) else [])
     (if pk_flag p = muxMsgSendOk then pk_window p else 0)"

text \<open>A frame ready for the wire: \<open>Set\<close> builds only such frames.\<close>

definition pk_ok :: "muxPackager \<Rightarrow> bool" where
  "pk_ok p \<longleftrightarrow> (has_content (pk_flag p) \<longrightarrow>
     (\<exists>b. pk_content p = Some b \<and> unat (pk_length p) \<le> length b) \<and> unat (pk_length p) \<le> 4085)"

lemma has_content_not_SendOk [simp]: "\<not> has_content muxMsgSendOk"
  by (simp add: has_content_def mux_flags)

lemma pk_Set_frame:
  assumes "pk_Set wb flag cid content p = Inr q"
  shows "pk_ok q"
    and "pk_frame q = Frame flag cid (if has_content flag then (case content of DBytes b \<Rightarrow> b | _ \<Rightarrow> []) else [])
      (if flag = muxMsgSendOk then (case content of DUint64 w \<Rightarrow> w | _ \<Rightarrow> 0) else 0)"
proof -
  have *: "pk_ok q' \<and> pk_frame q' = Frame flag cid buf 0"
    if "base_Set wb buf (p\<lparr>pk_flag := flag, pk_id := cid\<rparr>) = Inr q'" "has_content flag" for buf q'
  proof -
    have len: "length buf \<le> 4085" "unat (word_of_nat (length buf) :: uint16) = length buf"
      using that(1) by (auto simp: base_Set_def Let_def mux_consts unat_of_nat_id split: if_splits)
    have "flag \<noteq> muxMsgSendOk"
      using that(2) by auto
    with that len show ?thesis
      by (auto simp: base_Set_def Let_def pk_ok_def pk_frame_def split: if_splits option.splits)
  qed
  show "pk_ok q"
    using assms * by (auto simp: pk_Set_def Let_def pk_ok_def split: if_splits pk_data.splits)
  show "pk_frame q = Frame flag cid (if has_content flag then (case content of DBytes b \<Rightarrow> b | _ \<Rightarrow> []) else [])
      (if flag = muxMsgSendOk then (case content of DUint64 w \<Rightarrow> w | _ \<Rightarrow> 0) else 0)"
  proof (cases "has_content flag")
    case True
    then have "flag \<noteq> muxMsgSendOk" by auto
    with True assms * [of _ q] show ?thesis
      by (auto simp: pk_Set_def Let_def split: pk_data.splits)
  next
    case False
    with assms show ?thesis
      by (auto simp: pk_Set_def Let_def pk_frame_def split: if_splits pk_data.splits)
  qed
qed

lemma base_UnPack_Pack:
  assumes "pk_content q = Some b" "unat (pk_length q) \<le> length b" "unat (pk_length q) \<le> 4085"
    and "pk_content p = None" "length wb = 4096"
  shows "base_UnPack wb p (base_Pack q @ s) =
     Inr (2 + pk_length q, p\<lparr>pk_length := pk_length q,
       pk_content := Some (take (unat (pk_length q)) b @ drop (unat (pk_length q)) wb)\<rparr>, s)"
proof -
  have "int (unat (pk_length q)) \<le> int 4085"
    by (simp only: of_nat_le_iff assms(3))
  moreover have "\<not> 4096 < unat (pk_length q)"
    using assms(3) by linarith
  ultimately show ?thesis
    using assms by (simp add: base_UnPack_def base_Pack_def Let_def mux_consts)
qed

text \<open>A frame survives the wire, with any bytes behind it, into a fresh packager and any pool buffer.\<close>

lemma pk_UnPack_Pack:
  assumes "pk_ok q" "pk_content p = None" "length wb = 4096"
  shows "\<exists>n p'. pk_UnPack wb p (fst (pk_Pack q) @ s) = Inr (n, p', s) \<and>
    pk_frame p' = pk_frame q \<and> unat n = length (fst (pk_Pack q))"
proof -
  let ?p = "p\<lparr>pk_flag := pk_flag q, pk_id := pk_id q\<rparr>"
  have head: "ReadFull 5 (pk_flag q # put_le 4 (unat (pk_id q)) @ t) =
      Inr (pk_flag q # put_le 4 (unat (pk_id q)), t)" for t
    using ReadFull_append [of "pk_flag q # put_le 4 (unat (pk_id q))" 5 t] by simp
  consider (c) "has_content (pk_flag q)" | (w) "pk_flag q = muxMsgSendOk"
    | (n) "\<not> has_content (pk_flag q)" "pk_flag q \<noteq> muxMsgSendOk" by blast
  then show ?thesis
  proof cases
    case c
    then obtain b where b: "pk_content q = Some b" "unat (pk_length q) \<le> length b" "unat (pk_length q) \<le> 4085"
      using assms(1) by (auto simp: pk_ok_def)
    have "pk_flag q \<noteq> muxMsgSendOk"
      using c by auto
    then show ?thesis
      using c b assms base_UnPack_Pack [OF b, of ?p wb s] head
      by (simp add: pk_Pack_def Let_def pk_UnPack_def pk_frame_def base_Pack_def unat_word_ariths)
  next
    case w
    then show ?thesis
      using head by (simp add: pk_Pack_def Let_def pk_UnPack_def pk_frame_def)
  next
    case n
    then show ?thesis
      using head [of s] by (simp add: pk_Pack_def Let_def pk_UnPack_def pk_frame_def)
  qed
qed

subsection \<open>Streams of frames\<close>

text \<open>The read loop on a finite stream: frames until the stream ends between two frames.\<close>

fun unpack_stream :: "nat \<Rightarrow> bytes \<Rightarrow> bytes \<Rightarrow> pack_error + frame list" where
  "unpack_stream 0 wb s = Inr []"
| "unpack_stream (Suc k) wb s =
     (case pk_UnPack wb pk_new s of
        Inl e \<Rightarrow> (if e = PkRead ReadEOF \<and> s = [] then Inr [] else Inl e)
      | Inr (n, p, s) \<Rightarrow> map_sum (\<lambda>e. e) (\<lambda>fs. pk_frame p # fs) (unpack_stream k wb s))"

lemma unpack_packed:
  assumes "\<forall>q \<in> set qs. pk_ok q" "length wb = 4096"
  shows "unpack_stream (Suc (length qs)) wb (concat (map (\<lambda>q. fst (pk_Pack q)) qs)) = Inr (map pk_frame qs)"
  using assms(1)
proof (induction qs)
  case Nil
  then show ?case by (simp add: pk_UnPack_def ReadFull_def)
next
  case (Cons q qs)
  define t where "t = concat (map (\<lambda>q. fst (pk_Pack q)) qs)"
  have "pk_content pk_new = None"
    by (simp add: pk_new_def)
  then obtain n p' where "pk_UnPack wb pk_new (fst (pk_Pack q) @ t) = Inr (n, p', t)"
    "pk_frame p' = pk_frame q"
    using pk_UnPack_Pack [OF _ _ assms(2)] Cons.prems by (metis list.set_intros(1))
  then have "unpack_stream (Suc (Suc (length qs))) wb (fst (pk_Pack q) @ t) =
      map_sum (\<lambda>e. e) (\<lambda>fs. pk_frame q # fs) (unpack_stream (Suc (length qs)) wb t)"
    by (subst unpack_stream.simps(2)) (simp del: unpack_stream.simps)
  moreover have "unpack_stream (Suc (length qs)) wb t = Inr (map pk_frame qs)"
    using Cons unfolding t_def by (simp del: unpack_stream.simps)
  ultimately show ?case by (simp add: t_def del: unpack_stream.simps)
qed

lemma sets_ok:
  "list_all2 (\<lambda>(flag, cid, content, wb0, p) q. pk_Set wb0 flag cid content p = Inr q) calls qs \<Longrightarrow> q \<in> set qs \<Longrightarrow> pk_ok q"
  by (induction rule: list_all2_induct) (auto dest: pk_Set_frame(1))

text \<open>C21: The wire format is a faithful encoding: the frames any sequence of \<open>Set\<close> calls built, written
  one after the other by \<open>Pack\<close>, are read back by \<open>UnPack\<close> as the same frames in the same order (flag,
  stream id, payload, window word), whatever the reused buffers held.\<close>

theorem frames_roundtrip:
  assumes "list_all2 (\<lambda>(flag, cid, content, wb0, p) q. pk_Set wb0 flag cid content p = Inr q) calls qs"
    and "length wb = 4096"
  shows "unpack_stream (Suc (length qs)) wb (concat (map (\<lambda>q. fst (pk_Pack q)) qs)) = Inr (map pk_frame qs)"
  using unpack_packed sets_ok assms by blast

theorem frames_roundtrip_witness:
  "unpack_stream 3 (replicate 4096 7)
     (concat (map (\<lambda>q. fst (pk_Pack q))
       [pk_new\<lparr>pk_flag := muxNewMsg, pk_id := 3, pk_length := 2, pk_content := Some [5, 6]\<rparr>,
        pk_new\<lparr>pk_flag := muxMsgSendOk, pk_id := 3, pk_window := 9\<rparr>])) =
   Inr [Frame muxNewMsg 3 [5, 6] 0, Frame muxMsgSendOk 3 [] 9]"
proof -
  let ?q1 = "pk_new\<lparr>pk_flag := muxNewMsg, pk_id := 3, pk_length := 2, pk_content := Some [5, 6]\<rparr>"
  let ?q2 = "pk_new\<lparr>pk_flag := muxMsgSendOk, pk_id := 3, pk_window := 9\<rparr>"
  have sets: "pk_Set [0, 0] muxNewMsg 3 (DBytes [5, 6]) pk_new = Inr ?q1"
    "pk_Set [] muxMsgSendOk 3 (DUint64 9) pk_new = Inr ?q2"
    by (simp_all add: pk_Set_def Let_def base_Set_def has_content_def mux_flags pk_new_def mux_consts)
  have "list_all2 (\<lambda>(flag, cid, content, wb0, p) q. pk_Set wb0 flag cid content p = Inr q)
     [(muxNewMsg, 3, DBytes [5, 6], [0, 0], pk_new), (muxMsgSendOk, 3, DUint64 9, [], pk_new)] [?q1, ?q2]"
    by (simp only: list_all2_Cons list.rel_inject split_conv sets list_all2_Nil simp_thms)
  note run = frames_roundtrip [OF this length_replicate, of 7]
  have "Suc (length [?q1, ?q2]) = 3"
    "map pk_frame [?q1, ?q2] = [Frame muxNewMsg 3 [5, 6] 0, Frame muxMsgSendOk 3 [] 9]"
    by (simp_all add: pk_frame_def has_content_def mux_flags pk_new_def)
  with run show ?thesis by (simp only:)
qed

end
