(* ===== verification/Mux_Buckets.thy ===== *)
theory Mux_Buckets
  imports Mux_Packager
begin

text \<open>
  The per-stream buckets of the write queue: \<open>src/lib/mux/queue_stream_bucket.go\<close>.

  A bucket is known by its stream id, so the pointers \<open>prevActive\<close> and \<open>nextActive\<close> of the doubly
  linked list of active buckets are optional ids into the map of buckets, and the list is kept by
  pointer updates as in the source.  The frames of a bucket, linked by \<open>queueNext\<close> between \<open>head\<close>
  and \<open>tail\<close>, are a list.  The abstract state is the round-robin order with each stream's frames.
\<close>

record streamBucket =
  sb_queue :: "muxPackager list"
  sb_prev :: "int32 option"
  sb_next :: "int32 option"
  sb_active :: bool

record streamBucketSet =
  bs_buckets :: "int32 \<Rightarrow> streamBucket option"
  bs_activeHead :: "int32 option"
  bs_activeTail :: "int32 option"

definition bs_init :: streamBucketSet where
  "bs_init = \<lparr>bs_buckets = Map.empty, bs_activeHead = None, bs_activeTail = None\<rparr>"

definition bs_hasPending :: "streamBucketSet \<Rightarrow> bool" where
  "bs_hasPending s \<longleftrightarrow> bs_activeHead s \<noteq> None"

definition getStreamBucket :: streamBucket where
  "getStreamBucket = \<lparr>sb_queue = [], sb_prev = None, sb_next = None, sb_active = False\<rparr>"

text \<open>A write through a bucket pointer.\<close>

definition bucket_upd ::
  "int32 option \<Rightarrow> (streamBucket \<Rightarrow> streamBucket) \<Rightarrow> (int32 \<Rightarrow> streamBucket option) \<Rightarrow> int32 \<Rightarrow> streamBucket option" where
  "bucket_upd ptr f B =
     (case ptr of None \<Rightarrow> B | Some i \<Rightarrow> B(i := map_option f (B i)))"

definition appendActive :: "int32 \<Rightarrow> streamBucketSet \<Rightarrow> streamBucketSet" where
  "appendActive i s =
     (let B = bucket_upd (Some i) (\<lambda>b. b\<lparr>sb_active := True, sb_prev := bs_activeTail s, sb_next := None\<rparr>)
                (bs_buckets s)
      in case bs_activeTail s of
           Some t \<Rightarrow> s\<lparr>bs_buckets := bucket_upd (Some t) (\<lambda>b. b\<lparr>sb_next := Some i\<rparr>) B, bs_activeTail := Some i\<rparr>
         | None \<Rightarrow> s\<lparr>bs_buckets := B, bs_activeHead := Some i, bs_activeTail := Some i\<rparr>)"

definition detachActive :: "int32 \<Rightarrow> streamBucketSet \<Rightarrow> streamBucketSet" where
  "detachActive i s =
     (case bs_buckets s i of
        None \<Rightarrow> s
      | Some b \<Rightarrow>
          (let s1 = (if sb_prev b \<noteq> None
                     then s\<lparr>bs_buckets := bucket_upd (sb_prev b) (\<lambda>p. p\<lparr>sb_next := sb_next b\<rparr>) (bs_buckets s)\<rparr>
                     else s\<lparr>bs_activeHead := sb_next b\<rparr>);
               s2 = (if sb_next b \<noteq> None
                     then s1\<lparr>bs_buckets := bucket_upd (sb_next b) (\<lambda>n. n\<lparr>sb_prev := sb_prev b\<rparr>) (bs_buckets s1)\<rparr>
                     else s1\<lparr>bs_activeTail := sb_prev b\<rparr>)
           in s2\<lparr>bs_buckets := bucket_upd (Some i) (\<lambda>b. b\<lparr>sb_prev := None, sb_next := None\<rparr>) (bs_buckets s2)\<rparr>))"

definition moveActiveToTail :: "int32 \<Rightarrow> streamBucketSet \<Rightarrow> streamBucketSet" where
  "moveActiveToTail i s =
     (if Some i = bs_activeTail s then s else appendActive i (detachActive i s))"

definition removeActive :: "int32 \<Rightarrow> streamBucketSet \<Rightarrow> streamBucketSet" where
  "removeActive i s =
     (case bs_buckets s i of
        None \<Rightarrow> s
      | Some b \<Rightarrow>
          (if \<not> sb_active b then s
           else
             (let s1 = detachActive i s
              in s1\<lparr>bs_buckets := bucket_upd (Some i) (\<lambda>b. b\<lparr>sb_active := False\<rparr>) (bs_buckets s1)\<rparr>)))"

definition bs_push :: "muxPackager \<Rightarrow> streamBucketSet \<Rightarrow> streamBucketSet" where
  "bs_push p s =
     (let i = pk_id p;
          b = (case bs_buckets s i of None \<Rightarrow> getStreamBucket | Some b \<Rightarrow> b);
          s1 = s\<lparr>bs_buckets := (bs_buckets s)(i := Some (b\<lparr>sb_queue := sb_queue b @ [p]\<rparr>))\<rparr>
      in if \<not> sb_active b then appendActive i s1 else s1)"

definition bs_pop :: "streamBucketSet \<Rightarrow> muxPackager option \<times> streamBucketSet" where
  "bs_pop s =
     (case bs_activeHead s of
        None \<Rightarrow> (None, s)
      | Some i \<Rightarrow>
          (case bs_buckets s i of
             None \<Rightarrow> (None, s)
           | Some b \<Rightarrow>
               (case sb_queue b of
                  [] \<Rightarrow> (None, s)
                | p # rest \<Rightarrow>
                    (let s1 = s\<lparr>bs_buckets := (bs_buckets s)(i := Some (b\<lparr>sb_queue := rest\<rparr>))\<rparr>
                     in (Some p,
                         if rest = [] then
                           (let s2 = removeActive i s1
                            in s2\<lparr>bs_buckets := (bs_buckets s2)(i := None)\<rparr>)
                         else moveActiveToTail i s1)))))"

subsection \<open>The round-robin order\<close>

type_synonym rr = "(int32 \<times> muxPackager list) list"

definition rr_next :: "rr \<Rightarrow> int32 option" where
  "rr_next xs = (case xs of [] \<Rightarrow> None | (i, _) # _ \<Rightarrow> Some i)"

text \<open>The buckets of \<open>xs\<close> are linked in this order, the first one to \<open>prev\<close>, the last one to \<open>nxt\<close>.\<close>

fun linked :: "int32 option \<Rightarrow> rr \<Rightarrow> int32 option \<Rightarrow> (int32 \<Rightarrow> streamBucket option) \<Rightarrow> bool" where
  "linked prev [] nxt B = True"
| "linked prev ((i, q) # xs) nxt B =
     (B i = Some \<lparr>sb_queue = q, sb_prev = prev,
        sb_next = (case xs of [] \<Rightarrow> nxt | (j, _) # _ \<Rightarrow> Some j), sb_active = True\<rparr> \<and>
      linked (Some i) xs nxt B)"

definition rr_last :: "int32 option \<Rightarrow> rr \<Rightarrow> int32 option" where
  "rr_last prev xs = (if xs = [] then prev else Some (fst (last xs)))"

text \<open>The abstraction relation: the set \<open>s\<close> represents the order \<open>xs\<close>.\<close>

definition bs_rel :: "streamBucketSet \<Rightarrow> rr \<Rightarrow> bool" where
  "bs_rel s xs \<longleftrightarrow>
     linked None xs None (bs_buckets s) \<and> bs_activeHead s = rr_next xs \<and>
     bs_activeTail s = rr_last None xs \<and> dom (bs_buckets s) = fst ` set xs \<and>
     distinct (map fst xs) \<and> (\<forall>(i, q) \<in> set xs. q \<noteq> [] \<and> (\<forall>p \<in> set q. pk_id p = i))"

text \<open>The same operations on the order.\<close>

fun rr_push :: "muxPackager \<Rightarrow> rr \<Rightarrow> rr" where
  "rr_push p [] = [(pk_id p, [p])]"
| "rr_push p ((i, q) # xs) = (if i = pk_id p then (i, q @ [p]) # xs else (i, q) # rr_push p xs)"

fun rr_pop :: "rr \<Rightarrow> muxPackager option \<times> rr" where
  "rr_pop [] = (None, [])"
| "rr_pop ((i, q) # xs) =
     (case q of
        [] \<Rightarrow> (None, (i, q) # xs)
      | p # rest \<Rightarrow> (Some p, if rest = [] then xs else xs @ [(i, rest)]))"

lemma rr_next_simps [simp]: "rr_next [] = None" "rr_next ((i, q) # xs) = Some i"
  by (simp_all add: rr_next_def)

lemma rr_next_append: "rr_next (xs @ ys) = (if xs = [] then rr_next ys else rr_next xs)"
  by (cases xs) (auto simp: rr_next_def split: prod.split)

lemma linked_Cons:
  "linked prev ((i, q) # xs) nxt B \<longleftrightarrow>
     B i = Some \<lparr>sb_queue = q, sb_prev = prev, sb_next = (if xs = [] then nxt else rr_next xs), sb_active = True\<rparr> \<and>
     linked (Some i) xs nxt B"
  by (cases xs) auto

declare linked.simps(2) [simp del]

lemma linked_frame:
  "(\<And>i. i \<in> fst ` set xs \<Longrightarrow> B' i = B i) \<Longrightarrow> linked prev xs nxt B' = linked prev xs nxt B"
  by (induction xs arbitrary: prev) (auto simp: linked_Cons)

lemma linked_fun_upd [simp]:
  "i \<notin> fst ` set xs \<Longrightarrow> linked prev xs nxt (B(i := v)) = linked prev xs nxt B"
  by (rule linked_frame) auto

lemma linked_append:
  "linked prev (xs @ ys) nxt B \<longleftrightarrow>
     linked prev xs (if ys = [] then nxt else rr_next ys) B \<and> linked (rr_last prev xs) ys nxt B"
  by (induction xs arbitrary: prev) (auto simp: linked_Cons rr_last_def rr_next_append)

lemma linked_queue_upd:
  assumes "linked prev ((i, q) # xs) nxt B" "i \<notin> fst ` set xs"
  shows "linked prev ((i, q') # xs) nxt (B(i := Some (the (B i)\<lparr>sb_queue := q'\<rparr>)))"
  using assms by (simp add: linked_Cons)

lemma rr_last_simps [simp]: "rr_last prev [] = prev" "rr_last prev (xs @ [x]) = Some (fst x)"
  by (simp_all add: rr_last_def)

lemma rr_last_Cons: "rr_last prev ((i, q) # xs) = (if xs = [] then Some i else rr_last None xs)"
  by (simp add: rr_last_def)

lemma linked_None_last:
  assumes "linked None xs None B" "xs \<noteq> []"
  shows "\<exists>ys t q. xs = ys @ [(t, q)] \<and> B t = Some \<lparr>sb_queue = q, sb_prev = rr_last None ys, sb_next = None, sb_active = True\<rparr>"
  using assms by (cases xs rule: rev_cases) (auto simp: linked_append linked_Cons)

text \<open>Appending a bucket that is not in the list.\<close>

lemma appendActive_spec:
  assumes lk: "linked None xs None (bs_buckets s)" and i: "i \<notin> fst ` set xs" "bs_buckets s i = Some b"
    and ends: "bs_activeHead s = rr_next xs" "bs_activeTail s = rr_last None xs" and dist: "distinct (map fst xs)"
  shows "linked None (xs @ [(i, sb_queue b)]) None (bs_buckets (appendActive i s))"
    "bs_activeHead (appendActive i s) = rr_next (xs @ [(i, sb_queue b)])"
    "bs_activeTail (appendActive i s) = Some i"
    "dom (bs_buckets (appendActive i s)) = dom (bs_buckets s)"
proof -
  define nb where "nb t = \<lparr>sb_queue = sb_queue b, sb_prev = t, sb_next = None, sb_active = True\<rparr>" for t
  have nb: "b\<lparr>sb_active := True, sb_prev := t, sb_next := None\<rparr> = nb t" for t
    by (simp add: nb_def)
  have *: "linked None (xs @ [(i, sb_queue b)]) None (bs_buckets (appendActive i s)) \<and>
    bs_activeHead (appendActive i s) = rr_next (xs @ [(i, sb_queue b)]) \<and>
    bs_activeTail (appendActive i s) = Some i \<and> dom (bs_buckets (appendActive i s)) = dom (bs_buckets s)"
  proof (cases xs rule: rev_cases)
    case Nil
    then show ?thesis
      using i(2) ends nb by (auto simp: appendActive_def bucket_upd_def linked_Cons nb_def dom_def)
  next
    case (snoc ys tq)
    obtain t q where tq: "tq = (t, q)" by fastforce
    have t: "bs_buckets s t = Some \<lparr>sb_queue = q, sb_prev = rr_last None ys, sb_next = None, sb_active = True\<rparr>"
      "linked None ys (Some t) (bs_buckets s)" "t \<noteq> i" "t \<notin> fst ` set ys" "i \<notin> fst ` set ys"
      using lk dist i(1) by (auto simp: snoc tq linked_append linked_Cons)
    define B where "B = bs_buckets (appendActive i s)"
    have B: "B i = Some (nb (Some t))"
      "B t = Some \<lparr>sb_queue = q, sb_prev = rr_last None ys, sb_next = Some i, sb_active = True\<rparr>"
      "\<And>j. j \<noteq> i \<Longrightarrow> j \<noteq> t \<Longrightarrow> B j = bs_buckets s j"
      using i(2) ends t(1,3) nb by (auto simp: B_def appendActive_def bucket_upd_def snoc tq)
    have "linked None ys (Some t) B"
      using t(2) linked_frame [of ys B "bs_buckets s"] B(3) t(4,5) by (metis image_iff)
    moreover have "dom B = dom (bs_buckets s)"
      using B i(2) t(1) by (auto simp: dom_def) metis+
    moreover have "bs_activeHead (appendActive i s) = rr_next (xs @ [(i, sb_queue b)])"
      "bs_activeTail (appendActive i s) = Some i"
      using ends by (auto simp: appendActive_def snoc tq rr_next_append)
    ultimately show ?thesis
      using B(1,2) by (simp add: snoc tq linked_append linked_Cons nb_def flip: B_def)
  qed
  then show "linked None (xs @ [(i, sb_queue b)]) None (bs_buckets (appendActive i s))"
    "bs_activeHead (appendActive i s) = rr_next (xs @ [(i, sb_queue b)])"
    "bs_activeTail (appendActive i s) = Some i"
    "dom (bs_buckets (appendActive i s)) = dom (bs_buckets s)" by auto
qed

text \<open>Unlinking the head of the list.\<close>

lemma detachActive_spec:
  assumes lk: "linked None ((i, q) # xs) None (bs_buckets s)" and dist: "i \<notin> fst ` set xs" "distinct (map fst xs)"
    and tail: "bs_activeTail s = rr_last None ((i, q) # xs)"
  shows "linked None xs None (bs_buckets (detachActive i s))"
    "bs_activeHead (detachActive i s) = rr_next xs" "bs_activeTail (detachActive i s) = rr_last None xs"
    "dom (bs_buckets (detachActive i s)) = dom (bs_buckets s)"
    "bs_buckets (detachActive i s) i = Some \<lparr>sb_queue = q, sb_prev = None, sb_next = None, sb_active = True\<rparr>"
proof -
  have bi: "bs_buckets s i = Some \<lparr>sb_queue = q, sb_prev = None, sb_next = rr_next xs, sb_active = True\<rparr>"
    using lk by (cases xs) (auto simp: linked_Cons)
  have "linked None xs None (bs_buckets (detachActive i s)) \<and>
    bs_activeHead (detachActive i s) = rr_next xs \<and> bs_activeTail (detachActive i s) = rr_last None xs \<and>
    dom (bs_buckets (detachActive i s)) = dom (bs_buckets s) \<and>
    bs_buckets (detachActive i s) i = Some \<lparr>sb_queue = q, sb_prev = None, sb_next = None, sb_active = True\<rparr>"
  proof (cases xs)
    case Nil
    then show ?thesis
      using bi by (auto simp: detachActive_def bucket_upd_def)
  next
    case (Cons jr ys)
    obtain j r where jr: "jr = (j, r)" by fastforce
    have j: "j \<noteq> i" "j \<notin> fst ` set ys" "i \<notin> fst ` set ys"
      "bs_buckets s j = Some \<lparr>sb_queue = r, sb_prev = Some i, sb_next = (if ys = [] then None else rr_next ys), sb_active = True\<rparr>"
      "linked (Some j) ys None (bs_buckets s)"
      using lk dist by (auto simp: Cons jr linked_Cons)
    define B where "B = bs_buckets (detachActive i s)"
    have B: "B i = Some \<lparr>sb_queue = q, sb_prev = None, sb_next = None, sb_active = True\<rparr>"
      "B j = Some \<lparr>sb_queue = r, sb_prev = None, sb_next = (if ys = [] then None else rr_next ys), sb_active = True\<rparr>"
      "\<And>k. k \<noteq> i \<Longrightarrow> k \<noteq> j \<Longrightarrow> B k = bs_buckets s k"
      using bi j(1,4) by (auto simp: B_def detachActive_def bucket_upd_def Cons jr)
    have "linked (Some j) ys None B"
      using j(5) linked_frame [of ys B "bs_buckets s"] B(3) j(2,3) by (metis image_iff)
    moreover have "dom B = dom (bs_buckets s)"
      using B bi j(4) by (auto simp: dom_def) metis+
    moreover have "bs_activeHead (detachActive i s) = rr_next xs" "bs_activeTail (detachActive i s) = rr_last None xs"
      using bi tail by (simp_all add: detachActive_def Cons jr rr_last_Cons)
    ultimately show ?thesis
      using B(1,2) by (simp add: Cons jr linked_Cons flip: B_def)
  qed
  then show "linked None xs None (bs_buckets (detachActive i s))"
    "bs_activeHead (detachActive i s) = rr_next xs" "bs_activeTail (detachActive i s) = rr_last None xs"
    "dom (bs_buckets (detachActive i s)) = dom (bs_buckets s)"
    "bs_buckets (detachActive i s) i = Some \<lparr>sb_queue = q, sb_prev = None, sb_next = None, sb_active = True\<rparr>"
    by auto
qed

subsection \<open>The pointer structure implements the order\<close>

lemma bs_rel_init: "bs_rel bs_init []"
  by (simp add: bs_rel_def bs_init_def)

lemma rr_push_old:
  "pk_id p \<notin> fst ` set as \<Longrightarrow> rr_push p (as @ (pk_id p, q) # bs) = as @ (pk_id p, q @ [p]) # bs"
  by (induction as) auto

lemma rr_push_new: "pk_id p \<notin> fst ` set xs \<Longrightarrow> rr_push p xs = xs @ [(pk_id p, [p])]"
  by (induction xs) auto

lemma bs_push_old:
  assumes rel: "bs_rel s (as @ (pk_id p, q) # bs)"
  shows "bs_rel (bs_push p s) (as @ (pk_id p, q @ [p]) # bs)"
proof -
  let ?i = "pk_id p" and ?B = "bs_buckets s"
  have i: "?i \<notin> fst ` set as" "?i \<notin> fst ` set bs"
    using rel by (auto simp: bs_rel_def)
  have lk: "linked None as (Some ?i) ?B" "linked (rr_last None as) ((?i, q) # bs) None ?B"
    using rel by (auto simp: bs_rel_def linked_append)
  then obtain b where b: "?B ?i = Some b" "sb_active b" "sb_queue b = q"
    by (auto simp: linked_Cons)
  let ?B' = "?B(?i := Some (b\<lparr>sb_queue := q @ [p]\<rparr>))"
  have push: "bs_push p s = s\<lparr>bs_buckets := ?B'\<rparr>"
    using b by (simp add: bs_push_def Let_def)
  have "linked None as (Some ?i) ?B'"
    using lk(1) i(1) by simp
  moreover have "linked (rr_last None as) ((?i, q @ [p]) # bs) None ?B'"
    using linked_queue_upd [OF lk(2) i(2), of "q @ [p]"] b(1) by simp
  moreover have "dom ?B' = dom ?B"
    using b(1) by (auto simp: dom_def)
  ultimately show ?thesis
    using rel by (auto simp: bs_rel_def push linked_append rr_next_append rr_last_def)
qed

lemma bs_push_new:
  assumes rel: "bs_rel s xs" and i: "pk_id p \<notin> fst ` set xs"
  shows "bs_rel (bs_push p s) (xs @ [(pk_id p, [p])])"
proof -
  let ?i = "pk_id p"
  define s1 where "s1 = s\<lparr>bs_buckets := (bs_buckets s)(?i := Some (getStreamBucket\<lparr>sb_queue := [p]\<rparr>))\<rparr>"
  have none: "bs_buckets s ?i = None"
    using rel i by (auto simp: bs_rel_def dom_def)
  have push: "bs_push p s = appendActive ?i s1"
    by (simp add: bs_push_def Let_def none s1_def getStreamBucket_def)
  have "linked None xs None (bs_buckets s1)"
    using rel i by (simp add: bs_rel_def s1_def)
  from appendActive_spec [OF this i, of "getStreamBucket\<lparr>sb_queue := [p]\<rparr>"]
  show ?thesis
    using rel i by (simp add: bs_rel_def push s1_def getStreamBucket_def)
qed

lemma bs_push_rel:
  assumes "bs_rel s xs"
  shows "bs_rel (bs_push p s) (rr_push p xs)"
proof (cases "pk_id p \<in> fst ` set xs")
  case True
  then obtain as q bs where xs: "xs = as @ (pk_id p, q) # bs"
    by (auto dest: split_list)
  then have "pk_id p \<notin> fst ` set as"
    using assms by (auto simp: bs_rel_def)
  with xs assms bs_push_old show ?thesis
    by (simp add: rr_push_old)
next
  case False
  with assms bs_push_new show ?thesis
    by (simp add: rr_push_new)
qed

lemma removeActive_head:
  assumes lk: "linked None ((i, q) # ys) None (bs_buckets s)" and ys: "i \<notin> fst ` set ys" "distinct (map fst ys)"
    and tail: "bs_activeTail s = rr_last None ((i, q) # ys)" and dom: "dom (bs_buckets s) = insert i (fst ` set ys)"
    and ok: "\<forall>(i, q) \<in> set ys. q \<noteq> [] \<and> (\<forall>p \<in> set q. pk_id p = i)"
  shows "bs_rel (let s2 = removeActive i s in s2\<lparr>bs_buckets := (bs_buckets s2)(i := None)\<rparr>) ys"
proof -
  note det = detachActive_spec [OF lk ys tail]
  obtain b where b: "bs_buckets s i = Some b" "sb_active b"
    using lk by (auto simp: linked_Cons)
  define s' where "s' = (let s2 = removeActive i s in s2\<lparr>bs_buckets := (bs_buckets s2)(i := None)\<rparr>)"
  have "bs_buckets s' = (bs_buckets (detachActive i s))(i := None)"
    "bs_activeHead s' = bs_activeHead (detachActive i s)" "bs_activeTail s' = bs_activeTail (detachActive i s)"
    using b by (auto simp: s'_def removeActive_def Let_def bucket_upd_def)
  then show ?thesis
    using det dom ys ok unfolding s'_def [symmetric] by (auto simp: bs_rel_def)
qed

lemma moveActive_head:
  assumes lk: "linked None ((i, q) # ys) None (bs_buckets s)" and ys: "i \<notin> fst ` set ys" "distinct (map fst ys)"
    and ends: "bs_activeHead s = Some i" "bs_activeTail s = rr_last None ((i, q) # ys)"
    and dom: "dom (bs_buckets s) = insert i (fst ` set ys)"
    and ok: "\<forall>(i, q) \<in> set ((i, q) # ys). q \<noteq> [] \<and> (\<forall>p \<in> set q. pk_id p = i)"
  shows "bs_rel (moveActiveToTail i s) (ys @ [(i, q)])"
proof (cases "ys = []")
  case True
  with assms show ?thesis
    by (auto simp: moveActiveToTail_def bs_rel_def rr_last_def)
next
  case False
  then have "bs_activeTail s \<noteq> Some i"
    using ys(1) ends(2) by (auto simp: rr_last_def)
  then have move: "moveActiveToTail i s = appendActive i (detachActive i s)"
    by (auto simp: moveActiveToTail_def)
  note det = detachActive_spec [OF lk ys ends(2)]
  note app = appendActive_spec [OF det(1) ys(1) det(5,2,3) ys(2)]
  show ?thesis
    using app det dom ys ok by (auto simp: bs_rel_def move)
qed

lemma bs_pop_rel:
  assumes rel: "bs_rel s xs" and pop: "bs_pop s = (r, s')"
  shows "bs_rel s' (snd (rr_pop xs)) \<and> r = fst (rr_pop xs)"
proof (cases xs)
  case Nil
  with rel pop show ?thesis
    by (auto simp: bs_pop_def bs_rel_def)
next
  case (Cons iq ys)
  obtain i q where iq: "iq = (i, q)" by fastforce
  obtain p rest where q: "q = p # rest" "pk_id p = i"
    using rel by (cases q) (auto simp: bs_rel_def Cons iq)
  have ys: "i \<notin> fst ` set ys" "distinct (map fst ys)"
    using rel by (auto simp: bs_rel_def Cons iq)
  define b where "b = \<lparr>sb_queue = q, sb_prev = None, sb_next = rr_next ys, sb_active = True\<rparr>"
  have b: "bs_buckets s i = Some b" "bs_activeHead s = Some i"
    using rel by (cases ys; auto simp: bs_rel_def Cons iq linked_Cons b_def)+
  define s1 where "s1 = s\<lparr>bs_buckets := (bs_buckets s)(i := Some (b\<lparr>sb_queue := rest\<rparr>))\<rparr>"
  have lk: "linked None ((i, rest) # ys) None (bs_buckets s1)"
    using rel ys(1) by (cases ys) (auto simp: bs_rel_def Cons iq linked_Cons s1_def b_def)
  have s1: "bs_activeTail s1 = rr_last None ((i, rest) # ys)" "dom (bs_buckets s1) = dom (bs_buckets s)"
    using rel b(1) by (auto simp: s1_def bs_rel_def Cons iq rr_last_def)
  have out: "r = Some p" "s' = (if rest = [] then (let s2 = removeActive i s1 in s2\<lparr>bs_buckets := (bs_buckets s2)(i := None)\<rparr>)
      else moveActiveToTail i s1)"
    using pop b by (auto simp: bs_pop_def b_def q Let_def s1_def)
  have ok: "dom (bs_buckets s1) = insert i (fst ` set ys)"
    "\<forall>(i, q) \<in> set ys. q \<noteq> [] \<and> (\<forall>p \<in> set q. pk_id p = i)"
    "rest \<noteq> [] \<Longrightarrow> \<forall>(i, q) \<in> set ((i, rest) # ys). q \<noteq> [] \<and> (\<forall>p \<in> set q. pk_id p = i)"
    using rel s1(2) by (auto simp: bs_rel_def Cons iq q)
  show ?thesis
    using removeActive_head [OF lk ys s1(1) ok(1,2)] moveActive_head [OF lk ys _ s1(1) ok(1,3)] out b(2)
    by (auto simp: Cons iq q s1_def)
qed

end
