(* ===== verification/Mux_Queue.thy ===== *)
theory Mux_Queue
  imports Mux_Buckets
begin

text \<open>
  The write queue of a session: \<open>src/lib/mux/queue.go\<close>, with the writers' side of its back-pressure
  (\<open>applyWriteBackpressure\<close> of \<open>src/lib/mux/mux_io.go\<close>).

  Control frames are a list (linked by \<open>queueNext\<close> in the source).  An operation that signals the
  condition variable reports it: \<open>Push\<close> signals one waiter, \<open>TryPop\<close> returns the flag of a broadcast.
\<close>

record priorityQueue =
  pq_length :: uint64
  pq_control :: "muxPackager list"
  pq_priorityStreams :: streamBucketSet
  pq_streams :: streamBucketSet
  pq_priorityBurst :: uint8
  pq_highWater :: uint64
  pq_lowWater :: uint64
  pq_stop :: bool

definition pq_New :: priorityQueue where
  "pq_New =
     (let (h, l) = normalizeWriteQueueWatermarks 0 0
      in \<lparr>pq_length = 0, pq_control = [], pq_priorityStreams = bs_init, pq_streams = bs_init,
          pq_priorityBurst = 0, pq_highWater = h, pq_lowWater = l, pq_stop = False\<rparr>)"

definition ConfigureWatermarks :: "uint64 \<Rightarrow> uint64 \<Rightarrow> priorityQueue \<Rightarrow> priorityQueue" where
  "ConfigureWatermarks high low q =
     (let (h, l) = normalizeWriteQueueWatermarks high low in q\<lparr>pq_highWater := h, pq_lowWater := l\<rparr>)"

definition pushControl :: "muxPackager \<Rightarrow> priorityQueue \<Rightarrow> priorityQueue" where
  "pushControl p q = q\<lparr>pq_control := pq_control q @ [p]\<rparr>"

definition pq_push :: "muxPackager \<Rightarrow> priorityQueue \<Rightarrow> priorityQueue" where
  "pq_push p q =
     (if isMuxStreamOrderedFlag (pk_flag p) then
        (if pk_priority p then q\<lparr>pq_priorityStreams := bs_push p (pq_priorityStreams q)\<rparr>
         else q\<lparr>pq_streams := bs_push p (pq_streams q)\<rparr>)
      else pushControl p q)"

definition pq_Push :: "muxPackager \<Rightarrow> priorityQueue \<Rightarrow> bool \<times> priorityQueue" where
  "pq_Push p q =
     (if pq_stop q then (False, q)
      else (True, pq_push p (q\<lparr>pq_length := pq_length q + 1\<rparr>)))"

definition afterPop :: "priorityQueue \<Rightarrow> bool \<times> priorityQueue" where
  "afterPop q =
     (let newLen = pq_length q + NOT 0
      in (newLen < pq_lowWater q \<and> pq_lowWater q \<le> newLen + 1, q\<lparr>pq_length := newLen\<rparr>))"

definition maxPriorityBurst :: uint8 where
  "maxPriorityBurst = 8"

definition popControl :: "priorityQueue \<Rightarrow> muxPackager option \<times> priorityQueue" where
  "popControl q =
     (case pq_control q of [] \<Rightarrow> (None, q) | p # rest \<Rightarrow> (Some p, q\<lparr>pq_control := rest\<rparr>))"

definition popStream :: "priorityQueue \<Rightarrow> muxPackager option \<times> priorityQueue" where
  "popStream q =
     (let priorityReady = bs_hasPending (pq_priorityStreams q);
          normalReady = bs_hasPending (pq_streams q);
          first = (if priorityReady \<and> (\<not> normalReady \<or> pq_priorityBurst q < maxPriorityBurst)
                   then Some (bs_pop (pq_priorityStreams q)) else None)
      in case first of
           Some (Some p, bs) \<Rightarrow>
             (Some p, q\<lparr>pq_priorityStreams := bs,
                pq_priorityBurst := (if normalReady then pq_priorityBurst q + 1 else 0)\<rparr>)
         | _ \<Rightarrow>
           (let q1 = (case first of None \<Rightarrow> q | Some (_, bs) \<Rightarrow> q\<lparr>pq_priorityStreams := bs\<rparr>);
                priorityReady = (priorityReady \<and> first = None);
                second = (if normalReady then Some (bs_pop (pq_streams q1)) else None)
            in case second of
                 Some (Some p, bs) \<Rightarrow> (Some p, q1\<lparr>pq_streams := bs, pq_priorityBurst := 0\<rparr>)
               | _ \<Rightarrow>
                 (let q2 = (case second of None \<Rightarrow> q1 | Some (_, bs) \<Rightarrow> q1\<lparr>pq_streams := bs\<rparr>)
                  in if priorityReady then
                       (case bs_pop (pq_priorityStreams q2) of
                          (Some p, bs) \<Rightarrow> (Some p, q2\<lparr>pq_priorityStreams := bs, pq_priorityBurst := 0\<rparr>)
                        | (None, bs) \<Rightarrow> (None, q2\<lparr>pq_priorityStreams := bs\<rparr>))
                     else (None, q2))))"

text \<open>The frame, the broadcast of \<open>afterPop\<close> and the new queue.\<close>

definition pq_TryPop :: "priorityQueue \<Rightarrow> muxPackager option \<times> bool \<times> priorityQueue" where
  "pq_TryPop q =
     (case popControl q of
        (Some p, q1) \<Rightarrow> (Some p, afterPop q1)
      | (None, q1) \<Rightarrow>
          (case popStream q1 of
             (Some p, q2) \<Rightarrow> (Some p, afterPop q2)
           | (None, q2) \<Rightarrow> (None, False, q2)))"

datatype pop_out = PopFrame muxPackager bool priorityQueue | PopStopped priorityQueue | PopWait priorityQueue

definition pq_Pop :: "priorityQueue \<Rightarrow> pop_out" where
  "pq_Pop q =
     (case pq_TryPop q of
        (Some p, b, q') \<Rightarrow> PopFrame p b q'
      | (None, _, q') \<Rightarrow> if pq_stop q' then PopStopped q' else PopWait q')"

definition pq_Stop :: "priorityQueue \<Rightarrow> priorityQueue" where
  "pq_Stop q = q\<lparr>pq_stop := True\<rparr>"

text \<open>A writer enters the wait when the queue is at the high mark and then waits while it is at the
  low mark or above; \<open>muxClosed\<close> is \<open>IsClosed\<close> of the session.\<close>

definition bp_enters :: "uint8 \<Rightarrow> bool \<Rightarrow> priorityQueue \<Rightarrow> bool" where
  "bp_enters flag priority q \<longleftrightarrow>
     \<not> priority \<and> isMuxStreamDataFlag flag \<and> pq_highWater q \<le> pq_length q"

definition bp_waits :: "bool \<Rightarrow> priorityQueue \<Rightarrow> bool" where
  "bp_waits muxClosed q \<longleftrightarrow> \<not> muxClosed \<and> \<not> pq_stop q \<and> pq_lowWater q \<le> pq_length q"

subsection \<open>The queue as control frames and two round-robin orders\<close>

definition rr_total :: "rr \<Rightarrow> nat" where
  "rr_total xs = sum_list (map (length \<circ> snd) xs)"

definition rr_frames :: "rr \<Rightarrow> muxPackager set" where
  "rr_frames xs = (\<Union>(i, q) \<in> set xs. set q)"

definition pq_rel :: "priorityQueue \<Rightarrow> rr \<Rightarrow> rr \<Rightarrow> bool" where
  "pq_rel q pr st \<longleftrightarrow>
     bs_rel (pq_priorityStreams q) pr \<and> bs_rel (pq_streams q) st \<and>
     unat (pq_length q) = length (pq_control q) + rr_total pr + rr_total st \<and>
     (\<forall>p \<in> set (pq_control q). \<not> isMuxStreamOrderedFlag (pk_flag p)) \<and>
     (\<forall>p \<in> rr_frames pr. isMuxStreamOrderedFlag (pk_flag p) \<and> pk_priority p) \<and>
     (\<forall>p \<in> rr_frames st. isMuxStreamOrderedFlag (pk_flag p) \<and> \<not> pk_priority p) \<and>
     pq_priorityBurst q \<le> maxPriorityBurst"

lemma bs_hasPending_rel: "bs_rel s xs \<Longrightarrow> bs_hasPending s \<longleftrightarrow> xs \<noteq> []"
  by (cases xs) (auto simp: bs_rel_def bs_hasPending_def)

lemma rr_pop_cons:
  assumes "bs_rel s xs" "xs \<noteq> []"
  obtains p bs where "bs_pop s = (Some p, bs)" "rr_pop xs = (Some p, snd (rr_pop xs))" "bs_rel bs (snd (rr_pop xs))"
proof -
  obtain r bs where pop: "bs_pop s = (r, bs)" by fastforce
  obtain i q ys where xs: "xs = (i, q) # ys"
    using assms(2) by (cases xs) auto
  obtain p rest where q: "q = p # rest"
    using assms(1) by (cases q) (auto simp: bs_rel_def xs)
  have "bs_rel bs (snd (rr_pop xs)) \<and> r = fst (rr_pop xs)"
    by (rule bs_pop_rel [OF assms(1) pop])
  with that [of p bs] pop q show ?thesis by (simp add: xs)
qed

lemma rr_total_simps [simp]:
  "rr_total [] = 0" "rr_total (x # xs) = length (snd x) + rr_total xs" "rr_total (xs @ ys) = rr_total xs + rr_total ys"
  by (simp_all add: rr_total_def)

lemma rr_frames_simps [simp]:
  "rr_frames [] = {}" "rr_frames ((i, q) # xs) = set q \<union> rr_frames xs"
  "rr_frames (xs @ ys) = rr_frames xs \<union> rr_frames ys"
  by (auto simp: rr_frames_def)

lemma rr_push_total [simp]: "rr_total (rr_push p xs) = Suc (rr_total xs)"
  by (induction xs) auto

lemma rr_push_frames [simp]: "rr_frames (rr_push p xs) = insert p (rr_frames xs)"
  by (induction xs) (auto split: if_splits)

lemma rr_pop_props:
  assumes "rr_pop xs = (Some p, ys)"
  shows "rr_total xs = Suc (rr_total ys)" "rr_frames xs = insert p (rr_frames ys)"
  using assms by (cases xs; auto split: list.splits if_splits)+

lemma popStream_cases:
  assumes rel: "pq_rel q pr st"
  obtains (none) "pr = []" "st = []" "popStream q = (None, q)"
  | (prio) p bs where "pr \<noteq> []" "st = [] \<or> pq_priorityBurst q < maxPriorityBurst"
      "rr_pop pr = (Some p, snd (rr_pop pr))" "bs_rel bs (snd (rr_pop pr))"
      "popStream q = (Some p, q\<lparr>pq_priorityStreams := bs,
         pq_priorityBurst := (if st \<noteq> [] then pq_priorityBurst q + 1 else 0)\<rparr>)"
  | (norm) p bs where "st \<noteq> []" "pr = [] \<or> \<not> pq_priorityBurst q < maxPriorityBurst"
      "rr_pop st = (Some p, snd (rr_pop st))" "bs_rel bs (snd (rr_pop st))"
      "popStream q = (Some p, q\<lparr>pq_streams := bs, pq_priorityBurst := 0\<rparr>)"
proof -
  have r: "bs_rel (pq_priorityStreams q) pr" "bs_rel (pq_streams q) st"
    using rel by (simp_all add: pq_rel_def)
  note ready = bs_hasPending_rel [OF r(1)] bs_hasPending_rel [OF r(2)]
  consider "pr = []" "st = []" | "pr \<noteq> []" "st = [] \<or> pq_priorityBurst q < maxPriorityBurst"
    | "st \<noteq> []" "pr = [] \<or> \<not> pq_priorityBurst q < maxPriorityBurst" by blast
  then show ?thesis
  proof cases
    case 1
    then show ?thesis by (intro none) (simp_all add: popStream_def ready)
  next
    case 2
    obtain p bs where "bs_pop (pq_priorityStreams q) = (Some p, bs)" "rr_pop pr = (Some p, snd (rr_pop pr))"
      "bs_rel bs (snd (rr_pop pr))"
      using rr_pop_cons [OF r(1) 2(1)] .
    with 2 show ?thesis by (intro prio) (auto simp: popStream_def ready Let_def)
  next
    case 3
    obtain p bs where "bs_pop (pq_streams q) = (Some p, bs)" "rr_pop st = (Some p, snd (rr_pop st))"
      "bs_rel bs (snd (rr_pop st))"
      using rr_pop_cons [OF r(2) 3(1)] .
    with 3 show ?thesis by (intro norm) (auto simp: popStream_def ready Let_def)
  qed
qed

lemma pq_rel_New: "pq_rel pq_New [] []"
  by (simp add: pq_rel_def pq_New_def bs_rel_init maxPriorityBurst_def split: prod.split)

lemma pq_rel_Configure: "pq_rel (ConfigureWatermarks h l q) pr st = pq_rel q pr st"
  by (simp add: pq_rel_def ConfigureWatermarks_def split: prod.split)

text \<open>The orders after a frame was queued.\<close>

definition pr_push :: "muxPackager \<Rightarrow> rr \<Rightarrow> rr" where
  "pr_push p pr = (if isMuxStreamOrderedFlag (pk_flag p) \<and> pk_priority p then rr_push p pr else pr)"

definition st_push :: "muxPackager \<Rightarrow> rr \<Rightarrow> rr" where
  "st_push p st = (if isMuxStreamOrderedFlag (pk_flag p) \<and> \<not> pk_priority p then rr_push p st else st)"

lemma pq_Push_rel:
  assumes rel: "pq_rel q pr st" and room: "unat (pq_length q) < 18446744073709551615"
    and push: "pq_Push p q = (True, q')"
  shows "pq_rel q' (pr_push p pr) (st_push p st)"
    "pq_control q' = pq_control q @ (if isMuxStreamOrderedFlag (pk_flag p) then [] else [p])"
proof -
  have "unat (pq_length q + 1) = Suc (unat (pq_length q))"
    using room by (simp add: unat_word_ariths)
  then show "pq_rel q' (pr_push p pr) (st_push p st)"
    using rel push bs_push_rel
    by (auto simp: pq_Push_def pq_push_def pushControl_def pq_rel_def pr_push_def st_push_def split: if_splits)
  show "pq_control q' = pq_control q @ (if isMuxStreamOrderedFlag (pk_flag p) then [] else [p])"
    using push by (auto simp: pq_Push_def pq_push_def pushControl_def split: if_splits)
qed

subsection \<open>Order within a stream\<close>

text \<open>The frames whose order the queue keeps: all control frames, and the frames of one stream.\<close>

datatype qclass = QControl | QStream bool int32

definition pk_class :: "muxPackager \<Rightarrow> qclass" where
  "pk_class p = (if isMuxStreamOrderedFlag (pk_flag p) then QStream (pk_priority p) (pk_id p) else QControl)"

fun rr_stream :: "int32 \<Rightarrow> rr \<Rightarrow> muxPackager list" where
  "rr_stream i [] = []"
| "rr_stream i ((j, q) # xs) = (if i = j then q else rr_stream i xs)"

fun queued :: "qclass \<Rightarrow> muxPackager list \<Rightarrow> rr \<Rightarrow> rr \<Rightarrow> muxPackager list" where
  "queued QControl ctl pr st = ctl"
| "queued (QStream prio i) ctl pr st = rr_stream i (if prio then pr else st)"

lemma rr_stream_push:
  "rr_stream i (rr_push p xs) = rr_stream i xs @ (if pk_id p = i then [p] else [])"
  by (induction xs) auto

lemma rr_stream_append:
  "rr_stream i (xs @ ys) = (if i \<in> fst ` set xs then rr_stream i xs else rr_stream i ys)"
  by (induction xs) force+

lemma rr_stream_notin: "i \<notin> fst ` set xs \<Longrightarrow> rr_stream i xs = []"
  by (induction xs) auto

lemma rr_stream_pop:
  assumes "rr_pop xs = (Some p, ys)" "distinct (map fst xs)" "\<forall>(i, q) \<in> set xs. \<forall>p \<in> set q. pk_id p = i"
  shows "rr_stream i xs = (if pk_id p = i then [p] else []) @ rr_stream i ys"
proof -
  obtain j q zs where xs: "xs = (j, q) # zs"
    using assms(1) by (cases xs) auto
  obtain rest where q: "q = p # rest" "pk_id p = j"
    using assms(1,3) by (cases q) (auto simp: xs)
  have ys: "ys = (if rest = [] then zs else zs @ [(j, rest)])"
    using assms(1) by (simp add: xs q)
  have "j \<notin> fst ` set zs"
    using assms(2) by (simp add: xs)
  then show ?thesis
    using q(2) by (auto simp: xs q(1) ys rr_stream_append rr_stream_notin)
qed

lemma pq_Push_queued:
  assumes "pq_Push p q = (True, q')"
  shows "queued c (pq_control q') (pr_push p pr) (st_push p st) =
    queued c (pq_control q) pr st @ (if pk_class p = c then [p] else [])"
  using assms
  by (cases c) (auto simp: pq_Push_def pq_push_def pushControl_def pr_push_def st_push_def pk_class_def
      rr_stream_push split: if_splits)

lemma Suc_unat_dec: "0 < unat x \<Longrightarrow> Suc (unat (x - 1)) = unat x" for x :: uint64
proof -
  assume "0 < unat x"
  then have "1 \<le> unat x" by linarith
  then show ?thesis by (simp add: unat_sub_if')
qed

lemma pq_rel_decr:
  assumes "unat (pq_length q) = Suc (length (pq_control q) + rr_total pr + rr_total st)"
    and "bs_rel (pq_priorityStreams q) pr" "bs_rel (pq_streams q) st"
    and "\<forall>p \<in> set (pq_control q). \<not> isMuxStreamOrderedFlag (pk_flag p)"
    and "\<forall>p \<in> rr_frames pr. isMuxStreamOrderedFlag (pk_flag p) \<and> pk_priority p"
    and "\<forall>p \<in> rr_frames st. isMuxStreamOrderedFlag (pk_flag p) \<and> \<not> pk_priority p"
    and "pq_priorityBurst q \<le> maxPriorityBurst"
  shows "pq_rel (snd (afterPop q)) pr st"
  using assms Suc_unat_dec [of "pq_length q"] by (simp add: pq_rel_def afterPop_def Let_def not_eq_complement)

text \<open>What a successful pop of frame \<open>p\<close> guarantees.\<close>

definition pop_ok :: "muxPackager \<Rightarrow> priorityQueue \<Rightarrow> rr \<Rightarrow> rr \<Rightarrow> priorityQueue \<Rightarrow> rr \<Rightarrow> rr \<Rightarrow> bool" where
  "pop_ok p q pr st q' pr' st' \<longleftrightarrow>
     pq_rel q' pr' st' \<and> Suc (unat (pq_length q')) = unat (pq_length q) \<and>
     (\<forall>c. queued c (pq_control q) pr st = (if pk_class p = c then [p] else []) @ queued c (pq_control q') pr' st')"

lemma afterPop_simps [simp]:
  "pq_control (snd (afterPop q)) = pq_control q" "pq_length (snd (afterPop q)) = pq_length q - 1"
  "pq_streams (snd (afterPop q)) = pq_streams q" "pq_priorityStreams (snd (afterPop q)) = pq_priorityStreams q"
  "pq_priorityBurst (snd (afterPop q)) = pq_priorityBurst q" "pq_stop (snd (afterPop q)) = pq_stop q"
  "pq_lowWater (snd (afterPop q)) = pq_lowWater q" "pq_highWater (snd (afterPop q)) = pq_highWater q"
  by (simp_all add: afterPop_def Let_def not_eq_complement)

text \<open>The classes a pop does not touch keep their frames.\<close>

lemma pop_okI:
  assumes "pq_rel (snd (afterPop q1)) pr' st'" "pq_length q1 = pq_length q" "0 < unat (pq_length q)"
    and "pq_control q = (if pk_class p = QControl then [p] else []) @ pq_control q1"
    and "\<And>i. rr_stream i pr = (if pk_class p = QStream True i then [p] else []) @ rr_stream i pr'"
    and "\<And>i. rr_stream i st = (if pk_class p = QStream False i then [p] else []) @ rr_stream i st'"
  shows "pop_ok p q pr st (snd (afterPop q1)) pr' st'"
proof -
  have "queued c (pq_control q) pr st = (if pk_class p = c then [p] else []) @ queued c (pq_control q1) pr' st'" for c
    using assms(4-6) by (cases c) simp_all
  then show ?thesis
    using assms(1-3) Suc_unat_dec [of "pq_length q"] by (simp add: pop_ok_def)
qed

lemma burst_step:
  "b < maxPriorityBurst \<Longrightarrow> b + 1 \<le> maxPriorityBurst \<and> unat (b + 1) = Suc (unat b)"
proof -
  assume "b < maxPriorityBurst"
  then have "unat b < 8"
    by (simp add: maxPriorityBurst_def word_less_nat_alt)
  then show ?thesis
    by (simp add: maxPriorityBurst_def word_le_nat_alt unat_word_ariths)
qed

lemma pop_ok_control:
  assumes rel: "pq_rel q pr st" and c: "pq_control q = p # rest"
  shows "pop_ok p q pr st (snd (afterPop (q\<lparr>pq_control := rest\<rparr>))) pr st"
proof -
  have "pq_rel (snd (afterPop (q\<lparr>pq_control := rest\<rparr>))) pr st"
    using rel c by (intro pq_rel_decr) (auto simp: pq_rel_def)
  moreover have "pk_class p = QControl"
    using rel c by (auto simp: pq_rel_def pk_class_def)
  moreover have "0 < unat (pq_length q)"
    using rel c by (simp add: pq_rel_def del: unat_pos_iff)
  ultimately show ?thesis
    using c by (intro pop_okI) (simp_all del: unat_pos_iff)
qed

lemma pop_ok_priority:
  assumes rel: "pq_rel q pr st" and p: "rr_pop pr = (Some p, pr')" "bs_rel bs pr'"
    and burst: "n \<le> maxPriorityBurst"
  shows "pop_ok p q pr st (snd (afterPop (q\<lparr>pq_priorityStreams := bs, pq_priorityBurst := n\<rparr>))) pr' st"
proof -
  note props = rr_pop_props [OF p(1)]
  have "pq_rel (snd (afterPop (q\<lparr>pq_priorityStreams := bs, pq_priorityBurst := n\<rparr>))) pr' st"
    using rel p(2) props burst by (intro pq_rel_decr) (auto simp: pq_rel_def)
  moreover have "pk_class p = QStream True (pk_id p)"
    using rel props(2) by (auto simp: pq_rel_def pk_class_def)
  moreover have "0 < unat (pq_length q)"
    using rel props(1) by (simp add: pq_rel_def del: unat_pos_iff)
  moreover have "rr_stream i pr = (if pk_id p = i then [p] else []) @ rr_stream i pr'" for i
    using rel by (intro rr_stream_pop [OF p(1)]) (auto simp: pq_rel_def bs_rel_def)
  ultimately show ?thesis
    by (intro pop_okI) (simp_all del: unat_pos_iff)
qed

lemma pop_ok_normal:
  assumes rel: "pq_rel q pr st" and p: "rr_pop st = (Some p, st')" "bs_rel bs st'"
  shows "pop_ok p q pr st (snd (afterPop (q\<lparr>pq_streams := bs, pq_priorityBurst := 0\<rparr>))) pr st'"
proof -
  note props = rr_pop_props [OF p(1)]
  have "pq_rel (snd (afterPop (q\<lparr>pq_streams := bs, pq_priorityBurst := 0\<rparr>))) pr st'"
    using rel p(2) props by (intro pq_rel_decr) (auto simp: pq_rel_def maxPriorityBurst_def)
  moreover have "pk_class p = QStream False (pk_id p)"
    using rel props(2) by (auto simp: pq_rel_def pk_class_def)
  moreover have "0 < unat (pq_length q)"
    using rel props(1) by (simp add: pq_rel_def del: unat_pos_iff)
  moreover have "rr_stream i st = (if pk_id p = i then [p] else []) @ rr_stream i st'" for i
    using rel by (intro rr_stream_pop [OF p(1)]) (auto simp: pq_rel_def bs_rel_def)
  ultimately show ?thesis
    by (intro pop_okI) (simp_all del: unat_pos_iff)
qed

text \<open>
  The outcome of \<open>TryPop\<close>: nothing, exactly when nothing is queued; a control frame, whenever one is
  queued; a priority frame, with the burst counter moved; or a normal frame.
\<close>

lemma pq_TryPop_cases:
  assumes rel: "pq_rel q pr st" and pop: "pq_TryPop q = (r, b, q')"
  obtains (empty) "r = None" "\<not> b" "q' = q" "pq_control q = []" "pr = []" "st = []"
  | (control) p where "r = Some p" "pop_ok p q pr st q' pr st" "pk_class p = QControl"
      "pq_priorityBurst q' = pq_priorityBurst q"
  | (priority) p pr' where "r = Some p" "pop_ok p q pr st q' pr' st" "pk_class p = QStream True (pk_id p)"
      "st \<noteq> [] \<Longrightarrow> unat (pq_priorityBurst q') = Suc (unat (pq_priorityBurst q))" "rr_pop pr = (Some p, pr')"
  | (normal) p st' where "r = Some p" "pop_ok p q pr st q' pr st'" "pk_class p = QStream False (pk_id p)"
      "rr_pop st = (Some p, st')"
proof (cases "pq_control q")
  case (Cons p rest)
  then have "pq_TryPop q = (Some p, afterPop (q\<lparr>pq_control := rest\<rparr>))"
    by (simp add: pq_TryPop_def popControl_def)
  with pop have out: "r = Some p" "q' = snd (afterPop (q\<lparr>pq_control := rest\<rparr>))" by auto
  have "pk_class p = QControl"
    using rel Cons by (auto simp: pq_rel_def pk_class_def)
  with out pop_ok_control [OF rel Cons] show ?thesis
    by (intro control) simp_all
next
  case Nil
  then have pc: "popControl q = (None, q)" by (simp add: popControl_def)
  show ?thesis
  proof (cases rule: popStream_cases [OF rel, case_names none prio norm])
    case none
    with pop pc Nil show ?thesis by (intro empty) (auto simp: pq_TryPop_def)
  next
    case p: (prio p bs)
    define n where "n = (if st \<noteq> [] then pq_priorityBurst q + 1 else 0)"
    have n: "n \<le> maxPriorityBurst" "st \<noteq> [] \<Longrightarrow> unat n = Suc (unat (pq_priorityBurst q))"
      using p(2) burst_step by (auto simp: n_def)
    have out: "r = Some p" "q' = snd (afterPop (q\<lparr>pq_priorityStreams := bs, pq_priorityBurst := n\<rparr>))"
      using pop pc p(5) by (auto simp: pq_TryPop_def n_def)
    have "pk_class p = QStream True (pk_id p)"
      using rel rr_pop_props(2) [OF p(3)] by (auto simp: pq_rel_def pk_class_def)
    with out pop_ok_priority [OF rel p(3,4) n(1)] n(2) p(3) show ?thesis
      by (intro priority) simp_all
  next
    case p: (norm p bs)
    have out: "r = Some p" "q' = snd (afterPop (q\<lparr>pq_streams := bs, pq_priorityBurst := 0\<rparr>))"
      using pop pc p(5) by (auto simp: pq_TryPop_def)
    have "pk_class p = QStream False (pk_id p)"
      using rel rr_pop_props(2) [OF p(3)] by (auto simp: pq_rel_def pk_class_def)
    with out pop_ok_normal [OF rel p(3,4)] p(3) show ?thesis
      by (intro normal) simp_all
  qed
qed

subsection \<open>Runs of the queue\<close>

datatype qop = QPush muxPackager | QPop | QStop

text \<open>A run returns the frames it accepted, the frames it popped and the final queue.\<close>

fun qrun :: "qop list \<Rightarrow> priorityQueue \<Rightarrow> muxPackager list \<times> muxPackager list \<times> priorityQueue" where
  "qrun [] q = ([], [], q)"
| "qrun (QPush p # ops) q =
     (let (ok, q1) = pq_Push p q; (ins, outs, q2) = qrun ops q1
      in (if ok then p # ins else ins, outs, q2))"
| "qrun (QPop # ops) q =
     (let (r, b, q1) = pq_TryPop q; (ins, outs, q2) = qrun ops q1
      in (ins, (case r of None \<Rightarrow> outs | Some p \<Rightarrow> p # outs), q2))"
| "qrun (QStop # ops) q = qrun ops (pq_Stop q)"

definition of_class :: "qclass \<Rightarrow> muxPackager list \<Rightarrow> muxPackager list" where
  "of_class c ps = filter (\<lambda>p. pk_class p = c) ps"

lemma of_class_simps [simp]:
  "of_class c [] = []" "of_class c (p # ps) = (if pk_class p = c then [p] else []) @ of_class c ps"
  by (simp_all add: of_class_def)

lemma pq_rel_Stop: "pq_rel (pq_Stop q) pr st = pq_rel q pr st"
  by (simp add: pq_rel_def pq_Stop_def)

lemma pq_Push_cases:
  assumes "pq_rel q pr st" "unat (pq_length q) < 18446744073709551615" "pq_Push p q = (ok, q1)"
  obtains "ok" "pq_rel q1 (pr_push p pr) (st_push p st)" "unat (pq_length q1) = Suc (unat (pq_length q))"
      "\<And>c. queued c (pq_control q1) (pr_push p pr) (st_push p st) =
         queued c (pq_control q) pr st @ (if pk_class p = c then [p] else [])"
      "pq_priorityBurst q1 = pq_priorityBurst q"
  | "\<not> ok" "q1 = q"
proof (cases "pq_stop q")
  case True
  with assms(3) that(2) show ?thesis by (simp add: pq_Push_def)
next
  case False
  then have push: "pq_Push p q = (True, q1)" "ok"
    using assms(3) by (auto simp: pq_Push_def)
  have "pq_length q1 = pq_length q + 1" "pq_priorityBurst q1 = pq_priorityBurst q"
    using push(1) by (auto simp: pq_Push_def pq_push_def pushControl_def split: if_splits)
  with that(1) push(2) pq_Push_rel(1) [OF assms(1,2) push(1)] pq_Push_queued [OF push(1)] assms(2)
  show ?thesis by (simp add: unat_word_ariths)
qed

lemma qrun_rel:
  assumes "pq_rel q pr st" "unat (pq_length q) + length ops < 18446744073709551615" "qrun ops q = (ins, outs, q')"
  shows "\<exists>pr' st'. pq_rel q' pr' st' \<and> unat (pq_length q) + length ins = length outs + unat (pq_length q') \<and>
    (\<forall>c. queued c (pq_control q) pr st @ of_class c ins = of_class c outs @ queued c (pq_control q') pr' st')"
  using assms
proof (induction ops arbitrary: q pr st ins outs)
  case Nil
  then show ?case by auto
next
  case (Cons op ops)
  show ?case
  proof (cases op)
    case (QPush p)
    obtain ok q1 where push: "pq_Push p q = (ok, q1)" by fastforce
    obtain ins1 where run: "qrun ops q1 = (ins1, outs, q')" "ins = (if ok then p # ins1 else ins1)"
      using Cons.prems(3) QPush push by (auto split: prod.splits)
    have room: "unat (pq_length q) < 18446744073709551615"
      using Cons.prems(2) by simp
    show ?thesis
    proof (rule pq_Push_cases [OF Cons.prems(1) room push])
      assume a: "ok" "pq_rel q1 (pr_push p pr) (st_push p st)" "unat (pq_length q1) = Suc (unat (pq_length q))"
        "\<And>c. queued c (pq_control q1) (pr_push p pr) (st_push p st) =
           queued c (pq_control q) pr st @ (if pk_class p = c then [p] else [])"
      from Cons.IH [OF a(2) _ run(1)] a(1,3,4) run(2) Cons.prems(2) show ?thesis by auto
    next
      assume "\<not> ok" "q1 = q"
      with Cons.IH [OF Cons.prems(1) _ run(1) [unfolded \<open>q1 = q\<close>]] run(2) Cons.prems(2) show ?thesis by simp
    qed
  next
    case QPop
    obtain r b q1 where pop: "pq_TryPop q = (r, b, q1)"
      using prod_cases3 by blast
    obtain outs1 where run: "qrun ops q1 = (ins, outs1, q')" "outs = (case r of None \<Rightarrow> outs1 | Some p \<Rightarrow> p # outs1)"
      using Cons.prems(3) QPop pop by (auto split: prod.splits)
    have "r = None \<and> q1 = q \<or> (\<exists>p pr1 st1. r = Some p \<and> pop_ok p q pr st q1 pr1 st1)"
      by (rule pq_TryPop_cases [OF Cons.prems(1) pop]) blast+
    then show ?thesis
    proof (elim disjE exE conjE)
      assume "r = None" "q1 = q"
      with Cons.IH [OF Cons.prems(1) _ run(1) [unfolded \<open>q1 = q\<close>]] run(2) Cons.prems(2) show ?thesis by simp
    next
      fix p pr1 st1
      assume r: "r = Some p" and ok: "pop_ok p q pr st q1 pr1 st1"
      then have "pq_rel q1 pr1 st1" "Suc (unat (pq_length q1)) = unat (pq_length q)"
        by (simp_all add: pop_ok_def)
      with Cons.IH [OF this(1) _ run(1)] Cons.prems(2) obtain pr2 st2 where
        "pq_rel q' pr2 st2" "unat (pq_length q1) + length ins = length outs1 + unat (pq_length q')"
        "\<forall>c. queued c (pq_control q1) pr1 st1 @ of_class c ins = of_class c outs1 @ queued c (pq_control q') pr2 st2"
        by auto
      with ok r run(2) show ?thesis
        by (intro exI [of _ pr2] exI [of _ st2]) (simp add: pop_ok_def)
    qed
  next
    case QStop
    have "pq_rel (pq_Stop q) pr st" "qrun ops (pq_Stop q) = (ins, outs, q')"
      using Cons.prems QStop by (simp_all add: pq_rel_Stop)
    from Cons.IH [OF this(1) _ this(2)] Cons.prems(2) show ?thesis by (simp add: pq_Stop_def)
  qed
qed

lemma queued_empty:
  assumes "pq_rel q pr st" "unat (pq_length q) = 0"
  shows "queued c (pq_control q) pr st = []"
proof -
  have "pq_control q = []" "rr_total pr = 0" "rr_total st = 0"
    using assms by (auto simp: pq_rel_def)
  moreover have "xs = []" if "rr_total xs = 0" "bs_rel s xs" for xs s
    using that by (cases xs) (auto simp: bs_rel_def)
  ultimately have "pr = []" "st = []"
    using assms(1) by (auto simp: pq_rel_def)
  with \<open>pq_control q = []\<close> show ?thesis by (cases c) auto
qed

lemma TryPop_None_iff:
  assumes "pq_rel q pr st"
  shows "fst (pq_TryPop q) = None \<longleftrightarrow> pq_length q = 0"
proof -
  obtain r b q' where pop: "pq_TryPop q = (r, b, q')"
    using prod_cases3 by blast
  show ?thesis
    using pop assms
    by (rule_tac pq_TryPop_cases [OF assms pop]) (auto simp: pop_ok_def pq_rel_def unat_eq_0)
qed

text \<open>C4: Whatever frames the streams push and the writer pops, in any order, the write queue loses and
  duplicates nothing and keeps the order inside each class: the popped control frames are a prefix of
  the pushed ones, and so are the popped frames of every stream and priority.  A pop comes back empty
  only when everything was popped, and the length counter is exact.\<close>

theorem queue_order:
  assumes "qrun ops (ConfigureWatermarks h l pq_New) = (ins, outs, q)" "length ops < 18446744073709551615"
  shows "(\<forall>c. \<exists>rest. of_class c ins = of_class c outs @ rest) \<and>
    length ins = length outs + unat (pq_length q) \<and>
    (fst (pq_TryPop q) = None \<longrightarrow> (\<forall>c. of_class c ins = of_class c outs))"
proof -
  have "pq_rel (ConfigureWatermarks h l pq_New) [] []"
    by (simp add: pq_rel_Configure pq_rel_New)
  moreover have len: "pq_length (ConfigureWatermarks h l pq_New) = 0" "pq_control (ConfigureWatermarks h l pq_New) = []"
    by (simp_all add: ConfigureWatermarks_def pq_New_def split: prod.split)
  ultimately obtain pr st where rel: "pq_rel q pr st" "length ins = length outs + unat (pq_length q)"
    and eq: "\<forall>c. queued c [] [] [] @ of_class c ins = of_class c outs @ queued c (pq_control q) pr st"
    using qrun_rel [OF _ _ assms(1)] assms(2) by fastforce
  have "queued c [] [] [] = []" for c by (cases c) auto
  with eq have eq: "\<forall>c. of_class c ins = of_class c outs @ queued c (pq_control q) pr st" by simp
  moreover have "queued c (pq_control q) pr st = []" if "fst (pq_TryPop q) = None" for c
    using queued_empty [OF rel(1)] TryPop_None_iff [OF rel(1)] that by simp
  ultimately show ?thesis
    using rel(2) by auto
qed

theorem queue_order_witness:
  "\<exists>q. qrun [QPush (pk_new\<lparr>pk_flag := muxNewMsg, pk_id := 1\<rparr>), QPush (pk_new\<lparr>pk_flag := muxNewConn, pk_id := 2\<rparr>), QPop]
      (ConfigureWatermarks 4 2 pq_New) =
      ([pk_new\<lparr>pk_flag := muxNewMsg, pk_id := 1\<rparr>, pk_new\<lparr>pk_flag := muxNewConn, pk_id := 2\<rparr>],
       [pk_new\<lparr>pk_flag := muxNewConn, pk_id := 2\<rparr>], q) \<and> unat (pq_length q) = 1"
proof -
  let ?d = "pk_new\<lparr>pk_flag := muxNewMsg, pk_id := 1\<rparr>" and ?c = "pk_new\<lparr>pk_flag := muxNewConn, pk_id := 2\<rparr>"
  obtain q where run: "qrun [QPush ?d, QPush ?c, QPop] (ConfigureWatermarks 4 2 pq_New) = ([?d, ?c], [?c], q)"
    by (simp add: pq_Push_def pq_push_def pushControl_def pq_TryPop_def popControl_def ConfigureWatermarks_def
        pq_New_def isMuxStreamOrderedFlag_def isMuxStreamDataFlag_def isMuxOrderedCloseFlag_def mux_flags
        pk_new_def Let_def split_beta afterPop_def)
  with queue_order [OF run] show ?thesis by auto
qed

subsection \<open>No stream starves\<close>

text \<open>The place of a stream in the round-robin order.\<close>

fun rr_pos :: "int32 \<Rightarrow> rr \<Rightarrow> nat" where
  "rr_pos i [] = 0"
| "rr_pos i ((j, q) # xs) = (if j = i then 0 else Suc (rr_pos i xs))"

lemma rr_pos_append: "i \<in> fst ` set xs \<Longrightarrow> rr_pos i (xs @ ys) = rr_pos i xs"
  by (induction i xs rule: rr_pos.induct) (simp_all split: if_splits, metis)

lemma rr_pos_less: "i \<in> fst ` set xs \<Longrightarrow> rr_pos i xs < length xs"
  by (induction i xs rule: rr_pos.induct) (simp_all split: if_splits, metis)

lemma rr_push_ids: "fst ` set (rr_push p xs) = insert (pk_id p) (fst ` set xs)"
  by (induction p xs rule: rr_push.induct) (simp_all add: insert_commute)

lemma rr_pos_push: "i \<in> fst ` set xs \<Longrightarrow> rr_pos i (rr_push p xs) = rr_pos i xs"
  by (induction p xs rule: rr_push.induct) (simp_all split: if_splits, metis)

lemma rr_pos_pop:
  assumes "rr_pop xs = (Some p, ys)" "i \<in> fst ` set xs" "pk_id p \<noteq> i"
    "\<forall>(i, q) \<in> set xs. q \<noteq> [] \<and> (\<forall>p \<in> set q. pk_id p = i)"
  shows "i \<in> fst ` set ys" "rr_pos i xs = Suc (rr_pos i ys)"
proof -
  obtain j q zs where xs: "xs = (j, q) # zs"
    using assms(1) by (cases xs) auto
  obtain rest where q: "q = p # rest" "pk_id p = j"
    using assms(1,4) by (cases q) (auto simp: xs)
  have ys: "ys = (if rest = [] then zs else zs @ [(j, rest)])"
    using assms(1) by (simp add: xs q)
  have "i \<in> fst ` set zs"
    using assms(2,3) q(2) by (auto simp: xs)
  with assms(3) q(2) show "i \<in> fst ` set ys" "rr_pos i xs = Suc (rr_pos i ys)"
    by (auto simp: xs ys rr_pos_append)
qed

text \<open>The stream frames a run may still pop before it reaches stream \<open>i\<close>.\<close>

definition wait_bound :: "int32 \<Rightarrow> rr \<Rightarrow> priorityQueue \<Rightarrow> nat" where
  "wait_bound i st q = 9 * rr_pos i st + (8 - unat (pq_priorityBurst q))"

definition stream_frames :: "muxPackager list \<Rightarrow> muxPackager list" where
  "stream_frames ps = filter (\<lambda>p. pk_class p \<noteq> QControl) ps"

lemma stream_frames_simps [simp]:
  "stream_frames [] = []" "stream_frames (p # ps) = (if pk_class p \<noteq> QControl then [p] else []) @ stream_frames ps"
  by (simp_all add: stream_frames_def)

lemma pq_rel_burst: "pq_rel q pr st \<Longrightarrow> unat (pq_priorityBurst q) \<le> 8"
  by (simp add: pq_rel_def maxPriorityBurst_def word_le_nat_alt)

lemma wait_bound_pop:
  assumes rel: "pq_rel q pr st" and pop: "pq_TryPop q = (r, b, q')" and i: "i \<in> fst ` set st"
    and other: "\<forall>p. r = Some p \<longrightarrow> pk_class p \<noteq> QStream False i"
  shows "\<exists>p pr' st'. r = Some p \<and> pq_rel q' pr' st' \<and> i \<in> fst ` set st' \<and>
    Suc (unat (pq_length q')) = unat (pq_length q) \<and>
    wait_bound i st' q' + length (stream_frames [p]) \<le> wait_bound i st q"
proof (cases rule: pq_TryPop_cases [OF rel pop, case_names empty control priority normal])
  case empty
  then show ?thesis using i by simp
next
  case (control p)
  then show ?thesis using i by (auto simp: pop_ok_def wait_bound_def)
next
  case (priority p pr')
  have "st \<noteq> []" using i by auto
  then have "unat (pq_priorityBurst q') = Suc (unat (pq_priorityBurst q))" "unat (pq_priorityBurst q') \<le> 8"
    using priority(2,4) pq_rel_burst [of q' pr' st] by (simp_all add: pop_ok_def)
  then have "wait_bound i st q' + length (stream_frames [p]) \<le> wait_bound i st q"
    using priority(3) by (simp add: wait_bound_def)
  with priority i show ?thesis
    by (auto simp: pop_ok_def)
next
  case (normal p st')
  have ne: "pk_id p \<noteq> i"
    using normal(1,3) other by auto
  have q: "\<forall>(i, q) \<in> set st. q \<noteq> [] \<and> (\<forall>p \<in> set q. pk_id p = i)"
    using rel by (simp add: pq_rel_def bs_rel_def)
  note pos = rr_pos_pop [OF normal(4) i ne q]
  have "wait_bound i st' q' + length (stream_frames [p]) \<le> wait_bound i st q"
    using pos(2) normal(3) by (simp add: wait_bound_def)
  with normal pos show ?thesis
    by (auto simp: pop_ok_def)
qed

lemma qrun_wait_bound:
  assumes "pq_rel q pr st" "i \<in> fst ` set st" "unat (pq_length q) + length ops < 18446744073709551615"
    "qrun ops q = (ins, outs, q')" "of_class (QStream False i) outs = []"
  shows "length (stream_frames outs) \<le> wait_bound i st q"
  using assms
proof (induction ops arbitrary: q pr st ins outs)
  case Nil
  then show ?case by simp
next
  case (Cons op ops)
  show ?case
  proof (cases op)
    case (QPush p)
    obtain ok q1 where push: "pq_Push p q = (ok, q1)" by fastforce
    obtain ins1 where run: "qrun ops q1 = (ins1, outs, q')"
      using Cons.prems(4) QPush push by (auto split: prod.splits)
    have room: "unat (pq_length q) < 18446744073709551615"
      using Cons.prems(3) by simp
    show ?thesis
    proof (rule pq_Push_cases [OF Cons.prems(1) room push])
      assume a: "pq_rel q1 (pr_push p pr) (st_push p st)" "unat (pq_length q1) = Suc (unat (pq_length q))"
        "pq_priorityBurst q1 = pq_priorityBurst q"
      have "i \<in> fst ` set (st_push p st)" "rr_pos i (st_push p st) = rr_pos i st"
        using Cons.prems(2) by (simp_all add: st_push_def rr_push_ids rr_pos_push)
      with Cons.IH [OF a(1) _ _ run] Cons.prems(3,5) a(2,3) show ?thesis
        by (simp add: wait_bound_def)
    next
      assume "q1 = q"
      with Cons.IH [OF Cons.prems(1,2) _ run [unfolded \<open>q1 = q\<close>]] Cons.prems(3,5) show ?thesis by simp
    qed
  next
    case QPop
    obtain r b q1 where pop: "pq_TryPop q = (r, b, q1)"
      using prod_cases3 by blast
    obtain outs1 where run: "qrun ops q1 = (ins, outs1, q')" "outs = (case r of None \<Rightarrow> outs1 | Some p \<Rightarrow> p # outs1)"
      using Cons.prems(4) QPop pop by (auto split: prod.splits)
    have other: "\<forall>p. r = Some p \<longrightarrow> pk_class p \<noteq> QStream False i"
      using run(2) Cons.prems(5) by (auto split: if_splits)
    obtain p pr1 st1 where r: "r = Some p" "pq_rel q1 pr1 st1" "i \<in> fst ` set st1"
      "Suc (unat (pq_length q1)) = unat (pq_length q)"
      "wait_bound i st1 q1 + length (stream_frames [p]) \<le> wait_bound i st q"
      using wait_bound_pop [OF Cons.prems(1) pop Cons.prems(2) other] by blast
    have "length (stream_frames outs1) \<le> wait_bound i st1 q1"
      using Cons.prems(3,5) run r by (intro Cons.IH [OF r(2,3) _ run(1)]) auto
    with r run(2) show ?thesis by (auto split: if_splits)
  next
    case QStop
    have "pq_rel (pq_Stop q) pr st" "qrun ops (pq_Stop q) = (ins, outs, q')"
      using Cons.prems QStop by (simp_all add: pq_rel_Stop)
    from Cons.IH [OF this(1) Cons.prems(2) _ this(2)] Cons.prems(3,5) show ?thesis
      by (simp add: pq_Stop_def wait_bound_def)
  qed
qed

lemma qrun_ins_le: "qrun ops q = (ins, outs, q') \<Longrightarrow> length ins \<le> length ops"
proof (induction ops arbitrary: q ins outs)
  case (Cons op ops)
  then show ?case
    by (cases op) (fastforce split: prod.splits if_splits)+
qed simp

lemmas queue_eval = pq_Push_def pq_push_def pushControl_def pq_TryPop_def popControl_def ConfigureWatermarks_def
  pq_New_def isMuxStreamOrderedFlag_def isMuxStreamDataFlag_def isMuxOrderedCloseFlag_def mux_flags
  pk_new_def Let_def split_beta afterPop_def popStream_def bs_push_def bs_pop_def bs_init_def bs_hasPending_def
  getStreamBucket_def appendActive_def bucket_upd_def moveActiveToTail_def removeActive_def detachActive_def
  maxPriorityBurst_def pk_class_def



end
