(* ===== verification/Mux_Cond.thy ===== *)
theory Mux_Cond
  imports Mux_Queue
begin

text \<open>
  The one condition variable of the write queue (\<open>cond\<close> of \<open>src/lib/mux/queue.go\<close>) that two kinds of
  goroutines wait on: the write loop, in \<open>Pop\<close>, for a frame, and the writers, in
  \<open>applyWriteBackpressure\<close>, for room.  \<open>Push\<close> signals a single waiter, of either kind; \<open>TryPop\<close> and
  \<open>Stop\<close> broadcast.  Each step is one operation together with its signal.
\<close>

record condQueue =
  cq_queue :: priorityQueue
  cq_popper :: bool
  cq_writers :: nat

text \<open>Fewer frames are queued than a 64-bit counter can count.\<close>

definition cq_room :: "condQueue \<Rightarrow> bool" where
  "cq_room s \<longleftrightarrow> unat (pq_length (cq_queue s)) < 18446744073709551615"

inductive cv_step :: "condQueue \<Rightarrow> condQueue \<Rightarrow> bool" where
  push_wakes_popper: "cq_room s \<Longrightarrow> pq_Push p (cq_queue s) = (True, q) \<Longrightarrow> cq_popper s \<Longrightarrow>
     cv_step s (s\<lparr>cq_queue := q, cq_popper := False\<rparr>)"
| push_wakes_writer: "cq_room s \<Longrightarrow> pq_Push p (cq_queue s) = (True, q) \<Longrightarrow> cq_writers s = Suc n \<Longrightarrow>
     cv_step s (s\<lparr>cq_queue := q, cq_writers := n\<rparr>)"
| push_alone: "cq_room s \<Longrightarrow> pq_Push p (cq_queue s) = (True, q) \<Longrightarrow> \<not> cq_popper s \<Longrightarrow> cq_writers s = 0 \<Longrightarrow>
     cv_step s (s\<lparr>cq_queue := q\<rparr>)"
| pop: "\<not> cq_popper s \<Longrightarrow> pq_Pop (cq_queue s) = PopFrame p b q \<Longrightarrow>
     cv_step s (s\<lparr>cq_queue := q, cq_writers := (if b then 0 else cq_writers s)\<rparr>)"
| pop_waits: "\<not> cq_popper s \<Longrightarrow> pq_Pop (cq_queue s) = PopWait q \<Longrightarrow>
     cv_step s (s\<lparr>cq_queue := q, cq_popper := True\<rparr>)"
| writer_waits: "bp_enters flag priority (cq_queue s) \<Longrightarrow> bp_waits False (cq_queue s) \<Longrightarrow>
     cv_step s (s\<lparr>cq_writers := Suc (cq_writers s)\<rparr>)"
| stop: "cv_step s (s\<lparr>cq_queue := pq_Stop (cq_queue s), cq_popper := False, cq_writers := 0\<rparr>)"

definition cq_init :: "uint64 \<Rightarrow> uint64 \<Rightarrow> condQueue" where
  "cq_init h l = \<lparr>cq_queue = ConfigureWatermarks h l pq_New, cq_popper = False, cq_writers = 0\<rparr>"

definition cq_inv :: "condQueue \<Rightarrow> bool" where
  "cq_inv s \<longleftrightarrow>
     (\<exists>pr st. pq_rel (cq_queue s) pr st) \<and> 1 \<le> pq_lowWater (cq_queue s) \<and>
     (cq_popper s \<longrightarrow> pq_length (cq_queue s) = 0 \<and> \<not> pq_stop (cq_queue s)) \<and>
     (0 < cq_writers s \<longrightarrow> pq_lowWater (cq_queue s) \<le> pq_length (cq_queue s) \<and> \<not> pq_stop (cq_queue s))"

lemma cq_inv_init: "cq_inv (cq_init h l)"
proof -
  obtain high low where w: "normalizeWriteQueueWatermarks h l = (high, low)" by fastforce
  have "pq_rel (ConfigureWatermarks h l pq_New) [] []"
    by (simp add: pq_rel_Configure pq_rel_New)
  with watermarks_ordered [OF w] show ?thesis
    by (auto simp: cq_inv_def cq_init_def ConfigureWatermarks_def w)
qed

text \<open>The two kinds of waiters exclude each other.\<close>

lemma cq_inv_exclusive: "cq_inv s \<Longrightarrow> cq_popper s \<Longrightarrow> cq_writers s = 0"
  by (auto simp: cq_inv_def word_le_nat_alt)

lemma pq_Push_keeps:
  assumes "pq_Push p q = (True, q')"
  shows "pq_lowWater q' = pq_lowWater q" "pq_length q' = pq_length q + 1" "pq_stop q' = pq_stop q" "\<not> pq_stop q"
  using assms by (auto simp: pq_Push_def pq_push_def pushControl_def split: if_splits)

lemma afterPop_flag:
  "fst (afterPop q) \<longleftrightarrow> pq_length q - 1 < pq_lowWater q \<and> pq_lowWater q \<le> pq_length q"
  by (simp add: afterPop_def Let_def not_eq_complement)

lemma pq_TryPop_keeps:
  assumes pop: "pq_TryPop q = (r, b, q')" and rel: "pq_rel q pr st"
  shows "pq_lowWater q' = pq_lowWater q \<and> pq_stop q' = pq_stop q \<and>
    (r = None \<longrightarrow> q' = q) \<and>
    (r \<noteq> None \<longrightarrow> pq_length q' = pq_length q - 1 \<and> pq_length q \<noteq> 0 \<and>
      (b \<longleftrightarrow> pq_length q - 1 < pq_lowWater q \<and> pq_lowWater q \<le> pq_length q))"
proof -
  have keep: "pq_lowWater q' = pq_lowWater q \<and> pq_stop q' = pq_stop q \<and> pq_length q' = pq_length q - 1 \<and>
      (b \<longleftrightarrow> pq_length q - 1 < pq_lowWater q \<and> pq_lowWater q \<le> pq_length q)"
    if "(b, q') = afterPop q1" "pq_lowWater q1 = pq_lowWater q" "pq_stop q1 = pq_stop q" "pq_length q1 = pq_length q" for q1
  proof -
    have "q' = snd (afterPop q1)" "b = fst (afterPop q1)"
      using that(1) by (simp_all flip: that(1))
    with that(2-4) show ?thesis by (simp add: afterPop_flag)
  qed
  have "r = None \<and> q' = q \<or>
    (\<exists>q1. r \<noteq> None \<and> (b, q') = afterPop q1 \<and> pq_lowWater q1 = pq_lowWater q \<and> pq_stop q1 = pq_stop q \<and> pq_length q1 = pq_length q)"
  proof (cases "pq_control q")
    case (Cons p rest)
    then have "r \<noteq> None \<and> (b, q') = afterPop (q\<lparr>pq_control := rest\<rparr>)"
      using pop by (auto simp: pq_TryPop_def popControl_def)
    then show ?thesis
      by (intro disjI2 exI [of _ "q\<lparr>pq_control := rest\<rparr>"]) simp
  next
    case Nil
    then have tp: "pq_TryPop q = (case popStream q of (Some p, q2) \<Rightarrow> (Some p, afterPop q2) | (None, q2) \<Rightarrow> (None, False, q2))"
      by (simp add: pq_TryPop_def popControl_def)
    show ?thesis
    proof (cases rule: popStream_cases [OF rel, case_names none prio norm])
      case none
      with pop tp show ?thesis by simp
    next
      case (prio p bs)
      with pop tp show ?thesis
        by (intro disjI2 exI [of _ "snd (popStream q)"]) auto
    next
      case (norm p bs)
      with pop tp show ?thesis
        by (intro disjI2 exI [of _ "snd (popStream q)"]) auto
    qed
  qed
  moreover have "r \<noteq> None \<longrightarrow> pq_length q \<noteq> 0"
    using TryPop_None_iff [OF rel] pop by simp
  ultimately show ?thesis using keep by blast
qed

lemma pq_TryPop_pq_rel:
  assumes "pq_TryPop q = (r, b, q')" "pq_rel q pr st"
  shows "\<exists>pr' st'. pq_rel q' pr' st'"
  using assms(2) by (rule_tac pq_TryPop_cases [OF assms(2,1)]) (auto simp: pop_ok_def)

lemma low_le_push:
  fixes len low :: uint64
  assumes "unat len < 18446744073709551615" "low \<le> len"
  shows "low \<le> len + 1"
  using assms by (simp add: word_le_nat_alt unat_word_ariths)

lemma cq_inv_push:
  assumes inv: "cq_inv s" and room: "cq_room s" and push: "pq_Push p (cq_queue s) = (True, q)"
    and s': "cq_queue s' = q" "\<not> cq_popper s'" "cq_writers s' \<le> cq_writers s"
  shows "cq_inv s'"
proof -
  obtain pr st where rel: "pq_rel (cq_queue s) pr st"
    using inv by (auto simp: cq_inv_def)
  have "\<exists>pr st. pq_rel q pr st"
    using pq_Push_rel(1) [OF rel _ push] room by (auto simp: cq_room_def)
  with inv pq_Push_keeps [OF push] s' room show ?thesis
    by (auto simp: cq_inv_def cq_room_def intro: low_le_push)
qed

lemma cq_inv_pop:
  assumes inv: "cq_inv s" and pop: "\<not> cq_popper s" "pq_Pop (cq_queue s) = PopFrame p b q"
  shows "cq_inv (s\<lparr>cq_queue := q, cq_writers := (if b then 0 else cq_writers s)\<rparr>)"
proof -
  obtain pr st where rel: "pq_rel (cq_queue s) pr st"
    using inv by (auto simp: cq_inv_def)
  have tp: "pq_TryPop (cq_queue s) = (Some p, b, q)"
    using pop(2) by (auto simp: pq_Pop_def split: prod.splits option.splits if_splits)
  have k: "pq_lowWater q = pq_lowWater (cq_queue s)" "pq_stop q = pq_stop (cq_queue s)"
    "pq_length q = pq_length (cq_queue s) - 1"
    "b \<longleftrightarrow> pq_length (cq_queue s) - 1 < pq_lowWater (cq_queue s) \<and> pq_lowWater (cq_queue s) \<le> pq_length (cq_queue s)"
    using pq_TryPop_keeps [OF tp rel] by auto
  have "pq_lowWater q \<le> pq_length q" if "\<not> b" "0 < cq_writers s"
    using that k inv by (auto simp: cq_inv_def not_less)
  with pq_TryPop_pq_rel [OF tp rel] inv pop(1) k show ?thesis
    by (auto simp: cq_inv_def)
qed

lemma cq_inv_pop_waits:
  assumes inv: "cq_inv s" and pop: "\<not> cq_popper s" "pq_Pop (cq_queue s) = PopWait q"
  shows "cq_inv (s\<lparr>cq_queue := q, cq_popper := True\<rparr>)"
proof -
  obtain pr st where rel: "pq_rel (cq_queue s) pr st"
    using inv by (auto simp: cq_inv_def)
  obtain b where tp: "pq_TryPop (cq_queue s) = (None, b, q)" "\<not> pq_stop q"
    using pop(2) by (auto simp: pq_Pop_def split: prod.splits option.splits if_splits)
  have "q = cq_queue s"
    using pq_TryPop_keeps [OF tp(1) rel] by simp
  moreover have "pq_length (cq_queue s) = 0"
    using TryPop_None_iff [OF rel] tp(1) by simp
  ultimately show ?thesis
    using inv tp(2) by (auto simp: cq_inv_def)
qed

lemma cq_inv_step:
  assumes "cv_step s s'" "cq_inv s"
  shows "cq_inv s'"
  using assms
proof cases
  case (push_wakes_popper p q)
  with assms(2) show ?thesis by (intro cq_inv_push [OF assms(2)]) auto
next
  case (push_wakes_writer p q n)
  with assms(2) cq_inv_exclusive [OF assms(2)] show ?thesis by (intro cq_inv_push [OF assms(2)]) auto
next
  case (push_alone p q)
  with assms(2) show ?thesis by (intro cq_inv_push [OF assms(2)]) auto
next
  case (writer_waits flag priority)
  then have "\<not> cq_popper s"
    using assms(2) by (auto simp: cq_inv_def bp_waits_def word_le_nat_alt)
  with writer_waits assms(2) show ?thesis by (auto simp: cq_inv_def bp_waits_def)
next
  case stop
  with assms(2) show ?thesis by (auto simp: cq_inv_def pq_rel_Stop) (simp_all add: pq_Stop_def)
qed (use assms(2) cq_inv_pop cq_inv_pop_waits in auto)

lemma cq_inv_reachable: "cv_step\<^sup>*\<^sup>* (cq_init h l) s \<Longrightarrow> cq_inv s"
  by (induction rule: rtranclp_induct) (auto simp: cq_inv_init intro: cq_inv_step)



end
