(* ===== verification/Go_Strings.thy ===== *)
theory Go_Strings
  imports Main "HOL-Library.Sublist"
begin

text \<open>
  The functions of Go's \<open>strings\<close> package that the modelled code calls, on byte strings
  (\<open>char list\<close>).  Letter case and white space are those of the ASCII range: on an input that is
  valid ASCII these functions compute what Go computes.
\<close>

subsection \<open>Case and white space\<close>

definition byte_of :: "char \<Rightarrow> nat" where
  "byte_of c = of_char c"

definition lower_char :: "char \<Rightarrow> char" where
  "lower_char c = (if 65 \<le> byte_of c \<and> byte_of c \<le> 90 then char_of (byte_of c + 32) else c)"

definition ToLower :: "string \<Rightarrow> string" where
  "ToLower s = map lower_char s"

definition is_space :: "char \<Rightarrow> bool" where
  "is_space c \<longleftrightarrow> byte_of c \<in> {9, 10, 11, 12, 13, 32}"

definition TrimSpace :: "string \<Rightarrow> string" where
  "TrimSpace s = rev (dropWhile is_space (rev (dropWhile is_space s)))"

lemma byte_of_char_of: "n < 256 \<Longrightarrow> byte_of (char_of n) = n"
  by (simp add: byte_of_def)

lemma byte_of_inject: "byte_of c = byte_of d \<longleftrightarrow> c = d"
  by (simp add: byte_of_def of_char_eq_iff)

lemma lower_char_idem [simp]: "lower_char (lower_char c) = lower_char c"
  by (auto simp: lower_char_def byte_of_char_of)

lemma ToLower_idem [simp]: "ToLower (ToLower s) = ToLower s"
  by (simp add: ToLower_def)

lemma ToLower_append [simp]: "ToLower (s @ t) = ToLower s @ ToLower t"
  by (simp add: ToLower_def)

lemma ToLower_Nil_iff [simp]: "ToLower s = [] \<longleftrightarrow> s = []"
  by (simp add: ToLower_def)

lemma is_space_lower_char [simp]: "is_space (lower_char c) = is_space c"
  by (auto simp: is_space_def lower_char_def byte_of_char_of)

lemma dropWhile_space_ToLower: "dropWhile is_space (ToLower s) = ToLower (dropWhile is_space s)"
  by (simp add: ToLower_def dropWhile_map comp_def)

lemma rev_ToLower: "rev (ToLower s) = ToLower (rev s)"
  by (simp add: ToLower_def rev_map)

lemma TrimSpace_ToLower: "TrimSpace (ToLower s) = ToLower (TrimSpace s)"
  by (simp add: TrimSpace_def dropWhile_space_ToLower rev_ToLower)

lemma dropWhile_idem_suffix:
  assumes "dropWhile P s = s"
  shows "dropWhile P (rev (dropWhile Q (rev s))) = rev (dropWhile Q (rev s))"
proof -
  have pre: "\<exists>t. s = rev (dropWhile Q (rev s)) @ t"
    by (metis rev_append rev_rev_ident takeWhile_dropWhile_id)
  show ?thesis
  proof (cases "rev (dropWhile Q (rev s))")
    case (Cons c r)
    with pre obtain t where "s = c # r @ t" by auto
    with assms have "\<not> P c"
      by (metis dropWhile_eq_self_iff list.discI list.sel(1))
    with Cons show ?thesis by simp
  next
    case Nil
    then show ?thesis by (simp only: Nil dropWhile.simps)
  qed
qed

lemma TrimSpace_idem [simp]: "TrimSpace (TrimSpace s) = TrimSpace s"
proof -
  let ?t = "dropWhile is_space s"
  have "dropWhile is_space ?t = ?t" by simp
  then have "dropWhile is_space (TrimSpace s) = TrimSpace s"
    unfolding TrimSpace_def by (rule dropWhile_idem_suffix)
  then show ?thesis
    unfolding TrimSpace_def [of "TrimSpace s"] by (simp add: TrimSpace_def)
qed

lemma TrimSpace_Nil [simp]: "TrimSpace [] = []"
  by (simp add: TrimSpace_def)

subsection \<open>Prefixes, suffixes and search\<close>

definition HasPrefix :: "string \<Rightarrow> string \<Rightarrow> bool" where
  "HasPrefix s p = prefix p s"

definition HasSuffix :: "string \<Rightarrow> string \<Rightarrow> bool" where
  "HasSuffix s p = suffix p s"

definition TrimPrefix :: "string \<Rightarrow> string \<Rightarrow> string" where
  "TrimPrefix s p = (if HasPrefix s p then drop (length p) s else s)"

definition TrimSuffix :: "string \<Rightarrow> string \<Rightarrow> string" where
  "TrimSuffix s p = (if HasSuffix s p then take (length s - length p) s else s)"

fun Contains :: "string \<Rightarrow> string \<Rightarrow> bool" where
  "Contains [] p = (p = [])"
| "Contains (c # s) p = (prefix p (c # s) \<or> Contains s p)"

definition ContainsAny :: "string \<Rightarrow> string \<Rightarrow> bool" where
  "ContainsAny s cs = list_ex (\<lambda>c. c \<in> set cs) s"

lemma Contains_iff: "Contains s p \<longleftrightarrow> (\<exists>a b. s = a @ p @ b)"
proof (induction s)
  case Nil
  then show ?case by auto
next
  case (Cons c s)
  show ?case
  proof
    assume "Contains (c # s) p"
    then consider "prefix p (c # s)" | "Contains s p" by auto
    then show "\<exists>a b. c # s = a @ p @ b"
    proof cases
      case 1
      then show ?thesis by (metis append_Nil prefixE)
    next
      case 2
      with Cons.IH obtain a b where "s = a @ p @ b" by blast
      then have "c # s = (c # a) @ p @ b" by simp
      then show ?thesis by blast
    qed
  next
    assume "\<exists>a b. c # s = a @ p @ b"
    then obtain a b where ab: "c # s = a @ p @ b" by blast
    show "Contains (c # s) p"
    proof (cases a)
      case Nil
      with ab have "prefix p (c # s)" by (simp add: prefix_def)
      then show ?thesis by simp
    next
      case (Cons d a')
      with ab have "s = a' @ p @ b" by simp
      with Cons.IH show ?thesis by auto
    qed
  qed
qed

lemma HasPrefix_TrimPrefix: "HasPrefix s p \<Longrightarrow> p @ TrimPrefix s p = s"
  by (auto simp: HasPrefix_def TrimPrefix_def prefix_def)

subsection \<open>Splitting at a separator character\<close>

fun Split :: "string \<Rightarrow> char \<Rightarrow> string list" where
  "Split [] sep = [[]]"
| "Split (c # s) sep =
     (if c = sep then [] # Split s sep
      else case Split s sep of [] \<Rightarrow> [[c]] | p # ps \<Rightarrow> (c # p) # ps)"

fun Join :: "string list \<Rightarrow> char \<Rightarrow> string" where
  "Join [] sep = []"
| "Join [p] sep = p"
| "Join (p # q # ps) sep = p @ sep # Join (q # ps) sep"

lemma Split_not_Nil [simp]: "Split s sep \<noteq> []"
  by (cases s) (auto split: list.split)

lemma Join_Split [simp]: "Join (Split s sep) sep = s"
proof (induction s)
  case Nil
  then show ?case by simp
next
  case (Cons c s)
  obtain p ps where ps: "Split s sep = p # ps"
    by (meson Split_not_Nil neq_Nil_conv)
  with Cons show ?case
    by (cases ps) auto
qed

lemma Split_no_sep: "sep \<notin> set s \<Longrightarrow> Split s sep = [s]"
  by (induction s) auto

lemma Split_append_sep: "sep \<notin> set p \<Longrightarrow> Split (p @ sep # s) sep = p # Split s sep"
  by (induction p) auto

lemma Split_Join:
  "ps \<noteq> [] \<Longrightarrow> \<forall>p \<in> set ps. sep \<notin> set p \<Longrightarrow> Split (Join ps sep) sep = ps"
  by (induction ps sep rule: Join.induct) (auto simp: Split_no_sep Split_append_sep)

lemma Split_parts_no_sep: "p \<in> set (Split s sep) \<Longrightarrow> sep \<notin> set p"
  by (induction s arbitrary: p) (auto split: if_splits list.splits)

lemma Split_ToLower:
  "lower_char sep = sep \<Longrightarrow> (\<And>c. lower_char c = sep \<Longrightarrow> c = sep) \<Longrightarrow>
   Split (ToLower s) sep = map ToLower (Split s sep)"
  by (induction s) (auto simp: ToLower_def split: list.split)

lemma Split_append: "Split (a @ sep # b) sep = Split a sep @ Split b sep"
  by (induction a) (auto split: list.split)

lemma Split_inject: "Split a sep = Split b sep \<longleftrightarrow> a = b"
  by (metis Join_Split)

subsection \<open>Positions, cutting and replacing\<close>

definition IndexByte :: "string \<Rightarrow> char \<Rightarrow> nat option" where
  "IndexByte s c = (if c \<in> set s then Some (length (takeWhile (\<lambda>d. d \<noteq> c) s)) else None)"

definition LastIndexByte :: "string \<Rightarrow> char \<Rightarrow> nat option" where
  "LastIndexByte s c =
     (if c \<in> set s then Some (length s - 1 - length (takeWhile (\<lambda>d. d \<noteq> c) (rev s))) else None)"

text \<open>\<open>Cut\<close> at a separator character: the text before and after its first occurrence.\<close>

definition Cut :: "string \<Rightarrow> char \<Rightarrow> (string \<times> string) option" where
  "Cut s c = map_option (\<lambda>i. (take i s, drop (Suc i) s)) (IndexByte s c)"

text \<open>\<open>ReplaceAll\<close> of a non-empty text.\<close>

function ReplaceAll :: "string \<Rightarrow> string \<Rightarrow> string \<Rightarrow> string" where
  "ReplaceAll old new s =
     (case s of
        [] \<Rightarrow> []
      | c # r \<Rightarrow>
          if old \<noteq> [] \<and> prefix old s then new @ ReplaceAll old new (drop (length old) s)
          else c # ReplaceAll old new r)"
  by pat_completeness auto

termination
  by (relation "measure (\<lambda>(old, new, s). length s)") auto

declare ReplaceAll.simps [simp del]

definition TrimLeft :: "string \<Rightarrow> char \<Rightarrow> string" where
  "TrimLeft s c = dropWhile (\<lambda>d. d = c) s"

lemma takeWhile_neq_id [simp]: "c \<notin> set a \<Longrightarrow> takeWhile (\<lambda>d. d \<noteq> c) a = a"
  by (induction a) auto

lemma takeWhile_neq_less: "c \<in> set s \<Longrightarrow> length (takeWhile (\<lambda>d. d \<noteq> c) s) < length s"
  by (induction s) auto

lemma IndexByte_Some:
  assumes "IndexByte s c = Some i"
  shows "s = take i s @ c # drop (Suc i) s" "c \<notin> set (take i s)" "i < length s"
proof -
  have i: "i = length (takeWhile (\<lambda>d. d \<noteq> c) s)" and c: "c \<in> set s"
    using assms by (auto simp: IndexByte_def split: if_splits)
  have t: "take i s = takeWhile (\<lambda>d. d \<noteq> c) s"
    unfolding i by (metis takeWhile_eq_take)
  then show "c \<notin> set (take i s)"
    by (metis (mono_tags, lifting) set_takeWhileD)
  show lt: "i < length s"
    unfolding i using c by (rule takeWhile_neq_less)
  have "s ! i = c"
    unfolding i using lt i nth_length_takeWhile [of "\<lambda>d. d \<noteq> c" s] by simp
  with lt show "s = take i s @ c # drop (Suc i) s"
    by (metis id_take_nth_drop)
qed

lemma IndexByte_append: "c \<notin> set a \<Longrightarrow> IndexByte (a @ c # b) c = Some (length a)"
  by (simp add: IndexByte_def takeWhile_tail)

lemma LastIndexByte_append: "c \<notin> set b \<Longrightarrow> LastIndexByte (a @ c # b) c = Some (length a)"
  by (simp add: LastIndexByte_def takeWhile_tail)

subsection \<open>Decimal numbers\<close>

definition is_digit :: "char \<Rightarrow> bool" where
  "is_digit c \<longleftrightarrow> 48 \<le> byte_of c \<and> byte_of c \<le> 57"

definition dec_value :: "string \<Rightarrow> nat" where
  "dec_value s = foldl (\<lambda>n c. 10 * n + (byte_of c - 48)) 0 s"

text \<open>\<open>strconv.Atoi\<close>: an optional sign and digits, within 64 bits.\<close>

definition Atoi :: "string \<Rightarrow> int option" where
  "Atoi s =
     (let neg = (s \<noteq> [] \<and> hd s = CHR ''-''); signed = (s \<noteq> [] \<and> hd s \<in> {CHR ''-'', CHR ''+''});
          d = (if signed then tl s else s); n = int (dec_value d)
      in if d = [] \<or> \<not> list_all is_digit d then None
         else if neg then (if n \<le> 9223372036854775808 then Some (- n) else None)
         else if n \<le> 9223372036854775807 then Some n else None)"

fun Itoa_nat :: "nat \<Rightarrow> string" where
  "Itoa_nat n = (if n < 10 then [char_of (48 + n)] else Itoa_nat (n div 10) @ [char_of (48 + n mod 10)])"

declare Itoa_nat.simps [simp del]

lemma dec_value_snoc: "dec_value (s @ [c]) = 10 * dec_value s + (byte_of c - 48)"
  by (simp add: dec_value_def)

lemma Itoa_digits: "list_all is_digit (Itoa_nat n) \<and> Itoa_nat n \<noteq> [] \<and> dec_value (Itoa_nat n) = n"
proof (induction n rule: Itoa_nat.induct)
  case (1 n)
  have d: "is_digit (char_of (48 + k))" "byte_of (char_of (48 + k)) - 48 = k" if "k < 10" for k :: nat
    using that by (simp_all add: is_digit_def byte_of_char_of)
  show ?case
  proof (cases "n < 10")
    case True
    then show ?thesis
      using d [OF True] by (subst Itoa_nat.simps, subst Itoa_nat.simps, subst Itoa_nat.simps) (simp add: dec_value_def)
  next
    case False
    have "n mod 10 < 10" by simp
    with False 1 d [OF this] show ?thesis
      by (subst Itoa_nat.simps, subst Itoa_nat.simps, subst Itoa_nat.simps) (simp add: dec_value_snoc)
  qed
qed

end
