(* ===== verification/Mux_Timing.thy ===== *)
theory Mux_Timing
  imports Mux_Config Go_Strings "HOL-Library.Multiset"
begin

text \<open>
  Timeouts, keep-alive decisions, latency tracking and the pseudo random numbers of a session:
  \<open>src/lib/mux/mux.go\<close>, \<open>mux_io.go\<close>, \<open>budget.go\<close> and \<open>socket.go\<close>.

  Durations and times are nanoseconds.  A \<open>float64\<close> is the rational number it denotes: comparisons are
  exact, the rounding of sums and quotients is not modelled; where a float becomes an integer again
  (\<open>math.Ceil\<close> in \<open>effectivePingTimeout\<close>) the conversion is an argument.
\<close>

subsection \<open>Timeouts\<close>

definition normalizedConnType :: "string \<Rightarrow> string" where
  "normalizedConnType connType = ToLower (TrimSpace connType)"

definition resolvePingTimeout :: "MuxConfig \<Rightarrow> string \<Rightarrow> int64 \<Rightarrow> int64" where
  "resolvePingTimeout cfg connType pingCheckThreshold =
     (if 0 < pingCheckThreshold then wrap64 (pingCheckThreshold * second)
      else if 0 < PingTimeout cfg then PingTimeout cfg
      else
        (let base = wrap64 (PingInterval cfg + PingJitter cfg);
             timeout = (if normalizedConnType connType = ''kcp''
                        then wrap64 (PingInterval cfg + wrap64 (2 * PingJitter cfg))
                        else wrap64 (2 * base));
             maxTimeout = wrap64 (10 * base);
             timeout = (if maxTimeout < timeout then maxTimeout else timeout)
         in if timeout \<le> base then 30 * second else timeout))"

definition resolveMinPingTimeout :: "MuxConfig \<Rightarrow> int64 \<Rightarrow> int64" where
  "resolveMinPingTimeout cfg maxTimeout =
     (let timeout = MinPingTimeout cfg;
          timeout = (if timeout \<le> 0 then wrap64 (PingInterval cfg + PingJitter cfg) else timeout);
          timeout = (if timeout \<le> 0 then second else timeout)
      in if 0 < maxTimeout \<and> maxTimeout < timeout then maxTimeout else timeout)"

definition resolveOpenTimeout :: "MuxConfig \<Rightarrow> string \<Rightarrow> int64 \<Rightarrow> int64" where
  "resolveOpenTimeout cfg connType pingTimeout =
     (if 0 < OpenTimeout cfg then OpenTimeout cfg
      else
        (let timeout = (if normalizedConnType connType = ''kcp''
                        then (if 8 * second < pingTimeout then 8 * second else pingTimeout)
                        else (if 15 * second < pingTimeout then 15 * second else pingTimeout))
         in if timeout < 8 * second then 8 * second else timeout))"

definition resolveIOTimeout :: "int64 \<Rightarrow> int64 \<Rightarrow> int64" where
  "resolveIOTimeout timeout fallback =
     (if timeout < 0 then 0 else if 0 < timeout then timeout else if fallback < 0 then 0 else fallback)"

definition closeDeadline :: "MuxConfig \<Rightarrow> int64" where
  "closeDeadline cfg = (if CloseTimeout cfg \<le> 0 then 0 else CloseTimeout cfg)"

definition pingIdleThreshold :: "MuxConfig \<Rightarrow> int64" where
  "pingIdleThreshold cfg =
     (if PingInterval cfg \<le> 0 then 0
      else
        (let threshold = quot (PingInterval cfg) 2
         in if threshold \<le> 0 then PingInterval cfg
            else if threshold < 500000000 then 500000000 else threshold))"

text \<open>The clock fields of a session.\<close>

record muxClock =
  mc_config :: MuxConfig
  mc_pingTimeout :: int64
  mc_lastAliveTime :: int64
  mc_lastLatency :: uint64
  mc_peakLatency :: uint64

text \<open>\<open>scale peak mult\<close> is \<open>time.Duration(math.Ceil(float64(peak) * mult))\<close>.\<close>

definition effectivePingTimeout :: "(int64 \<Rightarrow> rat \<Rightarrow> int64) \<Rightarrow> muxClock \<Rightarrow> int64" where
  "effectivePingTimeout scale s =
     (let maxTimeout = (if mc_pingTimeout s \<le> 0 then 30 * second else mc_pingTimeout s);
          peak = sint (mc_peakLatency s)
      in if DisableAdaptivePingTimeout (mc_config s) then maxTimeout
         else if peak \<le> 0 then maxTimeout
         else
           (let minTimeout = resolveMinPingTimeout (mc_config s) maxTimeout;
                adaptive = scale peak (PingTimeoutMultiplier (mc_config s));
                adaptive = (if adaptive < minTimeout then minTimeout else adaptive);
                adaptive = (if maxTimeout < adaptive then maxTimeout else adaptive)
            in if adaptive \<le> 0 then maxTimeout else adaptive))"

definition markAlive :: "int64 \<Rightarrow> muxClock \<Rightarrow> muxClock" where
  "markAlive now s = s\<lparr>mc_lastAliveTime := now\<rparr>"

definition isAliveTimeout :: "(int64 \<Rightarrow> rat \<Rightarrow> int64) \<Rightarrow> int64 \<Rightarrow> muxClock \<Rightarrow> bool" where
  "isAliveTimeout scale now s \<longleftrightarrow>
     0 < mc_lastAliveTime s \<and> effectivePingTimeout scale s < now - mc_lastAliveTime s"

definition shouldSendPing :: "int64 \<Rightarrow> muxClock \<Rightarrow> bool" where
  "shouldSendPing now s \<longleftrightarrow>
     DisableTrafficAwarePing (mc_config s) \<or> mc_lastAliveTime s \<le> 0 \<or>
     pingIdleThreshold (mc_config s) \<le> 0 \<or> pingIdleThreshold (mc_config s) \<le> now - mc_lastAliveTime s"

text \<open>\<open>rnd n\<close> is \<open>randInt63n(n)\<close>.\<close>

definition nextPingDelay :: "(int64 \<Rightarrow> int64) \<Rightarrow> MuxConfig \<Rightarrow> int64" where
  "nextPingDelay rnd cfg =
     (if PingInterval cfg \<le> 0 then second
      else if PingJitter cfg = 0 then PingInterval cfg
      else
        (let j = rnd (PingJitter cfg) - quot (PingJitter cfg) 2;
             next = wrap64 (PingInterval cfg + j)
         in if next \<le> 0 then PingInterval cfg else next))"

definition observePeak :: "int64 \<Rightarrow> muxClock \<Rightarrow> muxClock" where
  "observePeak rtt s =
     (if rtt \<le> 0 then s
      else s\<lparr>mc_lastLatency := word_of_int rtt,
             mc_peakLatency := (if (word_of_int rtt :: uint64) \<le> mc_peakLatency s
                                then mc_peakLatency s else word_of_int rtt)\<rparr>)"

definition ResetPeakLatency :: "muxClock \<Rightarrow> int64 \<times> muxClock" where
  "ResetPeakLatency s = (sint (mc_peakLatency s), s\<lparr>mc_peakLatency := mc_lastLatency s\<rparr>)"

subsection \<open>Bandwidth estimates\<close>

definition minBandwidthCalcThreshold :: uint32 where "minBandwidthCalcThreshold = 131072"
definition maxBandwidthCalcThreshold :: uint32 where "maxBandwidthCalcThreshold = 4194304"
definition defaultBandwidthCalcThreshold :: uint32 where "defaultBandwidthCalcThreshold = 1048576"
definition kcpBandwidthCalcThreshold :: uint32 where "kcpBandwidthCalcThreshold = 524288"

definition normalizeBandwidthCalcThreshold :: "uint32 \<Rightarrow> uint32" where
  "normalizeBandwidthCalcThreshold n =
     (if n < minBandwidthCalcThreshold then minBandwidthCalcThreshold
      else if maxBandwidthCalcThreshold < n then maxBandwidthCalcThreshold else n)"

definition fallbackBandwidthCalcThreshold :: "string \<Rightarrow> uint32" where
  "fallbackBandwidthCalcThreshold connType =
     (if normalizedConnType connType = ''kcp'' then kcpBandwidthCalcThreshold
      else defaultBandwidthCalcThreshold)"

text \<open>\<open>sockBuf\<close> is the answer of \<open>socketReceiveBufferSize\<close>.\<close>

definition bandwidthCalcThreshold :: "uint32 option \<Rightarrow> string \<Rightarrow> uint32" where
  "bandwidthCalcThreshold sockBuf connType =
     (case sockBuf of
        Some n \<Rightarrow> normalizeBandwidthCalcThreshold n
      | None \<Rightarrow> fallbackBandwidthCalcThreshold connType)"

record Bandwidth =
  bw_read :: rat
  bw_readStart :: "int64 option"
  bw_lastReadStart :: "int64 option"
  bw_bufLength :: uint32
  bw_calcThreshold :: uint32

definition NewBandwidth :: "uint32 \<Rightarrow> Bandwidth" where
  "NewBandwidth threshold =
     \<lparr>bw_read = 0, bw_readStart = None, bw_lastReadStart = None, bw_bufLength = 0, bw_calcThreshold = threshold\<rparr>"

definition bw_calcBandWidth :: "Bandwidth \<Rightarrow> Bandwidth" where
  "bw_calcBandWidth b =
     (let t = (case (bw_readStart b, bw_lastReadStart b) of (Some x, Some y) \<Rightarrow> x - y | _ \<Rightarrow> 0)
      in if t \<le> 0 then b\<lparr>bw_bufLength := 0\<rparr>
         else b\<lparr>bw_read := (if bw_calcThreshold b \<le> bw_bufLength b
                            then of_int (uint (bw_bufLength b)) / (of_int t / of_int second) else bw_read b),
                bw_bufLength := 0\<rparr>)"

definition bw_StartRead :: "int64 \<Rightarrow> Bandwidth \<Rightarrow> Bandwidth" where
  "bw_StartRead now b =
     (let b = (if bw_readStart b = None then b\<lparr>bw_readStart := Some now\<rparr> else b)
      in if bw_calcThreshold b \<le> bw_bufLength b
         then bw_calcBandWidth (b\<lparr>bw_lastReadStart := bw_readStart b, bw_readStart := Some now\<rparr>)
         else b)"

definition bw_SetCopySize :: "uint16 \<Rightarrow> Bandwidth \<Rightarrow> Bandwidth" where
  "bw_SetCopySize n b = b\<lparr>bw_bufLength := bw_bufLength b + ucast n\<rparr>"

definition bw_Get :: "Bandwidth \<Rightarrow> rat" where
  "bw_Get b = (if bw_read b \<le> 0 then 0 else bw_read b)"

text \<open>The writer-side estimate of a stream.\<close>

record writeBandwidth =
  wb_bw :: rat
  wb_readEnd :: "int64 option"
  wb_duration :: rat
  wb_bufLength :: uint32
  wb_ratio :: uint32

definition writeCalcThreshold :: uint32 where "writeCalcThreshold = 5 * 1024 * 1024"

definition newWriteBandwidth :: writeBandwidth where
  "newWriteBandwidth = \<lparr>wb_bw = 0, wb_readEnd = None, wb_duration = 0, wb_bufLength = 0, wb_ratio = 1\<rparr>"

text \<open>Dividing by a zero duration gives a float infinity, which the argument \<open>infty\<close> stands for.\<close>

definition wb_calcBandWidth :: "rat \<Rightarrow> writeBandwidth \<Rightarrow> writeBandwidth" where
  "wb_calcBandWidth infty b =
     b\<lparr>wb_bw := (if wb_duration b = 0 then infty else of_int (uint (wb_bufLength b)) / wb_duration b),
       wb_bufLength := 0, wb_duration := 0\<rparr>"

definition wb_StartRead :: "rat \<Rightarrow> int64 \<Rightarrow> writeBandwidth \<Rightarrow> writeBandwidth" where
  "wb_StartRead infty now b =
     (let readEnd = (case wb_readEnd b of None \<Rightarrow> now | Some t \<Rightarrow> t);
          b = b\<lparr>wb_readEnd := Some readEnd, wb_duration := wb_duration b + of_int (now - readEnd) / of_int second\<rparr>
      in if writeCalcThreshold * wb_ratio b \<le> wb_bufLength b then wb_calcBandWidth infty b else b)"

definition wb_SetCopySize :: "int64 \<Rightarrow> uint16 \<Rightarrow> writeBandwidth \<Rightarrow> writeBandwidth" where
  "wb_SetCopySize now n b = b\<lparr>wb_bufLength := wb_bufLength b + ucast n, wb_readEnd := Some now\<rparr>"

definition wb_Get :: "writeBandwidth \<Rightarrow> rat" where
  "wb_Get b = (if wb_bw b \<le> 0 then 0 else wb_bw b)"

definition wb_GrowRatio :: "writeBandwidth \<Rightarrow> writeBandwidth" where
  "wb_GrowRatio b = b\<lparr>wb_ratio := wb_ratio b + 1\<rparr>"

subsection \<open>The latency window\<close>

definition counterBits :: nat where "counterBits = 4"
definition counterMask :: uint8 where "counterMask = 15"

record latencyCounter =
  lc_buf :: "rat list"
  lc_headMin :: uint8

definition newLatencyCounter :: latencyCounter where
  "newLatencyCounter = \<lparr>lc_buf = replicate (2 ^ counterBits) 0, lc_headMin = 0\<rparr>"

definition lc_unpack :: "uint8 \<Rightarrow> uint8 \<times> uint8" where
  "lc_unpack idx = (drop_bit counterBits idx AND counterMask, idx AND counterMask)"

definition lc_pack :: "uint8 \<Rightarrow> uint8 \<Rightarrow> uint8" where
  "lc_pack head mn = push_bit counterBits head OR (mn AND counterMask)"

text \<open>The loop of \<open>minimal\<close> over a list of indices: the best index so far, if one was found.\<close>

fun lc_scan :: "rat list \<Rightarrow> nat option \<Rightarrow> nat list \<Rightarrow> nat option" where
  "lc_scan buf best [] = best"
| "lc_scan buf best (j # js) =
     lc_scan buf
       (if 0 < buf ! j \<and> (case best of None \<Rightarrow> True | Some m \<Rightarrow> buf ! j < buf ! m) then Some j else best) js"

definition lc_minimal :: "latencyCounter \<Rightarrow> nat" where
  "lc_minimal c = (case lc_scan (lc_buf c) None [0..<16] of None \<Rightarrow> 0 | Some m \<Rightarrow> m)"

definition lc_add :: "rat \<Rightarrow> latencyCounter \<Rightarrow> latencyCounter" where
  "lc_add value c =
     (let (head, minIndex) = lc_unpack (lc_headMin c);
          c1 = c\<lparr>lc_buf := (lc_buf c)[unat head := value]\<rparr>;
          m = (if head = minIndex then lc_minimal c1 else unat minIndex);
          m = (if lc_buf c1 ! m \<le> 0 \<or> value < lc_buf c1 ! m then unat head else m)
      in c1\<lparr>lc_headMin := lc_pack (head + 1) (word_of_nat m)\<rparr>)"

definition lossRatio :: rat where "lossRatio = 3"

definition lc_countSuccess :: "latencyCounter \<Rightarrow> rat" where
  "lc_countSuccess c =
     (let m = unat (snd (lc_unpack (lc_headMin c)))
      in if lc_buf c ! m \<le> 0 then 0
         else
           (let good = filter (\<lambda>x. x \<le> lossRatio * lc_buf c ! m \<and> 0 < x) (map ((!) (lc_buf c)) [0..<16])
            in if length good = 0 then 0 else sum_list good / of_nat (length good)))"

definition lc_Latency :: "rat \<Rightarrow> latencyCounter \<Rightarrow> rat \<times> latencyCounter" where
  "lc_Latency value c = (let c = lc_add value c in (lc_countSuccess c, c))"

subsection \<open>Random numbers and ping frames\<close>

text \<open>One step of the xorshift generator from a nonzero state.\<close>

definition nextMuxRand :: "uint64 \<Rightarrow> uint64" where
  "nextMuxRand cur =
     (let next = cur XOR push_bit 13 cur;
          next = next XOR drop_bit 7 next;
          next = next XOR push_bit 17 next
      in if next = 0 then 1 else next)"

definition randIntn :: "int64 \<Rightarrow> uint64 \<Rightarrow> int64 \<times> uint64" where
  "randIntn n st =
     (if n \<le> 1 then (0, st) else (uint (nextMuxRand st mod word_of_int n), nextMuxRand st))"

definition randInt63n :: "int64 \<Rightarrow> uint64 \<Rightarrow> int64 \<times> uint64" where
  "randInt63n n st =
     (if n \<le> 1 then (0, st) else (uint (nextMuxRand st mod word_of_int n), nextMuxRand st))"

fun rand_bytes :: "nat \<Rightarrow> uint64 \<Rightarrow> bytes" where
  "rand_bytes 0 v = []"
| "rand_bytes (Suc k) v = ucast v # rand_bytes k (drop_bit 8 v)"

text \<open>\<open>fillRandomBytes\<close> on a buffer of \<open>n\<close> bytes: eight bytes from each number.\<close>

function fillRandomBytes :: "nat \<Rightarrow> uint64 \<Rightarrow> bytes \<times> uint64" where
  "fillRandomBytes n st =
     (if n = 0 then ([], st)
      else
        (let v = nextMuxRand st; k = min 8 n; (rest, st') = fillRandomBytes (n - k) v
         in (rand_bytes k v @ rest, st')))"
  by auto
termination
  by (relation "measure fst") auto

declare fillRandomBytes.simps [simp del]

definition isZero :: "bytes \<Rightarrow> bool" where
  "isZero buf \<longleftrightarrow> (\<forall>b \<in> set buf. b = 0)"

definition fillPingPad :: "MuxConfig \<Rightarrow> nat \<Rightarrow> uint64 \<Rightarrow> bytes \<times> uint64" where
  "fillPingPad cfg n st =
     (if n = 0 then ([], st)
      else if DisablePingPadRandom cfg then (replicate n 0, st)
      else fillRandomBytes n st)"

definition ping_pad :: "MuxConfig \<Rightarrow> uint64 \<Rightarrow> int64 \<times> uint64" where
  "ping_pad cfg st = (if 0 < PingMaxPad cfg then randIntn (PingMaxPad cfg + 1) st else (0, st))"

text \<open>The payload of a ping: eight bytes of time stamp (\<open>stamp\<close>) and the padding.\<close>

definition preparePingPayload :: "MuxConfig \<Rightarrow> bytes \<Rightarrow> uint64 \<Rightarrow> bytes \<times> uint64" where
  "preparePingPayload cfg stamp st =
     (let (pad, st) = ping_pad cfg st
      in if pad = 0 then (stamp, st)
         else (let (p, st) = fillPingPad cfg (nat pad) st in (stamp @ p, st)))"

definition preparePingReply :: "MuxConfig \<Rightarrow> bytes \<Rightarrow> uint64 \<Rightarrow> bytes \<times> uint64" where
  "preparePingReply cfg buf st =
     (if length buf \<le> 8 then (buf, st)
      else if isZero (drop 8 buf) then
        (let (pad, st) = ping_pad cfg st;
             (p, st) = (if 0 < pad then fillPingPad cfg (nat pad) st else ([], st))
         in (take 8 buf @ p, st))
      else (buf, st))"

subsection \<open>Properties of the generator\<close>

lemma xor_push_bit_zero:
  fixes z :: uint64
  assumes "z = push_bit k z" "0 < k"
  shows "z = 0"
proof -
  have "\<not> bit z n" for n
  proof (induction n rule: less_induct)
    case (less n)
    show ?case
    proof
      assume "bit z n"
      then have "bit (push_bit k z) n" using assms(1) by simp
      then have "k \<le> n" "bit z (n - k)" by (simp_all add: bit_push_bit_iff)
      with less assms(2) show False by simp
    qed
  qed
  then show ?thesis by (simp add: bit_eq_iff)
qed

lemma xor_drop_bit_zero:
  fixes z :: uint64
  assumes "z = drop_bit k z" "0 < k"
  shows "z = 0"
proof -
  have step: "bit z n \<longleftrightarrow> bit z (k + n)" for n
    using assms(1) by (metis bit_drop_bit_eq comp_apply)
  have "bit z n \<longleftrightarrow> bit z (k * m + n)" for m n
    by (induction m) (use step in \<open>auto simp: add.assoc\<close>)
  then have "bit z n \<longleftrightarrow> bit z (k * 64 + n)" for n by blast
  moreover have "\<not> bit z (k * 64 + n)" for n
    using bit_imp_le_length [of z "k * 64 + n"] assms(2) by auto
  ultimately show ?thesis by (simp add: bit_eq_iff)
qed

lemma xor_cross:
  fixes x y u v :: uint64
  assumes "x XOR u = y XOR v"
  shows "x XOR y = u XOR v"
proof -
  have "x XOR y = (x XOR u) XOR (u XOR y)"
    by (rule bit_eqI) (auto simp: bit_xor_iff)
  also have "\<dots> = (y XOR v) XOR (u XOR y)" using assms by simp
  also have "\<dots> = u XOR v"
    by (rule bit_eqI) (auto simp: bit_xor_iff)
  finally show ?thesis .
qed

lemma xorshift_inj:
  fixes x y :: uint64
  assumes "\<And>a b. f (a XOR b) = f a XOR f b" "\<And>z. z = f z \<Longrightarrow> z = 0" "x XOR f x = y XOR f y"
  shows "x = y"
proof -
  have "(x XOR y) = f (x XOR y)"
    using assms(1)[of x y] xor_cross [OF assms(3)] by simp
  then have "x XOR y = 0" by (rule assms(2))
  then show ?thesis by (simp add: bit_eq_iff bit_xor_iff)
qed

definition xorshift64 :: "uint64 \<Rightarrow> uint64" where
  "xorshift64 x =
     (let a = x XOR push_bit 13 x; b = a XOR drop_bit 7 a in b XOR push_bit 17 b)"

lemma xorshift64_inj: "xorshift64 x = xorshift64 y \<Longrightarrow> x = y"
proof -
  have p: "a = b" if "a XOR push_bit k a = b XOR push_bit k b" "0 < k" for a b :: uint64 and k
    by (rule xorshift_inj [where f = "push_bit k"], rule push_bit_xor, erule xor_push_bit_zero) (rule that)+
  have d: "a = b" if "a XOR drop_bit k a = b XOR drop_bit k b" "0 < k" for a b :: uint64 and k
    by (rule xorshift_inj [where f = "drop_bit k"], rule drop_bit_xor, erule xor_drop_bit_zero) (rule that)+
  assume "xorshift64 x = xorshift64 y"
  then have "(x XOR push_bit 13 x) XOR drop_bit 7 (x XOR push_bit 13 x) =
      (y XOR push_bit 13 y) XOR drop_bit 7 (y XOR push_bit 13 y)"
    unfolding xorshift64_def Let_def by (rule p) simp
  then have "x XOR push_bit 13 x = y XOR push_bit 13 y"
    by (rule d) simp
  then show ?thesis by (rule p) simp
qed

lemma nextMuxRand_eq: "st \<noteq> 0 \<Longrightarrow> nextMuxRand st = xorshift64 st \<and> nextMuxRand st \<noteq> 0"
proof -
  assume "st \<noteq> 0"
  then have "xorshift64 st \<noteq> xorshift64 0"
    using xorshift64_inj by blast
  then show ?thesis
    by (simp add: nextMuxRand_def xorshift64_def Let_def)
qed

lemma uint_mod_of_int:
  assumes "1 < n" "n \<le> maxI64"
  shows "0 \<le> uint (x mod word_of_int n :: uint64)" "uint (x mod word_of_int n :: uint64) < n"
proof -
  have "uint (word_of_int n :: uint64) = n"
    using assms by (simp add: maxI64_def uint_word_of_int_eq take_bit_int_eq_self)
  then show "uint (x mod word_of_int n :: uint64) < n"
    using assms(1) by (simp only: uint_mod_distrib) simp
qed simp

lemma randIntn_bounds:
  assumes "n \<le> maxI64"
  shows "0 \<le> fst (randIntn n st)" "1 \<le> n \<Longrightarrow> fst (randIntn n st) < n"
proof -
  show "0 \<le> fst (randIntn n st)"
    by (simp only: randIntn_def split: if_split) simp
  show "fst (randIntn n st) < n" if "1 \<le> n"
    using uint_mod_of_int(2) [OF _ assms] that by (simp only: randIntn_def split: if_split) simp
qed


subsection \<open>The adaptive ping timeout stays within its bounds\<close>

definition maxPingTimeout :: "muxClock \<Rightarrow> int64" where
  "maxPingTimeout s = (if mc_pingTimeout s \<le> 0 then 30 * second else mc_pingTimeout s)"

lemma resolveMinPingTimeout_bounds:
  assumes "0 < m"
  shows "0 < resolveMinPingTimeout cfg m" "resolveMinPingTimeout cfg m \<le> m"
  using assms by (auto simp: resolveMinPingTimeout_def Let_def second_def)



subsection \<open>The latency counter averages over the last sixteen samples\<close>

definition is_min :: "rat list \<Rightarrow> nat \<Rightarrow> bool" where
  "is_min b m \<longleftrightarrow> m < length b \<and> 0 < b ! m \<and> (\<forall>j < length b. 0 < b ! j \<longrightarrow> b ! m \<le> b ! j)"

fun best_of :: "rat list \<Rightarrow> nat set \<Rightarrow> nat option \<Rightarrow> bool" where
  "best_of buf S None \<longleftrightarrow> (\<forall>j \<in> S. buf ! j \<le> 0)"
| "best_of buf S (Some m) \<longleftrightarrow> m \<in> S \<and> 0 < buf ! m \<and> (\<forall>j \<in> S. 0 < buf ! j \<longrightarrow> buf ! m \<le> buf ! j)"

lemma lc_scan_spec: "best_of buf S best \<Longrightarrow> best_of buf (S \<union> set js) (lc_scan buf best js)"
proof (induction js arbitrary: best S)
  case Nil
  then show ?case by simp
next
  case (Cons j js)
  let ?best = "if 0 < buf ! j \<and> (case best of None \<Rightarrow> True | Some m \<Rightarrow> buf ! j < buf ! m) then Some j else best"
  have "best_of buf (insert j S) ?best"
    using Cons.prems by (cases best) force+
  from Cons.IH [OF this] show ?case by simp
qed

lemma lc_minimal_is_min:
  assumes "length (lc_buf c) = 16" "j < 16" "0 < lc_buf c ! j"
  shows "is_min (lc_buf c) (lc_minimal c)"
proof -
  have "best_of (lc_buf c) {0..<16} (lc_scan (lc_buf c) None [0..<16])"
    using lc_scan_spec [where best = None and S = "{}" and js = "[0..<16]"] by simp
  then show ?thesis
    using assms by (cases "lc_scan (lc_buf c) None [0..<16]") (force simp: lc_minimal_def is_min_def)+
qed

lemma is_min_update:
  assumes "is_min b m" "h < length b" "h \<noteq> m" "0 < v"
  shows "is_min (b[h := v]) (if v < b ! m then h else m)"
  using assms by (auto simp: is_min_def nth_list_update split: if_splits dest: less_le_trans)

text \<open>The ring buffer, read from the head on, is the window of samples after some initial zeros.\<close>

definition lc_head :: "latencyCounter \<Rightarrow> nat" where
  "lc_head c = unat (fst (lc_unpack (lc_headMin c)))"

definition lc_min :: "latencyCounter \<Rightarrow> nat" where
  "lc_min c = unat (snd (lc_unpack (lc_headMin c)))"

definition lc_rel :: "latencyCounter \<Rightarrow> rat list \<Rightarrow> bool" where
  "lc_rel c vs \<longleftrightarrow> length (lc_buf c) = 16 \<and> lc_head c = length vs mod 16 \<and>
     rotate (length vs mod 16) (lc_buf c) = drop (length vs) (replicate 16 0 @ vs) \<and>
     (if vs = [] then lc_min c = 0 else is_min (lc_buf c) (lc_min c))"

lemma lc_unpack_pack:
  assumes "m < 16"
  shows "lc_unpack (lc_pack h (word_of_nat m)) = (h AND 15, word_of_nat m)"
proof -
  have f: "(15 :: uint8) = mask 4" by (simp add: mask_eq_exp_minus_1)
  have "(word_of_nat m :: uint8) AND 15 = take_bit 4 (word_of_nat m)"
    by (simp only: f take_bit_eq_mask)
  also have "\<dots> = word_of_nat m"
    using assms by (simp only: take_bit_of_nat) (simp add: take_bit_nat_eq_self)
  finally have m: "(word_of_nat m :: uint8) AND 15 = word_of_nat m" .
  have "drop_bit 4 (push_bit 4 h OR ((word_of_nat m :: uint8) AND 15)) AND 15 = h AND 15"
    unfolding f by (rule bit_eqI) (auto simp: bit_simps)
  moreover have "(push_bit 4 h OR ((word_of_nat m :: uint8) AND 15)) AND 15 = word_of_nat m AND 15"
    unfolding f by (rule bit_eqI) (auto simp: bit_simps)
  ultimately show ?thesis
    unfolding lc_unpack_def lc_pack_def counterBits_def counterMask_def by (simp add: m)
qed

lemma lc_head_min_lt: "lc_head c < 16" "lc_min c < 16"
proof -
  have f: "(15 :: uint8) = mask 4" by (simp add: mask_eq_exp_minus_1)
  have "unat (w AND (15 :: uint8)) < 16" for w
    by (simp only: f flip: take_bit_eq_mask) (simp add: unsigned_take_bit_eq take_bit_nat_less_exp [where n = 4, simplified])
  then show "lc_head c < 16" "lc_min c < 16"
    by (simp_all add: lc_head_def lc_min_def lc_unpack_def counterMask_def)
qed

lemma unat_next_head:
  assumes "unat (h :: uint8) < 16"
  shows "unat ((h + 1) AND 15) = Suc (unat h) mod 16"
proof -
  have f: "(15 :: uint8) = mask 4" by (simp add: mask_eq_exp_minus_1)
  have "unat (h + 1) = Suc (unat h)" using assms by (simp add: unat_word_ariths)
  then show ?thesis
    by (simp only: f unsigned_take_bit_eq flip: take_bit_eq_mask) (simp add: take_bit_nat_def)
qed

lemma rotate_update:
  assumes "h < length xs"
  shows "rotate (Suc h) (xs[h := v]) = tl (rotate h xs) @ [v]"
proof -
  obtain a b where ab: "xs = a @ (xs ! h) # b" "length a = h"
    using id_take_nth_drop [OF assms] assms by (metis length_take min.absorb4)
  then have "xs[h := v] = a @ v # b" by (metis list_update_length)
  moreover have "rotate (Suc (length a)) (a @ v # b) = b @ a @ [v]"
    using rotate_append [of "a @ [v]" b] by simp
  moreover have "rotate (length a) (a @ (xs ! h) # b) = (xs ! h) # b @ a"
    using rotate_append [of a "(xs ! h) # b"] by simp
  ultimately show ?thesis using ab by simp
qed

lemma drop_snoc: "n < length xs \<Longrightarrow> tl (drop n xs) @ [v] = drop (Suc n) (xs @ [v])"
  by (simp add: tl_drop flip: drop_Suc)

lemma rotate_mod16:
  assumes "length xs = 16"
  shows "rotate (Suc n mod 16) xs = rotate (Suc (n mod 16)) xs"
  using rotate_conv_mod [of "Suc (n mod 16)" xs] assms by (simp add: mod_Suc_eq)

text \<open>What \<open>lc_add\<close> does to the three parts of the state.\<close>

lemma lc_add_parts:
  assumes "length (lc_buf c) = 16" "0 < v" "vs = [] \<longrightarrow> lc_head c = lc_min c"
    "vs \<noteq> [] \<longrightarrow> is_min (lc_buf c) (lc_min c)"
  shows "lc_buf (lc_add v c) = (lc_buf c)[lc_head c := v]"
    "lc_head (lc_add v c) = Suc (lc_head c) mod 16"
    "is_min (lc_buf (lc_add v c)) (lc_min (lc_add v c))"
proof -
  let ?b = "(lc_buf c)[lc_head c := v]"
  define c1 where "c1 = c\<lparr>lc_buf := ?b\<rparr>"
  define m0 where "m0 = (if lc_head c = lc_min c then lc_minimal c1 else lc_min c)"
  define m where "m = (if ?b ! m0 \<le> 0 \<or> v < ?b ! m0 then lc_head c else m0)"
  obtain hd mn where u: "lc_unpack (lc_headMin c) = (hd, mn)" by fastforce
  have h: "unat hd = lc_head c" "unat mn = lc_min c" "hd = mn \<longleftrightarrow> lc_head c = lc_min c"
    using u by (simp_all add: lc_head_def lc_min_def unat_eq_iff)
  note lt = lc_head_min_lt [of c]
  have add: "lc_add v c = c1\<lparr>lc_headMin := lc_pack (hd + 1) (word_of_nat m)\<rparr>"
    using u h unfolding lc_add_def Let_def m_def m0_def c1_def by simp
  have mn: "is_min ?b m"
  proof (cases "lc_head c = lc_min c")
    case True
    have "is_min ?b m0"
      using lc_minimal_is_min [of c1 "lc_head c"] True lt assms(1,2) by (simp add: m0_def c1_def)
    moreover from this have "\<not> v < ?b ! m0" "0 < ?b ! m0"
      using assms(1,2) lt by (auto simp: is_min_def)
    ultimately show ?thesis by (simp add: m_def)
  next
    case False
    then have old: "is_min (lc_buf c) (lc_min c)" using assms(3,4) by blast
    then have "is_min ?b (if v < lc_buf c ! lc_min c then lc_head c else lc_min c)"
      using False lt assms by (intro is_min_update) simp_all
    moreover have "m = (if v < lc_buf c ! lc_min c then lc_head c else lc_min c)"
      using False old by (auto simp: m_def m0_def is_min_def)
    ultimately show ?thesis by simp
  qed
  then have m16: "m < 16" using assms(1) by (simp add: is_min_def)
  have un: "lc_unpack (lc_pack (hd + 1) (word_of_nat m)) = ((hd + 1) AND 15, word_of_nat m)"
    by (rule lc_unpack_pack [OF m16])
  show "lc_buf (lc_add v c) = ?b" by (simp add: add c1_def)
  moreover have "lc_min (lc_add v c) = m"
    using m16 by (simp add: add lc_min_def un unat_of_nat_id)
  ultimately show "is_min (lc_buf (lc_add v c)) (lc_min (lc_add v c))" using mn by simp
  show "lc_head (lc_add v c) = Suc (lc_head c) mod 16"
    using unat_next_head [of hd] h(1) lt by (simp add: add lc_head_def un)
qed

lemma lc_add_rel:
  assumes "lc_rel c vs" "0 < v"
  shows "lc_rel (lc_add v c) (vs @ [v])"
proof -
  have len: "length (lc_buf c) = 16" and hd: "lc_head c = length vs mod 16"
    and rot: "rotate (length vs mod 16) (lc_buf c) = drop (length vs) (replicate 16 0 @ vs)"
    and e: "vs = [] \<longrightarrow> lc_head c = lc_min c" and m: "vs \<noteq> [] \<longrightarrow> is_min (lc_buf c) (lc_min c)"
    using assms(1) by (auto simp: lc_rel_def)
  note p = lc_add_parts [OF len assms(2) e m]
  have "rotate (length (vs @ [v]) mod 16) (lc_buf (lc_add v c)) = tl (drop (length vs) (replicate 16 0 @ vs)) @ [v]"
    using rotate_update [of "lc_head c" "lc_buf c" v] len hd rot by (simp add: p(1) rotate_mod16)
  also have "\<dots> = drop (length (vs @ [v])) (replicate 16 0 @ (vs @ [v]))"
    using drop_snoc [of "length vs" "replicate 16 0 @ vs" v] by (simp only: append_assoc) simp
  finally show ?thesis
    using p len hd by (simp add: lc_rel_def mod_Suc_eq)
qed

definition window16 :: "rat list \<Rightarrow> rat list" where
  "window16 vs = drop (length vs - 16) vs"

lemma mset_rotate: "mset (rotate n xs) = mset xs"
proof (induction n)
  case (Suc n)
  have "mset (rotate1 ys) = mset ys" for ys :: "'a list" by (cases ys) simp_all
  with Suc show ?case by simp
qed simp

lemma window16_nonempty: "vs \<noteq> [] \<Longrightarrow> window16 vs \<noteq> []"
  by (cases vs) (auto simp: window16_def)

lemma lc_rel_positive:
  assumes "lc_rel c vs" "\<forall>v \<in> set vs. 0 < v"
  shows "filter_mset (\<lambda>x. 0 < x) (mset (lc_buf c)) = mset (window16 vs)"
proof -
  have "mset (lc_buf c) = mset (rotate (length vs mod 16) (lc_buf c))" by (simp add: mset_rotate)
  also have "\<dots> = mset (replicate (16 - length vs) 0) + mset (window16 vs)"
    using assms(1) by (simp add: lc_rel_def window16_def)
  finally have "filter_mset (\<lambda>x. 0 < x) (mset (lc_buf c)) = filter_mset (\<lambda>x. 0 < x) (mset (window16 vs))"
    by (simp flip: mset_filter)
  moreover have "filter (\<lambda>x. 0 < x) (window16 vs) = window16 vs"
    using assms(2) by (intro filter_True) (auto simp: window16_def dest: in_set_dropD)
  ultimately show ?thesis by (simp flip: mset_filter)
qed

lemma lc_rel_Min:
  assumes "lc_rel c vs" "\<forall>v \<in> set vs. 0 < v" "vs \<noteq> []"
  shows "lc_buf c ! lc_min c = Min (set (window16 vs))"
proof -
  have m: "is_min (lc_buf c) (lc_min c)" using assms by (simp add: lc_rel_def)
  have "set (window16 vs) = {x \<in> set (lc_buf c). 0 < x}"
    using lc_rel_positive [OF assms(1,2)] by (metis set_mset_filter set_mset_mset)
  with m show ?thesis
    by (intro Min_eqI [symmetric]) (auto simp: is_min_def in_set_conv_nth)
qed

lemma lc_fold_rel:
  "\<forall>v \<in> set vs. 0 < v \<Longrightarrow> lc_rel (fold lc_add vs newLatencyCounter) vs"
proof (induction vs rule: rev_induct)
  case Nil
  show ?case
    by (simp add: lc_rel_def newLatencyCounter_def counterBits_def lc_head_def lc_min_def lc_unpack_def)
next
  case (snoc v vs)
  then show ?case using lc_add_rel by simp
qed

text \<open>The mean of the samples of a window that are at most \<open>lossRatio\<close> times its minimum.\<close>

definition trimmed_mean :: "rat list \<Rightarrow> rat" where
  "trimmed_mean w =
     (let good = filter (\<lambda>x. x \<le> lossRatio * Min (set w)) w in sum_list good / of_nat (length good))"

lemma lc_countSuccess_rel:
  assumes "lc_rel c vs" "\<forall>v \<in> set vs. 0 < v" "vs \<noteq> []"
  shows "lc_countSuccess c = trimmed_mean (window16 vs)"
proof -
  let ?m = "Min (set (window16 vs))"
  let ?g = "filter (\<lambda>x. x \<le> lossRatio * ?m) (window16 vs)"
  let ?G = "filter (\<lambda>x. x \<le> lossRatio * ?m \<and> 0 < x) (lc_buf c)"
  have m: "lc_buf c ! lc_min c = ?m" by (rule lc_rel_Min [OF assms])
  have pos: "0 < ?m" using assms m by (simp add: lc_rel_def is_min_def)
  have "mset ?G = filter_mset (\<lambda>x. x \<le> lossRatio * ?m) (filter_mset (\<lambda>x. 0 < x) (mset (lc_buf c)))"
    by (simp add: filter_filter_mset conj_commute)
  then have ms: "mset ?G = mset ?g" by (simp only: lc_rel_positive [OF assms(1,2)]) simp
  then have "sum_list ?G = sum_list ?g" "length ?G = length ?g"
    by (metis sum_mset_sum_list, metis size_mset)
  moreover have "map ((!) (lc_buf c)) [0..<16] = lc_buf c"
    using assms(1) map_nth [of "lc_buf c"] by (simp add: lc_rel_def)
  moreover have "?G \<noteq> []"
  proof -
    have "?m \<in> set (window16 vs)" using window16_nonempty [OF assms(3)] by (intro Min_in) simp_all
    then have "?m \<in> set ?g" using pos by (simp add: lossRatio_def)
    then show ?thesis using ms by (metis empty_iff empty_set mset_zero_iff)
  qed
  ultimately show ?thesis
    using m pos unfolding lc_countSuccess_def trimmed_mean_def Let_def
    by (simp add: lc_min_def [symmetric])
qed

text \<open>
  C31: The latency a session reports after any sequence of positive round-trip samples is exactly the
  mean of those among the last sixteen that are at most three times the smallest of them, and so it
  lies between that minimum and its triple: the packed head and minimum indices, the wrap-around of
  the ring and the incremental minimum are all correct.
\<close>

theorem latency_is_trimmed_mean:
  assumes "\<forall>x \<in> set (vs @ [v]). 0 < x"
  shows "let L = fst (lc_Latency v (fold lc_add vs newLatencyCounter)); w = window16 (vs @ [v])
    in L = trimmed_mean w \<and> Min (set w) \<le> L \<and> L \<le> 3 * Min (set w)"
proof -
  let ?w = "window16 (vs @ [v])" and ?m = "Min (set (window16 (vs @ [v])))"
  let ?g = "filter (\<lambda>x. x \<le> lossRatio * ?m) ?w"
  have rel: "lc_rel (fold lc_add (vs @ [v]) newLatencyCounter) (vs @ [v])"
    by (rule lc_fold_rel [OF assms])
  have L: "fst (lc_Latency v (fold lc_add vs newLatencyCounter)) = trimmed_mean ?w"
    using lc_countSuccess_rel [OF rel assms] by (simp add: lc_Latency_def Let_def)
  have "?m \<in> set ?w" using window16_nonempty [of "vs @ [v]"] by (intro Min_in) simp_all
  moreover from this have "0 < ?m" using assms by (auto simp: window16_def dest: in_set_dropD)
  ultimately have ne: "?g \<noteq> []"
    by (auto simp: lossRatio_def filter_empty_conv intro!: bexI [of _ ?m])
  have "of_nat (length ?g) * ?m \<le> sum_list ?g" "sum_list ?g \<le> of_nat (length ?g) * (3 * ?m)"
    using sum_list_mono [of ?g "\<lambda>_. ?m" "\<lambda>x. x"] sum_list_mono [of ?g "\<lambda>x. x" "\<lambda>_. 3 * ?m"]
    by (auto simp: sum_list_triv lossRatio_def)
  then show ?thesis
    using ne unfolding L Let_def
    by (simp add: trimmed_mean_def Let_def pos_le_divide_eq pos_divide_le_eq mult.commute)
qed

theorem latency_is_trimmed_mean_witness:
  "let L = fst (lc_Latency 2 (fold lc_add [1, 9] newLatencyCounter)) in 1 \<le> L \<and> L \<le> 3"
proof -
  have "Min (set (window16 ([1, 9] @ [2]))) = 1" by (simp add: window16_def)
  then show ?thesis using latency_is_trimmed_mean [of "[1, 9]" 2] by (simp add: Let_def)
qed

subsection \<open>Ping frames fit into one segment\<close>

lemmas segment_defs = maximumSegmentSize_def poolSizeWindow_def poolSizeBuffer_def

lemma length_rand_bytes [simp]: "length (rand_bytes k v) = k"
  by (induction k arbitrary: v) simp_all

lemma length_fillRandomBytes [simp]: "length (fst (fillRandomBytes n st)) = n"
proof (induction n st rule: fillRandomBytes.induct)
  case (1 n st)
  then show ?case
    by (subst fillRandomBytes.simps) (auto simp: Let_def split: prod.splits)
qed

lemma length_fillPingPad [simp]: "length (fst (fillPingPad cfg n st)) = n"
  by (simp add: fillPingPad_def)

lemma ping_pad_bounds:
  assumes "PingMaxPad cfg \<le> maximumSegmentSize - 8"
  shows "0 \<le> fst (ping_pad cfg st)" "fst (ping_pad cfg st) \<le> maximumSegmentSize - 8"
proof -
  have le: "PingMaxPad cfg + 1 \<le> maxI64"
    using assms by (simp add: maxI64_def segment_defs)
  have "0 \<le> maximumSegmentSize - 8"
    by (simp add: segment_defs)
  then show "0 \<le> fst (ping_pad cfg st)" "fst (ping_pad cfg st) \<le> maximumSegmentSize - 8"
    using randIntn_bounds [OF le, of st] assms by (auto simp: ping_pad_def)
qed

lemma normalizeMuxConfig_pad: "PingMaxPad (normalizeMuxConfig cfg) \<le> maximumSegmentSize - 8"
  by (simp add: normalizeMuxConfig_def Let_def segment_defs split: prod.splits)

text \<open>
  With a normalised configuration a ping payload carries its eight-byte time stamp in front and
  never exceeds one segment, and the reply to a ping of at most a segment echoes its first eight bytes
  and stays within a segment too, for every random state: neither side can produce a ping that its own
  frame encoder refuses for its size.
\<close>

lemma ping_fits_segment:
  fixes cfg :: MuxConfig
  defines "n \<equiv> normalizeMuxConfig cfg"
  assumes "length stamp = 8" "int (length buf) \<le> maximumSegmentSize"
  shows "take 8 (fst (preparePingPayload n stamp st)) = stamp \<and>
    int (length (fst (preparePingPayload n stamp st))) \<le> maximumSegmentSize \<and>
    take 8 (fst (preparePingReply n buf st)) = take 8 buf \<and>
    int (length (fst (preparePingReply n buf st))) \<le> maximumSegmentSize"
proof -
  obtain pad st' where p: "ping_pad n st = (pad, st')" by fastforce
  obtain q st'' where q: "fillPingPad n (nat pad) st' = (q, st'')" by fastforce
  have b: "0 \<le> pad" "pad \<le> maximumSegmentSize - 8"
    using ping_pad_bounds [of n st] normalizeMuxConfig_pad [of cfg] p by (simp_all add: n_def)
  have l: "length q = nat pad" using length_fillPingPad [of n "nat pad" st'] q by simp
  have "8 \<le> maximumSegmentSize" by (simp add: segment_defs)
  then show ?thesis
    using assms(2,3) b l by (auto simp: preparePingPayload_def preparePingReply_def p q Let_def)
qed

end
