(* ===== verification/Mux_Session.thy ===== *)
theory Mux_Session
  imports Mux_Recv Mux_Send Mux_Cond Mux_Timing "HOL-Library.AList"
begin

text \<open>
  A session: streams (\<open>src/lib/mux/conn.go\<close>), the session object (\<open>mux.go\<close>) and the frame dispatch of its
  read loop (\<open>mux_io.go\<close>), composed from the windows, the write queue and the frames of the other
  theories.

  Streams are objects shared by the stream map, the accept queue and their users, so they live in a
  store and are referred to by numbers.  The stream map is an association list (its order stands for the
  order of a map iteration).  A channel of capacity one is a flag.  \<open>wb\<close> is the pooled buffer a frame is
  built in, \<open>fl\<close> the float estimates of the window arithmetic.
\<close>

subsection \<open>Streams and sessions\<close>

record Conn =
  c_ok :: bool
  c_fail :: bool
  c_id :: int32
  c_priority :: bool
  c_isClose :: bool
  c_closing :: bool
  c_writeClosed :: bool
  c_remoteWriteClosed :: bool
  c_rw :: receiveWindow
  c_sw :: sendWindow
  c_once :: bool

definition NewConn :: "int32 \<Rightarrow> Conn" where
  "NewConn connId =
     \<lparr>c_ok = False, c_fail = False, c_id = connId, c_priority = False, c_isClose = False, c_closing = False,
      c_writeClosed = False, c_remoteWriteClosed = False, c_rw = rw_New, c_sw = sw_New, c_once = False\<rparr>"

record Mux =
  m_budget :: mux_budget
  m_id :: int32
  m_isInitiator :: bool
  m_connMap :: "(int32 \<times> nat) list"
  m_conns :: "nat \<Rightarrow> Conn"
  m_next :: nat
  m_newConnCh :: "nat list"
  m_localCapabilities :: uint32
  m_remoteCapabilities :: uint32
  m_closed :: bool
  m_closeReason :: string
  m_queue :: priorityQueue

definition capabilityCloseWrite :: uint32 where
  "capabilityCloseWrite = 1"

definition defaultLocalCapabilities :: uint32 where
  "defaultLocalCapabilities = capabilityCloseWrite"

text \<open>\<open>NewMuxWithConfig\<close> up to the start of its goroutines; \<open>isInitiator\<close> only chooses the first id.\<close>

definition NewMuxWithConfig :: "string \<Rightarrow> int64 \<Rightarrow> bool \<Rightarrow> MuxConfig \<Rightarrow> Mux" where
  "NewMuxWithConfig connType pingCheckThreshold isInitiator config =
     (let cfg = normalizeMuxConfig config;
          pingTimeout = resolvePingTimeout cfg connType pingCheckThreshold;
          cfg = cfg\<lparr>PingTimeout := pingTimeout\<rparr>;
          cfg = cfg\<lparr>MinPingTimeout := resolveMinPingTimeout cfg pingTimeout\<rparr>;
          cfg = cfg\<lparr>ReadTimeout := resolveIOTimeout (ReadTimeout cfg) pingTimeout,
                    WriteTimeout := resolveIOTimeout (WriteTimeout cfg) pingTimeout\<rparr>
      in \<lparr>m_budget = \<lparr>sessionRecvQueued = 0, sessionRecvLimit = MaxSessionReceiveWindow cfg, mux_config = cfg\<rparr>,
          m_id = (if isInitiator then -1 else 0), m_isInitiator = False, m_connMap = [],
          m_conns = (\<lambda>_. NewConn 0), m_next = 0, m_newConnCh = [],
          m_localCapabilities = defaultLocalCapabilities, m_remoteCapabilities = 0, m_closed = False,
          m_closeReason = [],
          m_queue = ConfigureWatermarks (WriteQueueHighWater cfg) (WriteQueueLowWater cfg) pq_New\<rparr>)"

definition upd_conn :: "nat \<Rightarrow> (Conn \<Rightarrow> Conn) \<Rightarrow> Mux \<Rightarrow> Mux" where
  "upd_conn p f m = m\<lparr>m_conns := (m_conns m)(p := f (m_conns m p))\<rparr>"

definition alloc_conn :: "int32 \<Rightarrow> Mux \<Rightarrow> nat \<times> Mux" where
  "alloc_conn connId m =
     (m_next m, m\<lparr>m_conns := (m_conns m)(m_next m := NewConn connId), m_next := m_next m + 1\<rparr>)"

definition SetPriority :: "nat \<Rightarrow> Mux \<Rightarrow> Mux" where
  "SetPriority p = upd_conn p (\<lambda>c. c\<lparr>c_priority := True, c_sw := (c_sw c)\<lparr>sw_priority := True\<rparr>\<rparr>)"

subsection \<open>The stream map\<close>

definition ConnMap_Get :: "int32 \<Rightarrow> Mux \<Rightarrow> nat option" where
  "ConnMap_Get cid m = map_of (m_connMap m) cid"

definition ConnMap_Set :: "int32 \<Rightarrow> nat \<Rightarrow> Mux \<Rightarrow> Mux" where
  "ConnMap_Set cid p m = m\<lparr>m_connMap := AList.update cid p (m_connMap m)\<rparr>"

definition ConnMap_Delete :: "int32 \<Rightarrow> Mux \<Rightarrow> Mux" where
  "ConnMap_Delete cid m = m\<lparr>m_connMap := AList.delete cid (m_connMap m)\<rparr>"

definition maxInt32 :: int where
  "maxInt32 = 2147483647"

text \<open>One pass of \<open>getId\<close>: the reset near the end of the range, in 32-bit arithmetic, and the addition.\<close>

definition next_id :: "bool \<Rightarrow> int32 \<Rightarrow> int32" where
  "next_id isInitiator cur =
     (let cur = (if sint (word_of_int maxInt32 - cur) < 10000 then (if isInitiator then -1 else 0) else cur)
      in cur + 2)"

text \<open>\<open>None\<close>: no id was found within the fuel.\<close>

fun getId :: "nat \<Rightarrow> Mux \<Rightarrow> (int32 \<times> Mux) option" where
  "getId 0 m = None"
| "getId (Suc k) m =
     (let cid = next_id (m_isInitiator m) (m_id m); m = m\<lparr>m_id := cid\<rparr>
      in case ConnMap_Get cid m of Some _ \<Rightarrow> getId k m | None \<Rightarrow> Some (cid, m))"

subsection \<open>Sending frames\<close>

datatype mux_error =
    MuxClosed string string
  | BuildFailed pack_error
  | QueueStopped

definition closedErr :: "string \<Rightarrow> Mux \<Rightarrow> mux_error" where
  "closedErr pre m = MuxClosed pre (m_closeReason m)"

datatype send_out = Sent | SendErr mux_error | SendWait

definition sendClosed :: string where
  "sendClosed = ''send mux frame failed: the mux has closed''"

text \<open>\<open>sendInfo\<close> up to its reaction to a frame that cannot be built.\<close>

definition sendFrame :: "bytes \<Rightarrow> uint8 \<Rightarrow> int32 \<Rightarrow> bool \<Rightarrow> pk_data \<Rightarrow> Mux \<Rightarrow> send_out \<times> Mux" where
  "sendFrame wb flag cid priority data m =
     (if m_closed m then (SendErr (closedErr sendClosed m), m)
      else if bp_enters flag priority (m_queue m) \<and> bp_waits (m_closed m) (m_queue m) then (SendWait, m)
      else
        (case pk_Set wb flag cid data (pk_new\<lparr>pk_priority := priority\<rparr>) of
           Inl err \<Rightarrow> (SendErr (BuildFailed err), m)
         | Inr pack \<Rightarrow>
             (case pq_Push pack (m_queue m) of
                (True, q) \<Rightarrow> (Sent, m\<lparr>m_queue := q\<rparr>)
              | (False, q) \<Rightarrow> (SendErr QueueStopped, m\<lparr>m_queue := q\<rparr>))))"

subsection \<open>Closing\<close>

definition close_rw :: "receiveWindow \<Rightarrow> mux_budget \<Rightarrow> receiveWindow \<times> mux_budget" where
  "close_rw rw mux =
     (case rw_CloseWindow (Suc (length (rq_elems (rw_bufQueue rw)))) (rw, mux) of
        Some s \<Rightarrow> s
      | None \<Rightarrow> (rw, mux))"

text \<open>
  \<open>closeProcess\<close>: the flags and the map entry, the notification of the peer, the windows.  The close
  frame has no content, so building it never fails.
\<close>

definition close_mark :: "nat \<Rightarrow> Mux \<Rightarrow> Mux" where
  "close_mark p m =
     ConnMap_Delete (c_id (m_conns m p))
       (upd_conn p (\<lambda>c. c\<lparr>c_isClose := True, c_closing := True, c_writeClosed := True\<rparr>) m)"

definition close_notify :: "bytes \<Rightarrow> bool \<Rightarrow> nat \<Rightarrow> Mux \<Rightarrow> Mux" where
  "close_notify wb notifyRemote p m =
     (if notifyRemote \<and> \<not> m_closed m
      then snd (sendFrame wb muxConnClose (c_id (m_conns m p)) (c_priority (m_conns m p)) DNil m) else m)"

definition close_windows :: "nat \<Rightarrow> Mux \<Rightarrow> Mux" where
  "close_windows p m =
     (let (rw, b) = close_rw (c_rw (m_conns m p)) (m_budget m)
      in (upd_conn p (\<lambda>c. c\<lparr>c_sw := sw_CloseWindow (c_sw c), c_rw := rw\<rparr>) m)\<lparr>m_budget := b\<rparr>)"

definition closeProcess :: "bytes \<Rightarrow> bool \<Rightarrow> nat \<Rightarrow> Mux \<Rightarrow> Mux" where
  "closeProcess wb notifyRemote p m = close_windows p (close_notify wb notifyRemote p (close_mark p m))"

definition once_close :: "bytes \<Rightarrow> bool \<Rightarrow> nat \<Rightarrow> Mux \<Rightarrow> Mux" where
  "once_close wb notifyRemote p m =
     (if c_once (m_conns m p) then m
      else closeProcess wb notifyRemote p (upd_conn p (\<lambda>c. c\<lparr>c_once := True\<rparr>) m))"

definition Conn_Close :: "bytes \<Rightarrow> nat \<Rightarrow> Mux \<Rightarrow> Mux" where
  "Conn_Close wb = once_close wb True"

definition closeLocal :: "bytes \<Rightarrow> nat \<Rightarrow> Mux \<Rightarrow> Mux" where
  "closeLocal wb = once_close wb False"

definition ConnMap_Close :: "bytes \<Rightarrow> Mux \<Rightarrow> Mux" where
  "ConnMap_Close wb m = fold (Conn_Close wb) (map snd (m_connMap m)) m"

definition setCloseReason :: "string \<Rightarrow> Mux \<Rightarrow> Mux" where
  "setCloseReason reason m =
     (if reason = [] then m
      else if m_closeReason m = [] then m\<lparr>m_closeReason := reason\<rparr> else m)"

text \<open>\<open>release\<close> empties the write queue.\<close>

fun release_frames :: "nat \<Rightarrow> priorityQueue \<Rightarrow> priorityQueue option" where
  "release_frames 0 q = None"
| "release_frames (Suc k) q =
     (case pq_TryPop q of
        (None, _, q) \<Rightarrow> Some (pq_Stop q)
      | (Some _, _, q) \<Rightarrow> release_frames k q)"

definition mux_release :: "Mux \<Rightarrow> Mux" where
  "mux_release m =
     (case release_frames (Suc (unat (pq_length (m_queue m)))) (m_queue m) of
        Some q \<Rightarrow> m\<lparr>m_queue := q\<rparr>
      | None \<Rightarrow> m)"

text \<open>The result tells whether this call closed the session.\<close>

definition closeWithReason :: "bytes \<Rightarrow> string \<Rightarrow> Mux \<Rightarrow> bool \<times> Mux" where
  "closeWithReason wb reason m =
     (let m = setCloseReason reason m
      in if m_closed m then (False, m)
         else
           (let m = m\<lparr>m_closed := True\<rparr>;
                m = m\<lparr>m_queue := pq_Stop (m_queue m)\<rparr>;
                m = ConnMap_Close wb m
            in (True, mux_release m)))"

definition Mux_Close :: "bytes \<Rightarrow> Mux \<Rightarrow> bool \<times> Mux" where
  "Mux_Close wb = closeWithReason wb []"

definition sendInfo :: "bytes \<Rightarrow> uint8 \<Rightarrow> int32 \<Rightarrow> bool \<Rightarrow> pk_data \<Rightarrow> Mux \<Rightarrow> send_out \<times> Mux" where
  "sendInfo wb flag cid priority data m =
     (case sendFrame wb flag cid priority data m of
        (SendErr (BuildFailed err), m) \<Rightarrow>
          (SendErr (BuildFailed err), snd (closeWithReason wb ''build mux frame failed'' m))
      | r \<Rightarrow> r)"

subsection \<open>Using a stream\<close>

datatype conn_error = ConnClosed | WriteOnClosed

text \<open>The window updates a read or a received frame produces are sent as control frames.\<close>

fun send_updates :: "bytes \<Rightarrow> nat \<Rightarrow> uint64 list \<Rightarrow> Mux \<Rightarrow> Mux" where
  "send_updates wb p [] m = m"
| "send_updates wb p (u # us) m =
     send_updates wb p us
       (snd (sendInfo wb muxMsgSendOk (c_id (m_conns m p)) (c_priority (m_conns m p)) (DUint64 u) m))"

text \<open>\<open>Read\<close> on a buffer of \<open>n\<close> bytes; an end of file after both directions were closed ends the stream.\<close>

definition Conn_Read ::
    "bytes \<Rightarrow> nat \<Rightarrow> (nat \<Rightarrow> calc_floats) \<Rightarrow> nat \<Rightarrow> nat \<Rightarrow> Mux \<Rightarrow> (conn_error + read_out) \<times> Mux" where
  "Conn_Read wb k fl n p m =
     (if n = 0 then (Inr (RData []), m)
      else if c_isClose (m_conns m p) then (Inl ConnClosed, m)
      else
        (let (out, ups, rw, b) = rw_Read k fl n (c_rw (m_conns m p), m_budget m);
             m = (upd_conn p (\<lambda>c. c\<lparr>c_rw := rw\<rparr>) m)\<lparr>m_budget := b\<rparr>;
             m = send_updates wb p ups m
         in (Inr out,
             if (case out of REOF _ \<Rightarrow> True | _ \<Rightarrow> False) \<and> c_writeClosed (m_conns m p) \<and> c_remoteWriteClosed (m_conns m p)
             then closeLocal wb p m else m)))"

text \<open>The data frame of a segment, with the priority of the stream.\<close>

definition send_segment :: "bytes \<Rightarrow> nat \<Rightarrow> bool \<Rightarrow> bytes \<Rightarrow> Mux \<Rightarrow> send_out \<times> Mux" where
  "send_segment wb p part seg m =
     sendInfo wb (if part then muxNewMsgPart else muxNewMsg) (c_id (m_conns m p)) (c_priority (m_conns m p))
       (DBytes seg) m"

definition stream_send :: "bytes \<Rightarrow> nat \<Rightarrow> bool \<Rightarrow> bytes \<Rightarrow> Mux \<Rightarrow> Mux option" where
  "stream_send wb p part seg m =
     (case send_segment wb p part seg m of (Sent, m) \<Rightarrow> Some m | _ \<Rightarrow> None)"

text \<open>
  \<open>Write\<close> up to its end or the next wait.  A segment the queue did not take is either held back by the
  write queue (\<open>CwQueueWait\<close>, the call is inside \<open>sendInfo\<close> with this segment) or refused, and then
  \<open>WriteFull\<close> rolls it back.
\<close>

datatype conn_write_out = CwDone nat write_status | CwQueueWait nat bool bytes | CwErr conn_error

definition Conn_Write :: "bytes \<Rightarrow> bytes \<Rightarrow> nat \<Rightarrow> Mux \<Rightarrow> conn_write_out \<times> Mux" where
  "Conn_Write wb buf p m =
     (if buf = [] then (CwDone 0 WrOk, m)
      else if c_isClose (m_conns m p) then (CwErr ConnClosed, m)
      else if c_closing (m_conns m p) \<or> c_writeClosed (m_conns m p) then (CwErr WriteOnClosed, m)
      else
        (case WriteFull (stream_send wb p) buf (c_sw (m_conns m p)) m of
           None \<Rightarrow> (CwDone 0 WrSpinning, m)
         | Some (n, st, sw, m) \<Rightarrow>
             (case (st, WriteTo sw) of
                (WrSendFailed, WSeg seg l part sw') \<Rightarrow>
                  (let m = upd_conn p (\<lambda>c. c\<lparr>c_sw := sw'\<rparr>) m
                   in case send_segment wb p part seg m of
                        (SendWait, m) \<Rightarrow> (CwQueueWait n part seg, m)
                      | (_, m) \<Rightarrow>
                          (CwDone n WrSendFailed, upd_conn p (\<lambda>c. c\<lparr>c_sw := rollbackSent l (c_sw c)\<rparr>) m))
              | _ \<Rightarrow> (CwDone n st, upd_conn p (\<lambda>c. c\<lparr>c_sw := sw\<rparr>) m))))"

definition supportsRemoteCapability :: "uint32 \<Rightarrow> Mux \<Rightarrow> bool" where
  "supportsRemoteCapability cap m \<longleftrightarrow> m_remoteCapabilities m AND cap = cap"

definition Conn_CloseWrite :: "bytes \<Rightarrow> nat \<Rightarrow> Mux \<Rightarrow> conn_error option \<times> Mux" where
  "Conn_CloseWrite wb p m =
     (if c_isClose (m_conns m p) then (Some ConnClosed, m)
      else if \<not> supportsRemoteCapability capabilityCloseWrite m then (None, Conn_Close wb p m)
      else if c_writeClosed (m_conns m p) then (None, m)
      else
        (let m = upd_conn p (\<lambda>c. c\<lparr>c_writeClosed := True, c_sw := sw_CloseWindow (c_sw c)\<rparr>) m
         in (None,
             if \<not> m_closed m
             then snd (sendInfo wb muxConnCloseWrite (c_id (m_conns m p)) (c_priority (m_conns m p)) DNil m) else m)))"

subsection \<open>Opening and accepting\<close>

text \<open>\<open>newConnWithTimeout\<close> up to its wait; \<open>fuel\<close> bounds the search for an id.\<close>

definition newConn_start :: "nat \<Rightarrow> bytes \<Rightarrow> Mux \<Rightarrow> ((mux_error + nat) \<times> Mux) option" where
  "newConn_start fuel wb m =
     (if m_closed m then Some (Inl (closedErr ''the mux has closed'' m), m)
      else
        (case getId fuel m of
           None \<Rightarrow> None
         | Some (cid, m) \<Rightarrow>
             (let (p, m) = alloc_conn cid m;
                  m = ConnMap_Set cid p m
              in case sendInfo wb muxNewConn cid False DNil m of
                   (SendErr e, m) \<Rightarrow> Some (Inl e, closeLocal wb p m)
                 | (_, m) \<Rightarrow> Some (Inr p, m))))"

text \<open>The cases of its \<open>select\<close>: \<open>None\<close> when the chosen case is not ready.\<close>

datatype open_case = OpenOk | OpenFail | OpenClosed | OpenTimer
datatype open_out = Opened | Refused | OpenMuxClosed mux_error | OpenTimedOut

fun newConn_wait :: "open_case \<Rightarrow> bytes \<Rightarrow> nat \<Rightarrow> Mux \<Rightarrow> (open_out \<times> Mux) option" where
  "newConn_wait OpenOk wb p m =
     (if c_ok (m_conns m p) then Some (Opened, upd_conn p (\<lambda>c. c\<lparr>c_ok := False\<rparr>) m) else None)"
| "newConn_wait OpenFail wb p m =
     (if c_fail (m_conns m p)
      then Some (Refused, closeLocal wb p (upd_conn p (\<lambda>c. c\<lparr>c_fail := False\<rparr>) m)) else None)"
| "newConn_wait OpenClosed wb p m =
     (if m_closed m
      then Some (OpenMuxClosed (closedErr ''create connection fail, the mux has closed'' m), closeLocal wb p m) else None)"
| "newConn_wait OpenTimer wb p m = Some (OpenTimedOut, closeLocal wb p m)"

definition enqueueAcceptedConn :: "nat \<Rightarrow> Mux \<Rightarrow> bool \<times> Mux" where
  "enqueueAcceptedConn p m =
     (if m_closed m then (False, m)
      else if int (length (m_newConnCh m)) < AcceptBacklog (mux_config (m_budget m))
      then (True, ConnMap_Set (c_id (m_conns m p)) p (m\<lparr>m_newConnCh := m_newConnCh m @ [p]\<rparr>))
      else (False, m))"

text \<open>\<open>None\<close>: the call waits for a stream or for the end of the session.\<close>

definition Mux_Accept :: "Mux \<Rightarrow> ((mux_error + nat) \<times> Mux) option" where
  "Mux_Accept m =
     (if m_closed m then Some (Inl (closedErr ''accept error: the mux has closed'' m), m)
      else
        (case m_newConnCh m of
           [] \<Rightarrow> None
         | p # ps \<Rightarrow> Some (Inr p, m\<lparr>m_newConnCh := ps\<rparr>)))"

subsection \<open>The read loop\<close>

definition newMsg :: "calc_floats \<Rightarrow> bytes \<Rightarrow> nat \<Rightarrow> muxPackager \<Rightarrow> Mux \<Rightarrow> bool \<times> Mux" where
  "newMsg fl wb p pack m =
     (if c_isClose (m_conns m p) then (False, m)
      else
        (case rw_Write fl (case pk_content pack of None \<Rightarrow> [] | Some b \<Rightarrow> b) (pk_length pack)
                (pk_flag pack = muxNewMsgPart) (c_rw (m_conns m p), m_budget m) of
           Inl err \<Rightarrow> (False, m)
         | Inr (up, rw, b) \<Rightarrow>
             (True, send_updates wb p (up_list up) ((upd_conn p (\<lambda>c. c\<lparr>c_rw := rw\<rparr>) m)\<lparr>m_budget := b\<rparr>))))"

text \<open>Frames for an open stream.\<close>

definition dispatch_conn :: "calc_floats \<Rightarrow> bytes \<Rightarrow> nat \<Rightarrow> muxPackager \<Rightarrow> Mux \<Rightarrow> Mux" where
  "dispatch_conn fl wb p pack m =
     (if pk_flag pack = muxNewMsg \<or> pk_flag pack = muxNewMsgPart then
        (case newMsg fl wb p pack m of (True, m) \<Rightarrow> m | (False, m) \<Rightarrow> Conn_Close wb p m)
      else if pk_flag pack = muxNewConnOk then upd_conn p (\<lambda>c. c\<lparr>c_ok := True\<rparr>) m
      else if pk_flag pack = muxNewConnFail then upd_conn p (\<lambda>c. c\<lparr>c_fail := True\<rparr>) m
      else if pk_flag pack = muxMsgSendOk then
        (case SetSize (pk_window pack) (c_sw (m_conns m p)) of
           (_, None, sw) \<Rightarrow> upd_conn p (\<lambda>c. c\<lparr>c_sw := sw\<rparr>) m
         | (_, Some _, sw) \<Rightarrow>
             snd (closeWithReason wb ''invalid send window update'' (upd_conn p (\<lambda>c. c\<lparr>c_sw := sw\<rparr>) m)))
      else if pk_flag pack = muxConnCloseWrite then
        upd_conn p (\<lambda>c. c\<lparr>c_remoteWriteClosed := True, c_rw := rw_Stop (c_rw c)\<rparr>) m
      else if pk_flag pack = muxConnClose then
        upd_conn p (\<lambda>c. c\<lparr>c_remoteWriteClosed := True, c_closing := True, c_rw := rw_Stop (c_rw c)\<rparr>) m
      else m)"

text \<open>
  One frame of the read loop.  The first component is a ping reply handed to the ping goroutine; \<open>st\<close> is
  the state of the random generator.
\<close>

definition dispatch ::
    "calc_floats \<Rightarrow> bytes \<Rightarrow> uint64 \<Rightarrow> muxPackager \<Rightarrow> Mux \<Rightarrow> bytes option \<times> Mux" where
  "dispatch fl wb st pack m =
     (if pk_flag pack = muxNewConn then
        (let (p, m) = alloc_conn (pk_id pack) m
         in case enqueueAcceptedConn p m of
              (True, m) \<Rightarrow> (None, snd (sendInfo wb muxNewConnOk (pk_id pack) False DNil m))
            | (False, m) \<Rightarrow> (None, snd (sendInfo wb muxNewConnFail (pk_id pack) False DNil (closeLocal wb p m))))
      else if pk_flag pack = muxPingFlag then
        (None, snd (sendInfo wb muxPingReturn muxPing False
                 (DBytes (fst (preparePingReply (mux_config (m_budget m)) (frame_data (pk_frame pack)) st))) m))
      else if pk_flag pack = muxPingReturn then (Some (frame_data (pk_frame pack)), m)
      else if pk_flag pack = muxPeerHello then (None, m\<lparr>m_remoteCapabilities := pk_id pack\<rparr>)
      else
        (case ConnMap_Get (pk_id pack) m of
           Some p \<Rightarrow> (None, if c_isClose (m_conns m p) then m else dispatch_conn fl wb p pack m)
         | None \<Rightarrow> (None, m)))"

text \<open>The read loop on the bytes of the peer: one frame, or the end of the session on a bad one.\<close>

definition read_step :: "calc_floats \<Rightarrow> bytes \<Rightarrow> uint64 \<Rightarrow> bytes \<Rightarrow> Mux \<Rightarrow> (bytes option \<times> bytes) option \<times> Mux" where
  "read_step fl wb st s m =
     (if m_closed m then (None, m)
      else
        (case pk_UnPack wb pk_new s of
           Inl err \<Rightarrow> (None, snd (closeWithReason wb ''read session unpack failed'' m))
         | Inr (n, pack, s) \<Rightarrow> (let (pong, m) = dispatch fl wb st pack m in (Some (pong, s), m))))"

definition sendPeerHello :: "bytes \<Rightarrow> Mux \<Rightarrow> Mux" where
  "sendPeerHello wb m =
     (if m_localCapabilities m = 0 then m
      else snd (sendInfo wb muxPeerHello (m_localCapabilities m) True DNil m))"

subsection \<open>Stream ids\<close>

lemma signed_take_bit_31:
  fixes x :: int
  assumes "0 \<le> x" "x \<le> 4294967295"
  shows "signed_take_bit 31 x = (if x < 2147483648 then x else x - 4294967296)"
proof (cases "x < 2147483648")
  case False
  then have "(x + 2147483648) mod 4294967296 = x - 2147483648"
    using assms minus_mod_self2 [of "x + 2147483648" 4294967296] by simp
  with False show ?thesis by (simp add: signed_take_bit_eq_take_bit_shift take_bit_eq_mod)
qed (use assms in \<open>simp add: signed_take_bit_eq_take_bit_shift take_bit_eq_mod\<close>)

lemma next_id_eq:
  "next_id i c = (if sint c < 0 \<or> 2147473647 < sint c then (if i then 1 else 2) else c + 2)"
proof -
  have "sint (word_of_int maxInt32 - c) = signed_take_bit 31 (2147483647 - sint c)"
    by (simp add: maxInt32_def sint_word_ariths)
  moreover have "- 2147483648 \<le> sint c" "sint c \<le> 2147483647"
    using sint_ge [of c] sint_lt [of c] by simp_all
  ultimately show ?thesis
    by (auto simp: next_id_def signed_take_bit_31)
qed

lemma sint_next_id: "0 < sint (next_id i c) \<and> sint (next_id i c) \<le> 2147473649"
proof (cases "sint c < 0 \<or> 2147473647 < sint c")
  case False
  then have "sint (c + 2) = sint c + 2"
    by (simp add: sint_word_ariths signed_take_bit_int_eq_self)
  with False show ?thesis by (simp add: next_id_eq)
qed (auto simp: next_id_eq)

lemma ConnMap_Get_None: "ConnMap_Get cid m = None \<longleftrightarrow> cid \<notin> fst ` set (m_connMap m)"
  by (simp add: ConnMap_Get_def map_of_eq_None_iff)

text \<open>A search ends at a free positive id, or every id it visited is in use.\<close>

lemma getId_Some:
  "getId k m = Some (cid, m') \<Longrightarrow>
   m' = m\<lparr>m_id := cid\<rparr> \<and> ConnMap_Get cid m = None \<and> 0 < sint cid \<and> sint cid \<le> 2147473649"
proof (induction k arbitrary: m)
  case (Suc k)
  then show ?case
    using sint_next_id [of "m_isInitiator m" "m_id m"]
    by (fastforce simp: Let_def ConnMap_Get_def split: option.splits)
qed simp

lemma getId_None:
  "getId k m = None \<Longrightarrow> j < k \<Longrightarrow> (next_id (m_isInitiator m) ^^ Suc j) (m_id m) \<in> fst ` set (m_connMap m)"
proof (induction k arbitrary: m j)
  case (Suc k)
  define n where "n = next_id (m_isInitiator m) (m_id m)"
  have used: "ConnMap_Get n (m\<lparr>m_id := n\<rparr>) \<noteq> None" and rest: "getId k (m\<lparr>m_id := n\<rparr>) = None"
    using Suc.prems(1) by (auto simp: Let_def n_def split: option.splits)
  show ?case
  proof (cases j)
    case 0
    with used show ?thesis by (simp add: ConnMap_Get_None n_def)
  next
    case (Suc i)
    with Suc.IH [OF rest, of i] Suc.prems(2) show ?thesis
      by (simp add: n_def funpow_swap1)
  qed
qed simp

lemma next_id_run:
  assumes "\<forall>i < j. 0 \<le> sint ((next_id b ^^ i) c) \<and> sint ((next_id b ^^ i) c) \<le> 2147473647"
  shows "(next_id b ^^ j) c = c + word_of_nat (2 * j)"
  using assms by (induction j) (auto simp: next_id_eq)

lemma ids_distinct:
  fixes c :: int32
  assumes "2 * n \<le> 4294967296"
  shows "inj_on (\<lambda>j. c + word_of_nat (2 * j)) {..<n}"
proof (rule inj_onI)
  fix i j assume *: "i \<in> {..<n}" "j \<in> {..<n}" "c + word_of_nat (2 * i) = c + word_of_nat (2 * j)"
  then have "unat (word_of_nat (2 * i) :: int32) = unat (word_of_nat (2 * j) :: int32)"
    by simp
  moreover have "unat (word_of_nat (2 * k) :: int32) = 2 * k" if "k < n" for k
    using that assms by (intro unat_of_nat_id) simp
  ultimately have "2 * i = 2 * j" using *(1,2) by (metis lessThan_iff)
  then show "i = j" by simp
qed

lemma run_free:
  assumes "\<forall>i < n. 0 \<le> sint ((next_id b ^^ i) c) \<and> sint ((next_id b ^^ i) c) \<le> 2147473647"
    and "length kv < n" "2 * n \<le> 4294967296"
  shows "\<exists>j < n. (next_id b ^^ Suc j) c \<notin> fst ` set (kv :: (int32 \<times> nat) list)"
proof (rule ccontr)
  have run: "(next_id b ^^ Suc j) c = (c + 2) + word_of_nat (2 * j)" if "j < n" for j
    using next_id_run [of "Suc j" b c] assms(1) that by auto
  assume "\<not> ?thesis"
  then have "(\<lambda>j. (c + 2) + word_of_nat (2 * j)) ` {..<n} \<subseteq> fst ` set kv"
    using run by auto
  then have "card {..<n} \<le> card (fst ` set kv)"
    using ids_distinct [OF assms(3)] by (metis card_image card_mono List.finite_set finite_imageI)
  also have "\<dots> \<le> length kv"
    using card_image_le card_length le_trans by (metis List.finite_set)
  finally show False using assms(2) by simp
qed

lemma small_run:
  assumes "c = 1 \<or> c = 2" "i \<le> 1073736823"
  shows "(next_id b ^^ i) c = c + word_of_nat (2 * i)" "sint (c + word_of_nat (2 * i) :: int32) = sint c + 2 * int i"
proof -
  have s: "sint (c + word_of_nat (2 * i) :: int32) = sint c + 2 * int i" if "i \<le> 1073736823" for i
  proof -
    have "c + word_of_nat (2 * i) = word_of_int (sint c + 2 * int i)"
      using assms(1) by auto
    moreover have "sint (word_of_int (sint c + 2 * int i) :: int32) = sint c + 2 * int i"
      using assms(1) that by (auto simp: signed_of_int signed_take_bit_int_eq_self simp del: of_int_add of_int_mult)
    ultimately show ?thesis by simp
  qed
  then show "sint (c + word_of_nat (2 * i) :: int32) = sint c + 2 * int i"
    using assms(2) by blast
  show "(next_id b ^^ i) c = c + word_of_nat (2 * i)"
    using assms(2)
  proof (induction i)
    case (Suc i)
    with s [of i] assms(1) show ?case by (auto simp: next_id_eq)
  qed simp
qed

lemma getId_fresh_aux:
  assumes "length (m_connMap m) < 1000000000" "2 * length (m_connMap m) + 2 \<le> k"
  shows "getId k m \<noteq> None"
proof
  define b c n where "b = m_isInitiator m" and "c = m_id m" and "n = Suc (length (m_connMap m))"
  assume "getId k m = None"
  then have used: "(next_id b ^^ Suc j) c \<in> fst ` set (m_connMap m)" if "j < k" for j
    using getId_None that by (simp add: b_def c_def)
  consider (run) "\<forall>i < n. 0 \<le> sint ((next_id b ^^ i) c) \<and> sint ((next_id b ^^ i) c) \<le> 2147473647"
    | (reset) i where "i < n" "sint ((next_id b ^^ i) c) < 0 \<or> 2147473647 < sint ((next_id b ^^ i) c)"
    by (meson not_le)
  then show False
  proof cases
    case run
    from run_free [OF this, of "m_connMap m"] used assms show False
      by (auto simp: n_def)
  next
    case reset
    define d :: int32 where "d = (if b then 1 else 2)"
    have d: "(next_id b ^^ Suc i) c = d"
      using reset(2) by (auto simp: next_id_eq d_def)
    have d12: "d = 1 \<or> d = 2" by (simp add: d_def)
    have "0 \<le> sint ((next_id b ^^ j) d) \<and> sint ((next_id b ^^ j) d) \<le> 2147473647" if "j < n" for j
    proof -
      have "j \<le> 1073736823" "int j < 1000000001"
        using that assms(1) by (simp_all add: n_def)
      moreover have "0 < sint d" "sint d \<le> 2"
        using d12 by auto
      ultimately show ?thesis
        by (simp add: small_run(1) [OF d12] small_run(2) [OF d12] del: of_nat_mult)
    qed
    then obtain j where j: "j < n" "(next_id b ^^ Suc j) d \<notin> fst ` set (m_connMap m)"
      using run_free [of n b d "m_connMap m"] assms(1) n_def by fastforce
    have "(next_id b ^^ Suc j) d = (next_id b ^^ Suc (Suc i + j)) c"
      using d by (simp only: funpow_add comp_apply add.commute [of "Suc i" j] flip: add_Suc)
    with used [of "Suc i + j"] j reset(1) assms(2) show False by (simp add: n_def)
  qed
qed

text \<open>C15: The search for a stream id (\<open>getId\<close>) ends: with \<open>n\<close> streams in the map (up to a thousand
  million) at most \<open>2 * n + 2\<close> passes find an id, whatever the current id is, the wrap-around near the
  end of the 32-bit range included.  The id it returns is in use by no stream of this session, it is
  positive, so never the id of the ping frames, and nothing but the counter changes.\<close>

theorem getId_fresh:
  assumes "length (m_connMap m) < 1000000000" "2 * length (m_connMap m) + 2 \<le> k"
  shows "\<exists>cid. getId k m = Some (cid, m\<lparr>m_id := cid\<rparr>) \<and> ConnMap_Get cid m = None \<and>
     0 < sint cid \<and> sint cid \<le> 2147473649"
  using getId_fresh_aux [OF assms] getId_Some by (metis option.exhaust surj_pair)

theorem getId_fresh_witness:
  "\<exists>cid. getId 4 (ConnMap_Set 2 7 ((NewMuxWithConfig ''tcp'' 0 False (DefaultMuxConfig initialPingInterval))\<lparr>m_id := 2147483000\<rparr>)) =
       Some (cid, (ConnMap_Set 2 7 ((NewMuxWithConfig ''tcp'' 0 False (DefaultMuxConfig initialPingInterval))\<lparr>m_id := cid\<rparr>))) \<and>
     ConnMap_Get cid (ConnMap_Set 2 7 (NewMuxWithConfig ''tcp'' 0 False (DefaultMuxConfig initialPingInterval))) = None \<and>
     0 < sint cid \<and> sint cid \<le> 2147473649"
  using getId_fresh [of "ConnMap_Set 2 7 ((NewMuxWithConfig ''tcp'' 0 False (DefaultMuxConfig initialPingInterval))\<lparr>m_id := 2147483000\<rparr>)" 4]
  by (simp add: ConnMap_Set_def ConnMap_Get_def NewMuxWithConfig_def Let_def)

subsection \<open>Control frames\<close>

text \<open>A frame without content is built and queued; nothing else of the session changes.\<close>

definition content_free :: "uint8 \<Rightarrow> pk_data \<Rightarrow> bool" where
  "content_free flag data \<longleftrightarrow> \<not> has_content flag \<and> (flag = muxMsgSendOk \<longrightarrow> (\<exists>w. data = DUint64 w))"

lemma pk_Set_content_free:
  "content_free flag data \<Longrightarrow> \<exists>p. pk_Set wb flag cid data q = Inr p"
  by (auto simp: content_free_def pk_Set_def Let_def split: pk_data.splits)

lemma bp_enters_content_free: "content_free flag data \<Longrightarrow> \<not> bp_enters flag priority q"
  by (auto simp: content_free_def bp_enters_def isMuxStreamDataFlag_def has_content_def)

lemma sendFrame_content_free:
  assumes "content_free flag data"
  shows "\<exists>q. snd (sendFrame wb flag cid prio data m) = m\<lparr>m_queue := q\<rparr> \<and> (pq_stop (m_queue m) \<longrightarrow> q = m_queue m)"
    "fst (sendFrame wb flag cid prio data m) \<noteq> SendWait"
    "sendInfo wb flag cid prio data m = sendFrame wb flag cid prio data m"
proof -
  obtain p where p: "pk_Set wb flag cid data (pk_new\<lparr>pk_priority := prio\<rparr>) = Inr p"
    using pk_Set_content_free [OF assms] by blast
  note defs = sendFrame_def bp_enters_content_free [OF assms] p pq_Push_def
  show "\<exists>q. snd (sendFrame wb flag cid prio data m) = m\<lparr>m_queue := q\<rparr> \<and> (pq_stop (m_queue m) \<longrightarrow> q = m_queue m)"
    by (auto simp: defs intro: exI [of _ "m_queue m"])
  show "fst (sendFrame wb flag cid prio data m) \<noteq> SendWait"
    by (simp add: defs)
  show "sendInfo wb flag cid prio data m = sendFrame wb flag cid prio data m"
    by (simp add: sendInfo_def defs closedErr_def)
qed

lemma content_free_flags [simp]:
  "content_free muxNewConn DNil" "content_free muxNewConnOk DNil" "content_free muxNewConnFail DNil"
  "content_free muxConnClose DNil" "content_free muxConnCloseWrite DNil" "content_free muxPeerHello DNil"
  "content_free muxMsgSendOk (DUint64 w)"
  by (simp_all add: content_free_def has_content_def mux_flags)

lemma sendInfo_queue_only:
  assumes "content_free flag data"
  obtains q where "snd (sendInfo wb flag cid prio data m) = m\<lparr>m_queue := q\<rparr>"
  using sendFrame_content_free [OF assms] by (metis (no_types))

subsection \<open>Closing a stream\<close>

lemma close_rw_spec:
  assumes "rw_counted rw"
  obtains rw' b' where "close_rw rw b = (rw', b')" "rw_closed rw'" "rw_buffered rw' = 0"
    "sessionRecvQueued b' = sessionRecvQueued b - ucast (rw_buffered rw)"
    "sessionRecvLimit b' = sessionRecvLimit b" "mux_config b' = mux_config b"
proof -
  obtain rw' b' where "rw_CloseWindow (Suc (length (rq_elems (rw_bufQueue rw)))) (rw, b) = Some (rw', b')"
    "rw_closed rw'" "rq_stopped (rw_bufQueue rw')" "rw_element rw' = None" "rq_elems (rw_bufQueue rw') = []"
    "rw_buffered rw' = 0" "sessionRecvQueued b' = sessionRecvQueued b - ucast (rw_buffered rw)"
    "sessionRecvLimit b' = sessionRecvLimit b" "mux_config b' = mux_config b"
    by (rule rw_CloseWindow_spec [OF assms lessI])
  then show ?thesis
    by (intro that [of rw' b']) (simp_all only: close_rw_def option.case)
qed

text \<open>What closing a stream leaves alone, and what it does to the stream and the map.\<close>

lemma close_notify_queue:
  obtains q where "close_notify wb notify p m = m\<lparr>m_queue := q\<rparr>" "m_closed m \<longrightarrow> q = m_queue m"
proof (cases "notify \<and> \<not> m_closed m")
  case True
  obtain q where q: "snd (sendFrame wb muxConnClose (c_id (m_conns m p)) (c_priority (m_conns m p)) DNil m) =
      m\<lparr>m_queue := q\<rparr>"
    using sendFrame_content_free(1) [OF content_free_flags(4)] by blast
  show ?thesis
    by (rule that [of q]) (use True q in \<open>simp_all add: close_notify_def\<close>)
next
  case False
  then have "close_notify wb notify p m = m\<lparr>m_queue := m_queue m\<rparr>"
    by (auto simp: close_notify_def)
  then show ?thesis by (rule that) simp
qed

lemma once_close_frame:
  assumes "\<not> c_once (m_conns m p)"
  shows "m_connMap (once_close wb notify p m) = AList.delete (c_id (m_conns m p)) (m_connMap m)"
    "q \<noteq> p \<Longrightarrow> m_conns (once_close wb notify p m) q = m_conns m q"
    "m_closed (once_close wb notify p m) = m_closed m" "m_next (once_close wb notify p m) = m_next m"
    "m_closeReason (once_close wb notify p m) = m_closeReason m"
    "c_isClose (m_conns (once_close wb notify p m) p)" "sw_closed (c_sw (m_conns (once_close wb notify p m) p))"
    "c_once (m_conns (once_close wb notify p m) p)"
    "c_rw (m_conns (once_close wb notify p m) p) = fst (close_rw (c_rw (m_conns m p)) (m_budget m))"
    "m_budget (once_close wb notify p m) = snd (close_rw (c_rw (m_conns m p)) (m_budget m))"
    "m_closed m \<Longrightarrow> m_queue (once_close wb notify p m) = m_queue m"
proof -
  define m1 where "m1 = close_mark p (upd_conn p (\<lambda>c. c\<lparr>c_once := True\<rparr>) m)"
  obtain q2 where m2: "close_notify wb notify p m1 = m1\<lparr>m_queue := q2\<rparr>" "m_closed m1 \<longrightarrow> q2 = m_queue m1"
    by (rule close_notify_queue)
  have eq: "once_close wb notify p m = close_windows p (m1\<lparr>m_queue := q2\<rparr>)"
    using assms m2(1) by (simp add: once_close_def closeProcess_def flip: m1_def)
  have m1: "m_connMap m1 = AList.delete (c_id (m_conns m p)) (m_connMap m)" "m_closed m1 = m_closed m"
    "m_next m1 = m_next m" "m_closeReason m1 = m_closeReason m" "m_budget m1 = m_budget m" "m_queue m1 = m_queue m"
    "q \<noteq> p \<Longrightarrow> m_conns m1 q = m_conns m q" "c_isClose (m_conns m1 p)" "c_once (m_conns m1 p)"
    "c_rw (m_conns m1 p) = c_rw (m_conns m p)"
    by (simp_all add: m1_def close_mark_def upd_conn_def ConnMap_Delete_def)
  show "m_connMap (once_close wb notify p m) = AList.delete (c_id (m_conns m p)) (m_connMap m)"
    "q \<noteq> p \<Longrightarrow> m_conns (once_close wb notify p m) q = m_conns m q"
    "m_closed (once_close wb notify p m) = m_closed m" "m_next (once_close wb notify p m) = m_next m"
    "m_closeReason (once_close wb notify p m) = m_closeReason m"
    "c_isClose (m_conns (once_close wb notify p m) p)" "sw_closed (c_sw (m_conns (once_close wb notify p m) p))"
    "c_once (m_conns (once_close wb notify p m) p)"
    "c_rw (m_conns (once_close wb notify p m) p) = fst (close_rw (c_rw (m_conns m p)) (m_budget m))"
    "m_budget (once_close wb notify p m) = snd (close_rw (c_rw (m_conns m p)) (m_budget m))"
    "m_closed m \<Longrightarrow> m_queue (once_close wb notify p m) = m_queue m"
    using m1 m2(2) by (simp_all add: eq close_windows_def split_beta upd_conn_def sw_CloseWindow_def)
qed

lemma ConnMap_Get_delete [simp]: "map_of (AList.delete k xs) k = None"
  by (simp add: delete_conv)

text \<open>C35: Both ends of a session number their streams from the same even ids, and the stream map trusts
  the ids of the peer.  The initiator of a session starts its counter at \<open>-1\<close>, but the check for the
  end of the id range overflows there and resets the counter to that of the responder, so the first id
  of both ends is 2.  When the peer opens a stream under the id of an open stream, the new stream takes
  the map entry, the old one is cut off from its frames, and closing the old stream removes the entry
  of the new one, which stays open and receives nothing.\<close>

theorem stream_id_collision:
  assumes "\<not> m_closed m" "int (length (m_newConnCh m)) < AcceptBacklog (mux_config (m_budget m))"
    and "ConnMap_Get (pk_id pack) m = Some p" "c_id (m_conns m p) = pk_id pack" "\<not> c_once (m_conns m p)"
    and "p < m_next m" "pk_flag pack = muxNewConn"
  shows "fst (the (getId 1 (NewMuxWithConfig connType check True config))) = 2 \<and>
     fst (the (getId 1 (NewMuxWithConfig connType check False config))) = 2 \<and>
     (let m' = snd (dispatch fl wb rnd pack m); m'' = closeLocal wb p m'
      in ConnMap_Get (pk_id pack) m' = Some (m_next m) \<and> m_next m \<noteq> p \<and>
         m_conns m' p = m_conns m p \<and>
         ConnMap_Get (pk_id pack) m'' = None \<and> \<not> c_isClose (m_conns m'' (m_next m)))"
proof -
  define cid where "cid = pk_id pack"
  define m1 where "m1 = snd (enqueueAcceptedConn (m_next m) (snd (alloc_conn cid m)))"
  have m1: "ConnMap_Get cid m1 = Some (m_next m)" "m_conns m1 p = m_conns m p"
    "m_conns m1 (m_next m) = NewConn cid" "m_connMap m1 = AList.update cid (m_next m) (m_connMap m)"
    using assms(1,2,6)
    by (simp_all add: m1_def enqueueAcceptedConn_def alloc_conn_def ConnMap_Set_def NewConn_def ConnMap_Get_def
        update_conv')
  obtain q where q: "snd (sendInfo wb muxNewConnOk cid False DNil m1) = m1\<lparr>m_queue := q\<rparr>"
    by (rule sendInfo_queue_only [OF content_free_flags(2)])
  have "fst (enqueueAcceptedConn (m_next m) (snd (alloc_conn cid m)))"
    using assms(1,2) by (simp add: enqueueAcceptedConn_def alloc_conn_def)
  then have m': "snd (dispatch fl wb rnd pack m) = m1\<lparr>m_queue := q\<rparr>"
    using assms(7) q
    by (cases "enqueueAcceptedConn (m_next m) (snd (alloc_conn cid m))")
      (auto simp: dispatch_def m1_def cid_def split_beta Let_def alloc_conn_def split: bool.splits)
  have open_: "\<not> c_once (m_conns (m1\<lparr>m_queue := q\<rparr>) p)"
    using assms(5) m1(2) by simp
  note c = once_close_frame [OF this, where wb = wb and notify = False]
  have "ConnMap_Get cid (closeLocal wb p (m1\<lparr>m_queue := q\<rparr>)) = None"
    using c(1) m1(2) assms(4) by (simp add: closeLocal_def ConnMap_Get_def cid_def)
  moreover have "\<not> c_isClose (m_conns (closeLocal wb p (m1\<lparr>m_queue := q\<rparr>)) (m_next m))"
    using c(2) [where q = "m_next m"] m1(3) assms(6) by (simp add: closeLocal_def NewConn_def)
  moreover have "next_id False (- 1) = 2" "next_id False 0 = 2"
    by (simp_all add: next_id_eq)
  ultimately show ?thesis
    using m1 m' assms(6) by (simp add: Let_def cid_def NewMuxWithConfig_def ConnMap_Get_def)
qed

text \<open>Two peers open their first streams at the same time.\<close>

definition peer_session :: Mux where
  "peer_session = snd (the (newConn_start 1 [] (NewMuxWithConfig ''tcp'' 0 True (DefaultMuxConfig initialPingInterval))))"

definition no_estimate :: calc_floats where
  "no_estimate = \<lparr>cf_bw = None, cf_latency = 0, cf_fill = (\<lambda>_ _ _. None)\<rparr>"

definition peer_open :: muxPackager where
  "peer_open = pk_new\<lparr>pk_flag := muxNewConn, pk_id := 2\<rparr>"

theorem stream_id_collision_witness:
  "fst (the (getId 1 (NewMuxWithConfig ''tcp'' 0 True (DefaultMuxConfig initialPingInterval)))) = 2 \<and>
   fst (the (getId 1 (NewMuxWithConfig ''tcp'' 0 False (DefaultMuxConfig initialPingInterval)))) = 2 \<and>
   (let m' = snd (dispatch no_estimate [] 1 peer_open peer_session); m'' = closeLocal [] 0 m'
    in ConnMap_Get (pk_id peer_open) m' = Some (m_next peer_session) \<and> m_next peer_session \<noteq> 0 \<and>
       m_conns m' 0 = m_conns peer_session 0 \<and>
       ConnMap_Get (pk_id peer_open) m'' = None \<and> \<not> c_isClose (m_conns m'' (m_next peer_session)))"
proof (rule stream_id_collision)
  show "\<not> m_closed peer_session" by code_simp
  show "int (length (m_newConnCh peer_session)) < AcceptBacklog (mux_config (m_budget peer_session))" by code_simp
  show "ConnMap_Get (pk_id peer_open) peer_session = Some 0" by code_simp
  show "c_id (m_conns peer_session 0) = pk_id peer_open" by code_simp
  show "\<not> c_once (m_conns peer_session 0)" by code_simp
  show "0 < m_next peer_session" by code_simp
  show "pk_flag peer_open = muxNewConn" by code_simp
qed

subsection \<open>Closing the session\<close>

text \<open>
  The streams of the map are distinct open objects under their own ids, the session counter holds exactly
  their bytes, and the write queue is consistent.
\<close>

definition stream_bytes :: "Mux \<Rightarrow> nat \<Rightarrow> uint64" where
  "stream_bytes m p = ucast (rw_buffered (c_rw (m_conns m p)))"

definition mux_wf :: "Mux \<Rightarrow> bool" where
  "mux_wf m \<longleftrightarrow>
     distinct (map fst (m_connMap m)) \<and> distinct (map snd (m_connMap m)) \<and>
     (\<forall>(i, p) \<in> set (m_connMap m). p < m_next m \<and> c_id (m_conns m p) = i \<and> \<not> c_once (m_conns m p) \<and>
        rw_counted (c_rw (m_conns m p))) \<and>
     sessionRecvQueued (m_budget m) = sum_list (map (stream_bytes m \<circ> snd) (m_connMap m)) \<and>
     (\<exists>pr st. pq_rel (m_queue m) pr st)"

lemma release_frames_spec:
  assumes "pq_rel q pr st" "unat (pq_length q) < k"
  shows "\<exists>q'. release_frames k q = Some q' \<and> pq_length q' = 0 \<and> pq_stop q' \<and> pq_rel q' [] []"
  using assms
proof (induction k arbitrary: q pr st)
  case (Suc k)
  obtain r b q1 where pop: "pq_TryPop q = (r, b, q1)"
    using prod_cases3 by blast
  have next_: "\<exists>q'. release_frames (Suc k) q = Some q' \<and> pq_length q' = 0 \<and> pq_stop q' \<and> pq_rel q' [] []"
    if "r = Some p" "pop_ok p q pr st q1 pr' st'" for p pr' st'
    using that Suc.IH [of q1 pr' st'] Suc.prems(2) pop by (simp add: pop_ok_def)
  show ?case
  proof (cases rule: pq_TryPop_cases [OF Suc.prems(1) pop, case_names empty control priority normal])
    case empty
    with Suc.prems pop show ?thesis
      by (simp add: pq_rel_Stop) (simp add: pq_Stop_def pq_rel_def unat_eq_0)
  qed (use next_ in blast)+
qed simp

lemma delete_fst: "distinct (map fst ((i, p) # xs)) \<Longrightarrow> AList.delete i ((i, p) # xs) = xs"
  by (induction xs) (auto simp: delete_simps)

text \<open>Closing the first stream of the map in a closed session.\<close>

lemma Conn_Close_first:
  fixes wb :: bytes
  assumes wf: "mux_wf m" and map: "m_connMap m = (i, p) # xs" and closed_: "m_closed m"
  defines "m' \<equiv> Conn_Close wb p m"
  shows "mux_wf m'" "m_connMap m' = xs" "m_closed m'" "m_queue m' = m_queue m" "m_closeReason m' = m_closeReason m"
    "q \<noteq> p \<Longrightarrow> m_conns m' q = m_conns m q" "c_isClose (m_conns m' p)" "sw_closed (c_sw (m_conns m' p))"
    "rw_closed (c_rw (m_conns m' p))" "stream_bytes m' p = 0" "m_next m' = m_next m"
proof -
  have p: "c_id (m_conns m p) = i" "\<not> c_once (m_conns m p)" "rw_counted (c_rw (m_conns m p))"
    using wf map by (auto simp: mux_wf_def)
  note fr = once_close_frame [OF p(2), where wb = wb and notify = True, folded Conn_Close_def, folded m'_def]
  obtain rw' b' where c: "close_rw (c_rw (m_conns m p)) (m_budget m) = (rw', b')" "rw_closed rw'" "rw_buffered rw' = 0"
    "sessionRecvQueued b' = sessionRecvQueued (m_budget m) - ucast (rw_buffered (c_rw (m_conns m p)))"
    by (rule close_rw_spec [OF p(3)])
  show others: "q \<noteq> p \<Longrightarrow> m_conns m' q = m_conns m q" for q
    by (rule fr(2))
  show rest: "m_connMap m' = xs" "m_closed m'" "m_queue m' = m_queue m" "m_closeReason m' = m_closeReason m"
    "c_isClose (m_conns m' p)" "sw_closed (c_sw (m_conns m' p))" "rw_closed (c_rw (m_conns m' p))"
    "stream_bytes m' p = 0" "m_next m' = m_next m"
    using wf map closed_ fr(1,3-7,9,11) c p(1) delete_fst [of i p xs]
    by (simp_all add: mux_wf_def stream_bytes_def)
  have notin: "p \<notin> snd ` set xs"
    using wf map by (auto simp: mux_wf_def)
  have same: "m_conns m' q = m_conns m q" if "(j, q) \<in> set xs" for j q
    using others notin that by (metis image_eqI snd_conv)
  then have sb: "map (stream_bytes m' \<circ> snd) xs = map (stream_bytes m \<circ> snd) xs"
    by (auto simp: stream_bytes_def)
  have "sessionRecvQueued (m_budget m') = sum_list (map (stream_bytes m' \<circ> snd) xs)"
    unfolding sb using fr(10) c(1,4) wf map by (simp add: mux_wf_def stream_bytes_def)
  then show "mux_wf m'"
    using same wf map rest(1,3,9) by (auto simp: mux_wf_def)
qed

lemma ConnMap_Close_all:
  assumes "mux_wf m" "m_closed m"
  shows "let m' = fold (Conn_Close wb) (map snd (m_connMap m)) m
     in mux_wf m' \<and> m_connMap m' = [] \<and> m_closed m' \<and> m_queue m' = m_queue m \<and>
        m_closeReason m' = m_closeReason m \<and>
        (\<forall>q. q \<notin> snd ` set (m_connMap m) \<longrightarrow> m_conns m' q = m_conns m q) \<and>
        (\<forall>q \<in> snd ` set (m_connMap m). c_isClose (m_conns m' q) \<and> sw_closed (c_sw (m_conns m' q)) \<and>
            rw_closed (c_rw (m_conns m' q)) \<and> stream_bytes m' q = 0)"
  using assms
proof (induction "m_connMap m" arbitrary: m)
  case (Cons ip xs)
  obtain i p where ip: "ip = (i, p)" by fastforce
  note first = Conn_Close_first [OF Cons.prems(1) _ Cons.prems(2), of i p xs, where wb = wb]
  have map: "m_connMap m = (i, p) # xs" using Cons.hyps(2) ip by simp
  note first = first [OF map]
  have notin: "p \<notin> snd ` set xs" using Cons.prems(1) map by (auto simp: mux_wf_def)
  from Cons.hyps(1) [of "Conn_Close wb p m"] first(1-3)
  show ?case
    unfolding Let_def map
    using first(4-10) notin by (auto simp: stream_bytes_def)
qed (simp add: Let_def)

text \<open>C16: Closing a session (\<open>closeWithReason\<close>) closes everything exactly once.  The first call marks the
  session closed, empties the stream map, closes every stream of it with both its windows, gives all
  received and unread bytes back, so that the session counter is zero, stops the write queue and drops
  every frame in it, and keeps the reason that was recorded first.  A later call changes nothing but
  reports that the session is closed; no frame can be sent any more and a waiting \<open>Accept\<close> returns the
  error.\<close>

theorem session_close:
  assumes "mux_wf m" "\<not> m_closed m"
  shows "let (first, m') = closeWithReason wb reason m
     in first \<and> m_closed m' \<and> m_connMap m' = [] \<and> sessionRecvQueued (m_budget m') = 0 \<and>
        (\<forall>(i, p) \<in> set (m_connMap m). c_isClose (m_conns m' p) \<and> sw_closed (c_sw (m_conns m' p)) \<and>
            rw_closed (c_rw (m_conns m' p)) \<and> rw_buffered (c_rw (m_conns m' p)) = 0) \<and>
        pq_length (m_queue m') = 0 \<and> pq_stop (m_queue m') \<and>
        m_closeReason m' = (if m_closeReason m = [] then reason else m_closeReason m) \<and>
        (m_closeReason m' \<noteq> [] \<longrightarrow> closeWithReason wb reason2 m' = (False, m')) \<and>
        sendInfo wb flag cid prio data m' = (SendErr (closedErr sendClosed m'), m') \<and>
        Mux_Accept m' = Some (Inl (closedErr ''accept error: the mux has closed'' m'), m')"
proof -
  define m1 where "m1 = (setCloseReason reason m)\<lparr>m_closed := True, m_queue := pq_Stop (m_queue m)\<rparr>"
  define m2 where "m2 = ConnMap_Close wb m1"
  have m1: "m_connMap m1 = m_connMap m" "m_closed m1" "m_queue m1 = pq_Stop (m_queue m)"
    "m_closeReason m1 = (if m_closeReason m = [] then reason else m_closeReason m)"
    "m_budget m1 = m_budget m" "m_conns m1 = m_conns m" "m_next m1 = m_next m"
    by (simp_all add: m1_def setCloseReason_def)
  have "mux_wf m1"
    using assms(1) m1 by (simp add: mux_wf_def pq_rel_Stop stream_bytes_def fun_eq_iff comp_def)
  note c = ConnMap_Close_all [OF this m1(2), of wb, folded ConnMap_Close_def, folded m2_def, unfolded Let_def]
  then obtain pr st where "pq_rel (m_queue m2) pr st"
    by (auto simp: mux_wf_def)
  from release_frames_spec [OF this lessI]
  obtain q where q: "release_frames (Suc (unat (pq_length (m_queue m2)))) (m_queue m2) = Some q"
    "pq_length q = 0" "pq_stop q" by blast
  have "\<not> m_closed (setCloseReason reason m)" "m_queue (setCloseReason reason m) = m_queue m"
    using assms(2) by (simp_all add: setCloseReason_def)
  then have "closeWithReason wb reason m = (True, mux_release m2)"
    by (simp add: closeWithReason_def m2_def m1_def Let_def)
  then have eq: "closeWithReason wb reason m = (True, m2\<lparr>m_queue := q\<rparr>)"
    by (simp only: mux_release_def q(1) option.case)
  have "sessionRecvQueued (m_budget m2) = 0"
    using c by (simp add: mux_wf_def)
  moreover have "rw_buffered (c_rw (m_conns m2 p)) = 0" if "stream_bytes m2 p = 0" for p
    using that by (simp add: stream_bytes_def word_unat_eq_iff)
  moreover define m' where "m' = m2\<lparr>m_queue := q\<rparr>"
  ultimately have parts: "m_closed m'" "m_connMap m' = []" "sessionRecvQueued (m_budget m') = 0"
    "\<forall>(i, p) \<in> set (m_connMap m). c_isClose (m_conns m' p) \<and> sw_closed (c_sw (m_conns m' p)) \<and>
            rw_closed (c_rw (m_conns m' p)) \<and> rw_buffered (c_rw (m_conns m' p)) = 0"
    "pq_length (m_queue m') = 0" "pq_stop (m_queue m')"
    "m_closeReason m' = (if m_closeReason m = [] then reason else m_closeReason m)"
    using c m1(1,4) q(2,3) by (fastforce simp: m'_def)+
  then have "m_closeReason m' \<noteq> [] \<longrightarrow> closeWithReason wb reason2 m' = (False, m')"
    "sendInfo wb flag cid prio data m' = (SendErr (closedErr sendClosed m'), m')"
    "Mux_Accept m' = Some (Inl (closedErr ''accept error: the mux has closed'' m'), m')"
    by (simp_all add: closeWithReason_def setCloseReason_def sendInfo_def sendFrame_def closedErr_def Mux_Accept_def)
  with parts show ?thesis
    unfolding eq Let_def prod.case m'_def [symmetric] by (intro conjI) simp_all
qed

lemma rw_counted_New: "rw_counted rw_New"
  by (simp add: rw_counted_def rw_New_def rq_inv_new rq_total_def le_Reset_def cur_bytes_def)

lemma mux_wf_New: "mux_wf (NewMuxWithConfig connType check isInitiator config)"
  by (auto simp: mux_wf_def NewMuxWithConfig_def Let_def pq_rel_Configure intro: pq_rel_New)

lemma map_update_new: "k \<notin> fst ` set xs \<Longrightarrow> AList.update k v xs = xs @ [(k, v)]"
  by (induction xs) auto

text \<open>Registering a new stream under a free id, as \<open>newConnWithTimeout\<close> and the read loop do.\<close>

lemma mux_wf_register:
  assumes wf: "mux_wf m" and free: "ConnMap_Get cid m = None"
  defines "m' \<equiv> ConnMap_Set cid (m_next m) (snd (alloc_conn cid m))"
  shows "mux_wf m'"
proof -
  define p where "p = m_next m"
  have new: "m_connMap m' = m_connMap m @ [(cid, p)]" "m_conns m' = (m_conns m)(p := NewConn cid)"
    "m_next m' = Suc p" "m_queue m' = m_queue m" "m_budget m' = m_budget m"
    using free by (simp_all add: m'_def p_def ConnMap_Set_def alloc_conn_def map_update_new ConnMap_Get_None)
  have old: "q < p \<and> c_id (m_conns m q) = j \<and> \<not> c_once (m_conns m q) \<and> rw_counted (c_rw (m_conns m q))"
    if "(j, q) \<in> set (m_connMap m)" for j q
    using wf that by (auto simp: mux_wf_def p_def)
  have "sum_list (map (stream_bytes m' \<circ> snd) (m_connMap m)) = sum_list (map (stream_bytes m \<circ> snd) (m_connMap m))"
    using old by (intro arg_cong [of _ _ sum_list]) (fastforce simp: stream_bytes_def new)
  moreover have "stream_bytes m' p = 0"
    by (simp add: stream_bytes_def new NewConn_def rw_New_def)
  moreover have "p \<notin> snd ` set (m_connMap m)"
    using old by fastforce
  moreover have "q < Suc p \<and> c_id (m_conns m' q) = i \<and> \<not> c_once (m_conns m' q) \<and> rw_counted (c_rw (m_conns m' q))"
    if "(i, q) \<in> set (m_connMap m')" for i q
  proof (cases "q = p")
    case True
    with that old have "i = cid" by (auto simp: new(1))
    with True show ?thesis by (simp add: new NewConn_def rw_counted_New)
  next
    case False
    with that old [of i q] show ?thesis by (auto simp: new)
  qed
  ultimately show ?thesis
    using wf free unfolding mux_wf_def by (auto simp: new(1,3-5) ConnMap_Get_None)
qed

lemma mux_wf_queue:
  assumes "mux_wf m" "pq_rel q pr st"
  shows "mux_wf (m\<lparr>m_queue := q\<rparr>)"
proof -
  have "stream_bytes (m\<lparr>m_queue := q\<rparr>) = stream_bytes m"
    by (simp add: stream_bytes_def fun_eq_iff)
  with assms show ?thesis by (auto simp: mux_wf_def)
qed

lemma mux_wf_sendInfo:
  assumes wf: "mux_wf m" and room: "unat (pq_length (m_queue m)) < 18446744073709551615"
    and free: "content_free flag data"
  shows "mux_wf (snd (sendInfo wb flag cid prio data m))"
proof -
  obtain pr st where rel: "pq_rel (m_queue m) pr st"
    using wf by (auto simp: mux_wf_def)
  obtain pack where pack: "pk_Set wb flag cid data (pk_new\<lparr>pk_priority := prio\<rparr>) = Inr pack"
    using pk_Set_content_free [OF free] by blast
  obtain ok q where push: "pq_Push pack (m_queue m) = (ok, q)"
    by fastforce
  have "\<exists>pr st. pq_rel q pr st"
  proof (cases ok)
    case True
    with push have "pq_Push pack (m_queue m) = (True, q)" by simp
    from pq_Push_rel(1) [OF rel room this] show ?thesis by blast
  next
    case False
    then have "q = m_queue m"
      using push by (simp add: pq_Push_def split: if_splits)
    with rel show ?thesis by blast
  qed
  then have "mux_wf (m\<lparr>m_queue := q\<rparr>)"
    using mux_wf_queue [OF wf] by blast
  then show ?thesis
    using wf by (simp add: sendFrame_content_free(3) [OF free] sendFrame_def bp_enters_content_free [OF free] pack push
        split: bool.split)
qed

lemma mux_wf_newConn:
  assumes "mux_wf m" "unat (pq_length (m_queue m)) < 18446744073709551615"
    and open_: "newConn_start k wb m = Some (Inr p, m')"
  shows "mux_wf m'"
proof -
  obtain cid where g: "\<not> m_closed m" "getId k m = Some (cid, m\<lparr>m_id := cid\<rparr>)" "ConnMap_Get cid m = None"
  proof (cases "getId k m")
    case (Some r)
    obtain cid m1 where r: "r = (cid, m1)" by fastforce
    have "\<not> m_closed m" using open_ by (auto simp: newConn_start_def)
    with Some getId_Some [of k m cid m1] that r show ?thesis by simp
  qed (use open_ in \<open>simp add: newConn_start_def split: if_splits\<close>)
  define m1 where "m1 = m\<lparr>m_id := cid\<rparr>"
  define m2 where "m2 = ConnMap_Set cid (m_next m1) (snd (alloc_conn cid m1))"
  have "stream_bytes m1 = stream_bytes m"
    by (simp add: stream_bytes_def m1_def fun_eq_iff)
  then have "mux_wf m1"
    using assms(1) by (simp add: mux_wf_def m1_def)
  moreover have "ConnMap_Get cid m1 = None"
    using g(3) by (simp add: m1_def ConnMap_Get_def)
  ultimately have "mux_wf m2"
    unfolding m2_def by (rule mux_wf_register)
  moreover have "m_queue m2 = m_queue m"
    by (simp add: m2_def m1_def ConnMap_Set_def alloc_conn_def)
  ultimately have "mux_wf (snd (sendInfo wb muxNewConn cid False DNil m2))"
    using assms(2) by (intro mux_wf_sendInfo) simp_all
  moreover have "m' = snd (sendInfo wb muxNewConn cid False DNil m2)"
    using open_ g(1) unfolding newConn_start_def g(2) m1_def [symmetric]
    by (auto simp: alloc_conn_def m2_def split: prod.splits send_out.splits)
  ultimately show ?thesis by simp
qed

lemma mux_wf_peer_session: "mux_wf peer_session" "\<not> m_closed peer_session"
proof -
  define m where "m = NewMuxWithConfig ''tcp'' 0 True (DefaultMuxConfig initialPingInterval)"
  have ps: "peer_session = snd (the (newConn_start 1 [] m))"
    by (simp add: peer_session_def m_def)
  have "map_option fst (newConn_start 1 [] m) = Some (Inr 0)"
    unfolding m_def by code_simp
  then have "newConn_start 1 [] m = Some (Inr 0, peer_session)"
    by (auto simp: ps)
  moreover have "pq_length (m_queue m) = 0"
    unfolding m_def by code_simp
  then have "unat (pq_length (m_queue m)) < 18446744073709551615"
    by simp
  moreover have "mux_wf m"
    unfolding m_def by (rule mux_wf_New)
  ultimately show "mux_wf peer_session"
    using mux_wf_newConn by blast
  show "\<not> m_closed peer_session" by code_simp
qed

theorem session_close_witness:
  "let (first, m') = closeWithReason [] ''ping timeout'' peer_session
   in first \<and> m_closed m' \<and> m_connMap m' = [] \<and> sessionRecvQueued (m_budget m') = 0 \<and>
      (\<forall>(i, p) \<in> set (m_connMap peer_session). c_isClose (m_conns m' p) \<and> sw_closed (c_sw (m_conns m' p)) \<and>
          rw_closed (c_rw (m_conns m' p)) \<and> rw_buffered (c_rw (m_conns m' p)) = 0) \<and>
      pq_length (m_queue m') = 0 \<and> pq_stop (m_queue m') \<and>
      m_closeReason m' = (if m_closeReason peer_session = [] then ''ping timeout'' else m_closeReason peer_session) \<and>
      (m_closeReason m' \<noteq> [] \<longrightarrow> closeWithReason [] ''again'' m' = (False, m')) \<and>
      sendInfo [] muxPeerHello 1 True DNil m' = (SendErr (closedErr sendClosed m'), m') \<and>
      Mux_Accept m' = Some (Inl (closedErr ''accept error: the mux has closed'' m'), m')"
  by (rule session_close [OF mux_wf_peer_session])

subsection \<open>Half-close\<close>

text \<open>The frame \<open>CloseWrite\<close> sends.\<close>

definition closeWrite_frame :: "Conn \<Rightarrow> muxPackager" where
  "closeWrite_frame c = pk_new\<lparr>pk_priority := c_priority c, pk_flag := muxConnCloseWrite, pk_id := c_id c\<rparr>"


text \<open>A session with one stream and a peer that announced half-close.\<close>

definition open_session :: Mux where
  "open_session =
     (let m = NewMuxWithConfig ''tcp'' 0 False (DefaultMuxConfig initialPingInterval)
      in (ConnMap_Set 2 0 (snd (alloc_conn 2 m)))\<lparr>m_remoteCapabilities := 1\<rparr>)"


end
