(* ===== verification/Mux_Flush.thy ===== *)
theory Mux_Flush
  imports Mux_Session
begin

text \<open>
  The buffered writer of a session (\<open>src/lib/mux/flush.go\<close>) and the write loop that feeds it
  (\<open>writeSession\<close> of \<open>mux_io.go\<close>).

  The network connection is outside the program: \<open>wconn\<close> holds the bytes it accepted and the results its
  next calls return (how many bytes a \<open>Write\<close> takes and whether it fails, whether setting a deadline
  fails); with no result left every call succeeds completely.
\<close>

subsection \<open>The connection\<close>

record wconn =
  wc_out :: bytes
  wc_writes :: "(nat \<times> bool) list"
  wc_deadlines :: "bool list"

definition conn_Write :: "bytes \<Rightarrow> wconn \<Rightarrow> nat \<times> bool \<times> wconn" where
  "conn_Write p c =
     (case wc_writes c of
        [] \<Rightarrow> (length p, False, c\<lparr>wc_out := wc_out c @ p\<rparr>)
      | (n, e) # rest \<Rightarrow>
          (min n (length p), e, c\<lparr>wc_out := wc_out c @ take n p, wc_writes := rest\<rparr>))"

definition conn_SetWriteDeadline :: "wconn \<Rightarrow> bool \<times> wconn" where
  "conn_SetWriteDeadline c =
     (case wc_deadlines c of [] \<Rightarrow> (False, c) | e # rest \<Rightarrow> (e, c\<lparr>wc_deadlines := rest\<rparr>))"

subsection \<open>The writer\<close>

datatype fw_error = ErrDeadline | ErrConn | ErrShortWrite

record FlushWriter =
  fw_buf :: bytes
  fw_maxSize :: nat
  fw_err :: "fw_error option"
  fw_writeTimeout :: int64

definition NewFlushWriterWithTimeout :: "int64 \<Rightarrow> FlushWriter" where
  "NewFlushWriterWithTimeout writeTimeout =
     \<lparr>fw_buf = [], fw_maxSize = nat poolSizeWindowBuffer, fw_err = None, fw_writeTimeout = writeTimeout\<rparr>"

text \<open>The loop of \<open>writeAll\<close>: every pass that goes on has written at least one byte.\<close>

function write_rest :: "bytes \<Rightarrow> wconn \<Rightarrow> fw_error option \<times> wconn" where
  "write_rest p c =
     (if p = [] then (None, c)
      else
        (let (nn, e, c) = conn_Write p c
         in if e then (Some ErrConn, c)
            else if nn = 0 then (Some ErrShortWrite, c)
            else write_rest (drop nn p) c))"
  by pat_completeness auto

termination
  by (relation "measure (\<lambda>(p, c). length p)") auto

declare write_rest.simps [simp del]

definition writeAll :: "bytes \<Rightarrow> FlushWriter \<Rightarrow> wconn \<Rightarrow> fw_error option \<times> FlushWriter \<times> wconn" where
  "writeAll p w c =
     (if 0 < fw_writeTimeout w then
        (case conn_SetWriteDeadline c of
           (True, c) \<Rightarrow> (Some ErrDeadline, w\<lparr>fw_err := Some ErrDeadline\<rparr>, c)
         | (False, c) \<Rightarrow>
             (let (err, c) = write_rest p c;
                  (clearErr, c) = conn_SetWriteDeadline c;
                  err = (if err = None \<and> clearErr then Some ErrDeadline else err)
              in (err, if err = None then w else w\<lparr>fw_err := err\<rparr>, c)))
      else
        (let (err, c) = write_rest p c
         in (err, if err = None then w else w\<lparr>fw_err := err\<rparr>, c)))"

definition fw_flush :: "FlushWriter \<Rightarrow> wconn \<Rightarrow> fw_error option \<times> FlushWriter \<times> wconn" where
  "fw_flush w c =
     (if fw_buf w = [] then (None, w, c)
      else (let (err, w, c) = writeAll (fw_buf w) w c in (err, w\<lparr>fw_buf := []\<rparr>, c)))"

definition fw_Write :: "bytes \<Rightarrow> FlushWriter \<Rightarrow> wconn \<Rightarrow> fw_error option \<times> FlushWriter \<times> wconn" where
  "fw_Write p w c =
     (case fw_err w of
        Some err \<Rightarrow> (Some err, w, c)
      | None \<Rightarrow>
          (let n = length p; b = length (fw_buf w); t = n + b;
               (err, w, c) = (if fw_maxSize w < t \<and> 0 < b then fw_flush w c else (None, w, c))
           in if err \<noteq> None then (err, w, c)
              else if fw_maxSize w < n then writeAll p w c
              else (None, w\<lparr>fw_buf := fw_buf w @ p\<rparr>, c)))"

definition fw_Flush :: "FlushWriter \<Rightarrow> wconn \<Rightarrow> fw_error option \<times> FlushWriter \<times> wconn" where
  "fw_Flush w c = (case fw_err w of Some err \<Rightarrow> (Some err, w, c) | None \<Rightarrow> fw_flush w c)"

definition fw_Close :: "FlushWriter \<Rightarrow> wconn \<Rightarrow> fw_error option \<times> FlushWriter \<times> wconn" where
  "fw_Close w c =
     (let (err, w, c) = (if fw_err w = None \<and> fw_buf w \<noteq> [] then fw_flush w c else (fw_err w, w, c))
      in (err, w\<lparr>fw_buf := []\<rparr>, c))"

subsection \<open>The write loop of a session\<close>

text \<open>The \<open>Write\<close> calls of \<open>Pack\<close>.\<close>

definition pk_writes :: "muxPackager \<Rightarrow> bytes list" where
  "pk_writes p =
     (let head = pk_flag p # put_le 4 (unat (pk_id p))
      in if has_content (pk_flag p) then
           [head @ put_le 2 (unat (pk_length p)),
            take (unat (pk_length p)) (case pk_content p of None \<Rightarrow> [] | Some b \<Rightarrow> b)]
         else if pk_flag p = muxMsgSendOk then [head @ put_le 8 (unat (pk_window p))]
         else [head])"

fun fw_writes :: "bytes list \<Rightarrow> FlushWriter \<Rightarrow> wconn \<Rightarrow> fw_error option \<times> FlushWriter \<times> wconn" where
  "fw_writes [] w c = (None, w, c)"
| "fw_writes (p # ps) w c =
     (case fw_Write p w c of
        (Some err, w, c) \<Rightarrow> (Some err, w, c)
      | (None, w, c) \<Rightarrow> fw_writes ps w c)"

text \<open>
  One pass of \<open>writeSession\<close>.  The first component is the popped frame; the errors of \<open>Flush\<close> are
  ignored, as in the source, and come back from the next \<open>Write\<close>.
\<close>

datatype ws_status = WsRun | WsWait | WsStop

definition ws_exit :: "Mux \<Rightarrow> FlushWriter \<Rightarrow> wconn \<Rightarrow> ws_status \<times> Mux \<times> FlushWriter \<times> wconn" where
  "ws_exit m w c = (let (_, w, c) = fw_Flush w c; (_, w, c) = fw_Close w c in (WsStop, m, w, c))"

definition ws_frame ::
    "bytes \<Rightarrow> muxPackager \<Rightarrow> Mux \<Rightarrow> FlushWriter \<Rightarrow> wconn \<Rightarrow> ws_status \<times> Mux \<times> FlushWriter \<times> wconn" where
  "ws_frame wb pack m w c =
     (case fw_writes (pk_writes pack) w c of
        (Some err, w, c) \<Rightarrow> ws_exit (snd (closeWithReason wb ''write session pack failed'' m)) w c
      | (None, w, c) \<Rightarrow>
          if isMuxImmediateFlushFlag (pk_flag pack) then (let (_, w, c) = fw_Flush w c in (WsRun, m, w, c))
          else (WsRun, m, w, c))"

definition ws_step ::
    "bytes \<Rightarrow> Mux \<Rightarrow> FlushWriter \<Rightarrow> wconn \<Rightarrow> muxPackager option \<times> ws_status \<times> Mux \<times> FlushWriter \<times> wconn" where
  "ws_step wb m w c =
     (if m_closed m then (None, ws_exit m w c)
      else
        (case pq_TryPop (m_queue m) of
           (Some pack, _, q) \<Rightarrow> (Some pack, ws_frame wb pack (m\<lparr>m_queue := q\<rparr>) w c)
         | (None, _, q) \<Rightarrow>
             (let (_, w, c) = fw_Flush w c
              in case pq_Pop q of
                   PopFrame pack _ q \<Rightarrow> (Some pack, ws_frame wb pack (m\<lparr>m_queue := q\<rparr>) w c)
                 | PopStopped q \<Rightarrow> (None, ws_exit (m\<lparr>m_queue := q\<rparr>) w c)
                 | PopWait q \<Rightarrow> (None, WsWait, m\<lparr>m_queue := q\<rparr>, w, c))))"

text \<open>
  The loop, with the frames other goroutines queue before each of its passes; it ends for good once a
  pass stops.
\<close>

fun queue_all :: "muxPackager list \<Rightarrow> Mux \<Rightarrow> Mux" where
  "queue_all [] m = m"
| "queue_all (p # ps) m = queue_all ps (m\<lparr>m_queue := snd (pq_Push p (m_queue m))\<rparr>)"

fun ws_run ::
    "bytes \<Rightarrow> muxPackager list list \<Rightarrow> Mux \<Rightarrow> FlushWriter \<Rightarrow> wconn \<Rightarrow>
     muxPackager list \<times> ws_status \<times> Mux \<times> FlushWriter \<times> wconn" where
  "ws_run wb [] m w c = ([], WsRun, m, w, c)"
| "ws_run wb (ps # rest) m w c =
     (case ws_step wb (queue_all ps m) w c of
        (pack, st, m, w, c) \<Rightarrow>
          if st = WsStop \<or> rest = [] then (case pack of None \<Rightarrow> [] | Some p \<Rightarrow> [p], st, m, w, c)
          else (let (ps, r) = ws_run wb rest m w c in ((case pack of None \<Rightarrow> [] | Some p \<Rightarrow> [p]) @ ps, r)))"

subsection \<open>What reaches the connection\<close>

text \<open>
  \<open>fw_rel d w c w' c'\<close>: handing the bytes \<open>d\<close> to the writer took it from \<open>(w, c)\<close> to \<open>(w', c')\<close>.  Without an
  error nothing is lost; after one, the connection still has a prefix of everything.
\<close>

definition fw_rel :: "bytes \<Rightarrow> FlushWriter \<Rightarrow> wconn \<Rightarrow> FlushWriter \<Rightarrow> wconn \<Rightarrow> bool" where
  "fw_rel d w c w' c' \<longleftrightarrow>
     (if fw_err w' = None
      then fw_err w = None \<and> wc_out c' @ fw_buf w' = wc_out c @ fw_buf w @ d
      else if fw_err w = None then \<exists>rest. wc_out c @ fw_buf w @ d = wc_out c' @ rest
      else wc_out c' = wc_out c)"

lemma conn_Write_spec:
  assumes "conn_Write p c = (nn, e, c')"
  shows "nn \<le> length p" "wc_out c' = wc_out c @ take nn p"
  using assms by (auto simp: conn_Write_def min_def split: list.splits)

lemma write_rest_spec:
  "write_rest p c = (err, c') \<Longrightarrow>
   (if err = None then wc_out c' = wc_out c @ p else \<exists>n. wc_out c' = wc_out c @ take n p)"
proof (induction p c arbitrary: c' rule: write_rest.induct)
  case (1 p c)
  show ?case
  proof (cases "p = []")
    case False
    obtain nn e c1 where w: "conn_Write p c = (nn, e, c1)" by (metis prod_cases3)
    note s = conn_Write_spec [OF w]
    have stop: "\<exists>n. wc_out c1 = wc_out c @ take n p"
      using s(2) by blast
    show ?thesis
    proof (cases "e \<or> nn = 0")
      case True
      then show ?thesis
        using "1.prems" w False stop by (subst (asm) write_rest.simps) (auto split: if_splits)
    next
      case more: False
      then have rec: "write_rest (drop nn p) c1 = (err, c')"
        using "1.prems" w False by (subst (asm) write_rest.simps) auto
      have "take nn p @ take n (drop nn p) = take (nn + n) p" for n
        by (simp add: take_add)
      then show ?thesis
        using "1.IH" [OF False refl w [symmetric] refl _ _ rec] more s(2) by (auto split: if_splits)
    qed
  qed (use "1.prems" in \<open>simp add: write_rest.simps\<close>)
qed

lemma writeAll_spec:
  assumes "writeAll p w c = (err, w', c')" "fw_err w = None"
  shows "w' = w\<lparr>fw_err := err\<rparr>"
    "if err = None then wc_out c' = wc_out c @ p else \<exists>n. wc_out c' = wc_out c @ take n p"
proof -
  have d: "wc_out (snd (conn_SetWriteDeadline c)) = wc_out c" for c
    by (simp add: conn_SetWriteDeadline_def split: list.split)
  have w: "w\<lparr>fw_err := None\<rparr> = w"
    using assms(2) by simp
  obtain e1 c1 where c1: "conn_SetWriteDeadline c = (e1, c1)" by fastforce
  obtain e2 c2 where c2: "write_rest p c1 = (e2, c2)" by fastforce
  obtain e3 c3 where c3: "conn_SetWriteDeadline c2 = (e3, c3)" by fastforce
  obtain e4 c4 where c4: "write_rest p c = (e4, c4)" by fastforce
  note outs = d [of c, unfolded c1 snd_conv] d [of c2, unfolded c3 snd_conv]
    write_rest_spec [OF c2] write_rest_spec [OF c4]
  have eq: "writeAll p w c =
     (if fw_writeTimeout w \<le> 0 then (e4, w\<lparr>fw_err := e4\<rparr>, c4)
      else if e1 then (Some ErrDeadline, w\<lparr>fw_err := Some ErrDeadline\<rparr>, c1)
      else if e2 = None \<and> e3 then (Some ErrDeadline, w\<lparr>fw_err := Some ErrDeadline\<rparr>, c3)
      else (e2, w\<lparr>fw_err := e2\<rparr>, c3))"
    by (cases e1; cases e2; cases e4) (simp_all add: writeAll_def c1 c2 c3 c4 w Let_def)
  show "w' = w\<lparr>fw_err := err\<rparr>"
    using assms(1) by (auto simp: eq split: if_splits)
  show "if err = None then wc_out c' = wc_out c @ p else \<exists>n. wc_out c' = wc_out c @ take n p"
    using assms(1) outs by (auto simp: eq split: if_splits) (metis order_refl take_all)+
qed

lemma fw_flush_spec:
  assumes "fw_flush w c = (err, w', c')" "fw_err w = None"
  shows "fw_rel [] w c w' c'" "fw_buf w' = []" "fw_err w' = err" "fw_maxSize w' = fw_maxSize w"
proof -
  have "fw_rel [] w c w' c' \<and> fw_buf w' = [] \<and> fw_err w' = err \<and> fw_maxSize w' = fw_maxSize w"
  proof (cases "fw_buf w = []")
    case False
    obtain w1 c1 where "writeAll (fw_buf w) w c = (err, w1, c1)" "w' = w1\<lparr>fw_buf := []\<rparr>" "c' = c1"
      using assms(1) False by (auto simp: fw_flush_def split: prod.splits)
    with writeAll_spec [OF this(1) assms(2)] assms(2) show ?thesis
      by (auto simp: fw_rel_def split: if_splits) (metis append_take_drop_id)
  qed (use assms in \<open>simp add: fw_flush_def fw_rel_def\<close>)
  then show "fw_rel [] w c w' c'" "fw_buf w' = []" "fw_err w' = err" "fw_maxSize w' = fw_maxSize w" by auto
qed

lemma fw_rel_trans:
  assumes "fw_rel d w c w1 c1" "fw_rel e w1 c1 w2 c2"
  shows "fw_rel (d @ e) w c w2 c2"
proof -
  have "\<exists>rest. x @ e = y @ rest" if "\<exists>rest. x = y @ rest" for x y :: bytes
    using that by auto
  then show ?thesis
    using assms unfolding fw_rel_def by (smt (verit, ccfv_threshold) append_assoc)
qed

lemma fw_Flush_spec:
  assumes "fw_Flush w c = (err, w', c')"
  shows "fw_rel [] w c w' c'" "fw_err w' = err" "err = None \<Longrightarrow> fw_buf w' = []"
  using assms fw_flush_spec [of w c err w' c']
  by (auto simp: fw_Flush_def fw_rel_def split: option.splits)

lemma fw_Close_spec:
  assumes "fw_Close w c = (err, w', c')"
  shows "fw_rel [] w c w' c'"
proof (cases "fw_err w = None \<and> fw_buf w \<noteq> []")
  case True
  then obtain w1 where f: "fw_flush w c = (err, w1, c')" "w' = w1\<lparr>fw_buf := []\<rparr>"
    using assms by (auto simp: fw_Close_def split: prod.splits)
  with fw_flush_spec [OF f(1)] True show ?thesis
    by (auto simp: fw_rel_def split: if_splits)
next
  case False
  then show ?thesis
    using assms by (auto simp: fw_Close_def fw_rel_def)
qed

lemma fw_Write_spec:
  assumes "fw_Write p w c = (err, w', c')"
  shows "fw_rel p w c w' c' \<and> fw_err w' = err"
proof (cases "fw_err w")
  case None
  obtain e1 w1 c1 where f: "(if fw_maxSize w < length p + length (fw_buf w) \<and> 0 < length (fw_buf w)
      then fw_flush w c else (None, w, c)) = (e1, w1, c1)" by (metis prod_cases3)
  have s: "fw_rel [] w c w1 c1" "fw_err w1 = e1" "fw_maxSize w1 = fw_maxSize w"
    "fw_maxSize w < length p \<Longrightarrow> fw_buf w1 = []"
    using f fw_flush_spec [OF _ None, of c e1 w1 c1] None by (auto simp: fw_rel_def split: if_splits)
  show ?thesis
  proof (cases "e1 = None \<and> fw_maxSize w < length p")
    case True
    then have "writeAll p w1 c1 = (err, w', c')"
      using assms None f s(3) by (simp add: fw_Write_def Let_def split: if_splits)
    with writeAll_spec [OF this] True s have "fw_rel p w1 c1 w' c' \<and> fw_err w' = err"
      by (auto simp: fw_rel_def split: if_splits) (metis append_take_drop_id)
    with fw_rel_trans [OF s(1), of p] show ?thesis by simp
  next
    case False
    then have out: "c' = c1" "if e1 = None then err = None \<and> w' = w1\<lparr>fw_buf := fw_buf w1 @ p\<rparr> else err = e1 \<and> w' = w1"
      using assms None f s(3) by (auto simp: fw_Write_def Let_def split: if_splits)
    then have "fw_rel p w1 c1 w' c' \<and> fw_err w' = err"
      using s(2) by (auto simp: fw_rel_def split: if_splits)
    with fw_rel_trans [OF s(1), of p] show ?thesis by simp
  qed
qed (use assms in \<open>auto simp: fw_Write_def fw_rel_def\<close>)

lemma fw_writes_spec:
  "fw_writes ps w c = (err, w', c') \<Longrightarrow> fw_rel (concat ps) w c w' c' \<and> (ps \<noteq> [] \<longrightarrow> fw_err w' = err)"
proof (induction ps arbitrary: w c)
  case (Cons p ps)
  obtain e1 w1 c1 where f: "fw_Write p w c = (e1, w1, c1)" by (metis prod_cases3)
  note s = fw_Write_spec [OF f]
  show ?case
  proof (cases e1)
    case None
    then have r: "fw_writes ps w1 c1 = (err, w', c')" using Cons.prems f by simp
    have "ps = [] \<Longrightarrow> fw_err w' = err" using r s None by auto
    moreover have "fw_rel (p @ concat ps) w c w' c'"
      using Cons.IH [OF r] s fw_rel_trans by blast
    ultimately show ?thesis
      using Cons.IH [OF r] by auto
  next
    case (Some e)
    then have "err = Some e" "w' = w1" "c' = c1" using Cons.prems f by auto
    with fw_rel_trans [of p w c w1 c1 "concat ps" w1 c1] s Some show ?thesis by (simp add: fw_rel_def)
  qed
qed (simp add: fw_rel_def)

lemma fw_rel_nil: "fw_rel [] w c w1 c1 \<Longrightarrow> fw_rel e w1 c1 w2 c2 \<Longrightarrow> fw_rel e w c w2 c2"
  using fw_rel_trans [of "[]"] by simp

lemma fw_rel_nil2: "fw_rel d w c w1 c1 \<Longrightarrow> fw_rel [] w1 c1 w2 c2 \<Longrightarrow> fw_rel d w c w2 c2"
  using fw_rel_trans [of d _ _ _ _ "[]"] by simp

lemma concat_pk_writes: "concat (pk_writes p) = fst (pk_Pack p)"
  by (simp add: pk_writes_def pk_Pack_def base_Pack_def Let_def)

lemma ws_exit_spec: "ws_exit m w c = (st, m', w', c') \<Longrightarrow> fw_rel [] w c w' c' \<and> st = WsStop"
  unfolding ws_exit_def
  by (auto split: prod.splits intro: fw_rel_nil fw_Flush_spec(1) fw_Close_spec)

lemma ws_frame_spec:
  assumes "ws_frame wb pack m w c = (st, m', w', c')"
  shows "fw_rel (fst (pk_Pack pack)) w c w' c' \<and> st \<noteq> WsWait"
proof -
  obtain e1 w1 c1 where f: "fw_writes (pk_writes pack) w c = (e1, w1, c1)" by (metis prod_cases3)
  obtain e2 w2 c2 where g: "fw_Flush w1 c1 = (e2, w2, c2)" by (metis prod_cases3)
  have r: "fw_rel (fst (pk_Pack pack)) w c w1 c1"
    using fw_writes_spec [OF f] concat_pk_writes by simp
  show ?thesis
  proof (cases e1)
    case None
    then have "(w', c') = (w1, c1) \<or> (w', c') = (w2, c2)" "st = WsRun"
      using assms f g by (auto simp: ws_frame_def split: if_splits)
    then show ?thesis
      using r fw_rel_nil2 [OF r fw_Flush_spec(1) [OF g]] by auto
  next
    case (Some e)
    then have "ws_exit (snd (closeWithReason wb ''write session pack failed'' m)) w1 c1 = (st, m', w', c')"
      using assms f by (simp add: ws_frame_def)
    then show ?thesis
      using fw_rel_nil2 [OF r] ws_exit_spec by fastforce
  qed
qed

text \<open>The bytes of the frame a pass popped.\<close>

definition popped_bytes :: "muxPackager option \<Rightarrow> bytes" where
  "popped_bytes pack = (case pack of None \<Rightarrow> [] | Some p \<Rightarrow> fst (pk_Pack p))"

lemma ws_step_spec:
  assumes "ws_step wb m w c = (pack, st, m', w', c')"
  shows "fw_rel (popped_bytes pack) w c w' c' \<and> (st = WsWait \<longrightarrow> pack = None \<and> (fw_err w' = None \<longrightarrow> fw_buf w' = []))"
proof -
  obtain r b q where p: "pq_TryPop (m_queue m) = (r, b, q)" by (metis prod_cases3)
  obtain e1 w1 c1 where g: "fw_Flush w c = (e1, w1, c1)" by (metis prod_cases3)
  note s = fw_Flush_spec [OF g]
  show ?thesis
  proof (cases "m_closed m")
    case True
    then have "pack = None" "ws_exit m w c = (st, m', w', c')"
      using assms by (simp_all add: ws_step_def)
    then show ?thesis using ws_exit_spec by (fastforce simp: popped_bytes_def)
  next
    case open_: False
    show ?thesis
    proof (cases r)
      case (Some pk)
      then have "pack = Some pk" "ws_frame wb pk (m\<lparr>m_queue := q\<rparr>) w c = (st, m', w', c')"
        using assms p open_ by (simp_all add: ws_step_def)
      then show ?thesis using ws_frame_spec by (fastforce simp: popped_bytes_def)
    next
      case None
      show ?thesis
      proof (cases "pq_Pop q")
        case (PopFrame pk b' q')
        then have "pack = Some pk" "ws_frame wb pk (m\<lparr>m_queue := q'\<rparr>) w1 c1 = (st, m', w', c')"
          using assms p open_ None g by (simp_all add: ws_step_def)
        then show ?thesis
          using ws_frame_spec fw_rel_nil [OF s(1)] by (fastforce simp: popped_bytes_def)
      next
        case (PopStopped q')
        then have "pack = None" "ws_exit (m\<lparr>m_queue := q'\<rparr>) w1 c1 = (st, m', w', c')"
          using assms p open_ None g by (simp_all add: ws_step_def)
        then show ?thesis
          using ws_exit_spec fw_rel_nil [OF s(1)] by (fastforce simp: popped_bytes_def)
      next
        case (PopWait q')
        then have "pack = None" "st = WsWait" "w' = w1" "c' = c1"
          using assms p open_ None g by (simp_all add: ws_step_def)
        then show ?thesis using s by (simp add: popped_bytes_def)
      qed
    qed
  qed
qed

lemma ws_run_spec:
  assumes "ws_run wb arrivals m w c = (frames, st, m', w', c')"
  shows "fw_rel (concat (map (\<lambda>p. fst (pk_Pack p)) frames)) w c w' c' \<and>
     (st = WsWait \<and> fw_err w' = None \<longrightarrow> fw_buf w' = [])"
  using assms
proof (induction arrivals arbitrary: m w c frames)
  case (Cons ps rest)
  obtain pack st1 m1 w1 c1 where f: "ws_step wb (queue_all ps m) w c = (pack, st1, m1, w1, c1)"
    by (metis prod_cases5)
  note s = ws_step_spec [OF f]
  have pb: "popped_bytes pack = concat (map (\<lambda>p. fst (pk_Pack p)) (case pack of None \<Rightarrow> [] | Some p \<Rightarrow> [p]))"
    by (simp add: popped_bytes_def split: option.split)
  show ?case
  proof (cases "st1 = WsStop \<or> rest = []")
    case True
    then have "frames = (case pack of None \<Rightarrow> [] | Some p \<Rightarrow> [p])" "st = st1" "w' = w1" "c' = c1"
      using Cons.prems f by simp_all
    with s show ?thesis by (simp only: pb) blast
  next
    case False
    then obtain fs where r: "ws_run wb rest m1 w1 c1 = (fs, st, m', w', c')"
      "frames = (case pack of None \<Rightarrow> [] | Some p \<Rightarrow> [p]) @ fs"
      using Cons.prems f by (auto split: prod.splits)
    have "fw_rel (popped_bytes pack @ concat (map (\<lambda>p. fst (pk_Pack p)) fs)) w c w' c'"
      using Cons.IH [OF r(1)] s by (blast intro: fw_rel_trans)
    then show ?thesis
      using Cons.IH [OF r(1)] by (simp only: r(2) pb map_append concat_append) blast
  qed
qed (simp add: fw_rel_def)

text \<open>C5: What a session's write loop (\<open>writeSession\<close>) puts on the wire.  Whatever frames are queued
  before each of its passes and however the connection splits, shortens or fails its writes, the
  connection always has a prefix of the encodings of the popped frames, in the order they were popped.
  When the loop waits for work without a write error, nothing is held back in the buffer: the
  connection has exactly these encodings, and the peer's read loop decodes them to the popped frames.\<close>

theorem writer_wire:
  assumes "ws_run wb arrivals m (NewFlushWriterWithTimeout timeout) c = (frames, st, m', w', c')" "wc_out c = []"
  shows "(\<exists>rest. concat (map (\<lambda>p. fst (pk_Pack p)) frames) = wc_out c' @ rest) \<and>
     (st = WsWait \<and> fw_err w' = None \<and> (\<forall>p \<in> set frames. pk_ok p) \<and> length rb = 4096 \<longrightarrow>
      wc_out c' = concat (map (\<lambda>p. fst (pk_Pack p)) frames) \<and>
      unpack_stream (Suc (length frames)) rb (wc_out c') = Inr (map pk_frame frames))"
proof -
  have s: "fw_rel (concat (map (\<lambda>p. fst (pk_Pack p)) frames)) (NewFlushWriterWithTimeout timeout) c w' c'"
    "st = WsWait \<and> fw_err w' = None \<longrightarrow> fw_buf w' = []"
    using ws_run_spec [OF assms(1)] by blast+
  then have pre: "\<exists>rest. concat (map (\<lambda>p. fst (pk_Pack p)) frames) = wc_out c' @ rest"
    and all_: "fw_err w' = None \<Longrightarrow> wc_out c' @ fw_buf w' = concat (map (\<lambda>p. fst (pk_Pack p)) frames)"
    using assms(2) by (auto simp: fw_rel_def NewFlushWriterWithTimeout_def split: if_splits intro: sym)
  with s(2) unpack_packed [of frames rb] show ?thesis by (auto simp del: unpack_stream.simps)
qed

text \<open>Two frames, a connection that takes three bytes and then everything.\<close>

definition wire_frames :: "muxPackager list" where
  "wire_frames = [pk_new\<lparr>pk_flag := muxNewConnOk, pk_id := 2\<rparr>, pk_new\<lparr>pk_flag := muxMsgSendOk, pk_id := 2, pk_window := 9\<rparr>]"

definition wire_run :: "muxPackager list \<times> ws_status \<times> Mux \<times> FlushWriter \<times> wconn" where
  "wire_run = ws_run [] [wire_frames, [], []] (NewMuxWithConfig ''tcp'' 0 False (DefaultMuxConfig initialPingInterval))
     (NewFlushWriterWithTimeout 0) \<lparr>wc_out = [], wc_writes = [(3, False)], wc_deadlines = []\<rparr>"

theorem writer_wire_witness:
  "fst wire_run = wire_frames \<and> fst (snd wire_run) = WsWait \<and>
   wc_out (snd (snd (snd (snd wire_run)))) = concat (map (\<lambda>p. fst (pk_Pack p)) wire_frames) \<and>
   unpack_stream 3 (replicate 4096 0) (wc_out (snd (snd (snd (snd wire_run))))) = Inr (map pk_frame wire_frames)"
proof -
  obtain frames st m' w' c' where r: "wire_run = (frames, st, m', w', c')" by (metis prod_cases5)
  have "fst wire_run = wire_frames" by code_simp
  then have frames: "frames = wire_frames" unfolding r by simp
  have "fst (snd wire_run) = WsWait" by code_simp
  then have st: "st = WsWait" unfolding r by simp
  have "fw_err (fst (snd (snd (snd wire_run)))) = None" by code_simp
  then have err: "fw_err w' = None" unfolding r by simp
  have "\<forall>p \<in> set wire_frames. pk_ok p"
    by (simp add: wire_frames_def pk_ok_def has_content_def mux_flags)
  moreover have "Suc (length wire_frames) = 3"
    by (simp add: wire_frames_def)
  ultimately show ?thesis
    using writer_wire [OF r [unfolded wire_run_def], of "replicate 4096 0"]
    unfolding r frames st by (auto simp add: err simp del: unpack_stream.simps)
qed

end
