(* ===== verification/Rate_Limit.thy ===== *)
theory Rate_Limit
  imports Prelude
begin

text \<open>
  The bandwidth limiters of \<open>src/lib/rate\<close>: the virtual-scheduling rate limiter \<open>Rate\<close>, the
  connection wrapper \<open>rateConn\<close> and the traffic \<open>Meter\<close>.

  Times are nanoseconds.  A reading of \<open>r.nowNs()\<close> is an argument of the operation that makes it, and a
  compare-and-swap loop is the transition of its successful iteration (\<open>now\<close> is the reading of that
  iteration, \<open>now0\<close> the first one).  A stop channel is a number; an operation that closes one
  returns it.
\<close>

subsection \<open>Arithmetic helpers\<close>

definition sampleIntervalNs :: int64 where "sampleIntervalNs = 1000000000"
definition coalesceWaitNs :: int64 where "coalesceWaitNs = 200000"
definition shortWaitNs :: int64 where "shortWaitNs = 2000000"
definition burstWindowNs :: int64 where "burstWindowNs = 2000000000"

definition bytesToNsCeil :: "int64 \<Rightarrow> int64 \<Rightarrow> int64" where
  "bytesToNsCeil bytes rate =
     (if bytes \<le> 0 \<or> rate \<le> 0 then 0
      else if quot maxI64 1000000000 < bytes then maxI64
      else
        (let num = wrap64 (bytes * 1000000000)
         in wrap64 (quot (wrap64 (wrap64 (num + rate) - 1)) rate)))"

definition bytesPerSec :: "int64 \<Rightarrow> int64 \<Rightarrow> int64" where
  "bytesPerSec bytes dtNs =
     (if bytes \<le> 0 \<or> dtNs \<le> 0 then 0
      else
        (let q = quot bytes dtNs; r = rem bytes dtNs
         in if quot maxI64 1000000000 < q then maxI64
            else
              (let res = wrap64 (q * 1000000000);
                   add = (if quot maxI64 1000000000 < r then quot maxI64 dtNs
                          else quot (wrap64 (r * 1000000000)) dtNs)
               in if 0 < r \<and> maxI64 - res < add then maxI64
                  else (let res = (if 0 < r then wrap64 (res + add) else res)
                        in if res < 0 then maxI64 else res))))"

definition clampAdd :: "int64 \<Rightarrow> int64 \<Rightarrow> int64" where
  "clampAdd a b = (if b \<le> 0 then a else if maxI64 - b < a then maxI64 else a + b)"

definition clampSub :: "int64 \<Rightarrow> int64 \<Rightarrow> int64" where
  "clampSub a b = (if b \<le> 0 then a else if a < minI64 + b then minI64 else a - b)"

subsection \<open>Rate\<close>

record Rate =
  r_rate :: int64
  r_burstNs :: int64
  r_tat :: int64
  r_enabled :: bool
  r_t0 :: "int64 option"
  r_stopped :: bool
  r_stop :: "nat option"
  r_bytesAcc :: int64
  r_lastSampleNs :: int64
  r_nowBps :: int64

definition NewRate :: "int64 \<Rightarrow> int64 \<Rightarrow> int64 \<Rightarrow> nat \<Rightarrow> Rate" where
  "NewRate limitBps t0 now ch =
     (let limitBps = (if limitBps \<le> 0 then 0 else limitBps)
      in \<lparr>r_rate = limitBps, r_burstNs = burstWindowNs,
          r_tat = (if 0 < limitBps then - burstWindowNs else 0),
          r_enabled = True, r_t0 = Some t0, r_stopped = False, r_stop = Some ch,
          r_bytesAcc = 0, r_lastSampleNs = now, r_nowBps = 0\<rparr>)"

definition SetLimit :: "int64 \<Rightarrow> Rate \<Rightarrow> Rate" where
  "SetLimit limitBps r = r\<lparr>r_rate := (if limitBps \<le> 0 then 0 else limitBps)\<rparr>"

definition updateRateWithNow :: "int64 \<Rightarrow> Rate \<Rightarrow> Rate" where
  "updateRateWithNow now r =
     (if wrap64 (now - r_lastSampleNs r) < sampleIntervalNs then r
      else
        (let bytes = (if r_bytesAcc r < 0 then 0 else r_bytesAcc r);
             dt = wrap64 (now - r_lastSampleNs r);
             r = r\<lparr>r_lastSampleNs := now, r_bytesAcc := 0\<rparr>
         in if dt \<le> 0 then r else r\<lparr>r_nowBps := bytesPerSec bytes dt\<rparr>))"

definition Rate_Now :: "int64 \<Rightarrow> Rate \<Rightarrow> int64 \<times> Rate" where
  "Rate_Now now r = (let r = updateRateWithNow now r in (r_nowBps r, r))"

text \<open>\<open>Stop\<close> also returns the channel it closes.\<close>

definition Rate_Stop :: "Rate \<Rightarrow> nat option \<times> Rate" where
  "Rate_Stop r =
     (if r_stopped r then None else r_stop r,
      r\<lparr>r_enabled := False, r_stopped := True, r_bytesAcc := 0, r_nowBps := 0\<rparr>)"

text \<open>\<open>Start\<close> stores the fresh channel \<open>ch\<close> when it needs one; \<open>now1\<close> and \<open>now2\<close> are its two clock readings.\<close>

definition Rate_Start :: "int64 \<Rightarrow> int64 \<Rightarrow> nat \<Rightarrow> Rate \<Rightarrow> Rate" where
  "Rate_Start now1 now2 ch r =
     (let needReset = (r_stopped r \<or> \<not> r_enabled r \<or> r_stop r = None);
          r1 = (if r_stopped r \<or> r_stop r = None then r\<lparr>r_stop := Some ch, r_stopped := False\<rparr> else r);
          r2 = (if needReset
                then r1\<lparr>r_tat := (if 0 < r_rate r1 then wrap64 (now1 - r_burstNs r1) else 0),
                        r_bytesAcc := 0, r_lastSampleNs := now2, r_nowBps := 0\<rparr>
                else r1)
      in r2\<lparr>r_enabled := True\<rparr>)"

definition ResetLimit :: "int64 \<Rightarrow> int64 \<Rightarrow> int64 \<Rightarrow> nat \<Rightarrow> Rate \<Rightarrow> nat option \<times> Rate" where
  "ResetLimit limitBps now1 now2 ch r =
     (let (closed, r) = Rate_Stop r in (closed, Rate_Start now1 now2 ch (SetLimit limitBps r)))"

text \<open>The clone has a channel of its own (\<open>ch\<close>), closed when the original is stopped.\<close>

definition Rate_Clone :: "int64 \<Rightarrow> int64 \<Rightarrow> nat \<Rightarrow> Rate \<Rightarrow> nat option \<times> Rate" where
  "Rate_Clone t now ch r =
     (if r_t0 r = None
      then (let c = NewRate (r_rate r) t now ch
            in if \<not> r_enabled r then Rate_Stop c else (None, c))
      else (if r_stopped r then Some ch else None, r\<lparr>r_stop := Some ch\<rparr>))"

definition ReturnBucket :: "int64 \<Rightarrow> int64 \<Rightarrow> Rate \<Rightarrow> Rate" where
  "ReturnBucket sz now r =
     (if sz \<le> 0 \<or> \<not> r_enabled r then r
      else
        (let r = r\<lparr>r_bytesAcc := wrap64 (r_bytesAcc r - sz)\<rparr>
         in if r_rate r \<le> 0 then r
            else
              (let refund = bytesToNsCeil sz (r_rate r);
                   minTat = wrap64 (now - r_burstNs r);
                   next = clampSub (r_tat r) refund
               in r\<lparr>r_tat := (if next < minTat then minTat else next)\<rparr>)))"

definition reserve :: "int64 \<Rightarrow> int64 \<Rightarrow> int64 \<Rightarrow> Rate \<Rightarrow> int64 \<times> Rate" where
  "reserve sz now0 now r =
     (if sz \<le> 0 \<or> \<not> r_enabled r then (0, r)
      else
        (let r = updateRateWithNow now0 (r\<lparr>r_bytesAcc := wrap64 (r_bytesAcc r + sz)\<rparr>)
         in if r_rate r \<le> 0 then (0, r)
            else
              (let cost = bytesToNsCeil sz (r_rate r);
                   minTat = wrap64 (now - r_burstNs r);
                   base = (if r_tat r < minTat then minTat else r_tat r);
                   next = clampAdd base cost;
                   wait = wrap64 (next - now)
               in (if wait < 0 then 0 else wait, r\<lparr>r_tat := next\<rparr>))))"

text \<open>How \<open>sleepNs\<close> waits: not at all, for a time, or for a time unless a channel is closed.\<close>

datatype sleep = NoSleep | SleepFor int64 | SleepUnless int64 nat

definition sleepNs :: "int64 \<Rightarrow> nat option \<Rightarrow> sleep" where
  "sleepNs waitNs stopCh =
     (if waitNs \<le> 0 then NoSleep
      else case stopCh of
          None \<Rightarrow> SleepFor waitNs
        | Some ch \<Rightarrow> if waitNs \<le> shortWaitNs then SleepFor waitNs else SleepUnless waitNs ch)"

definition Rate_Get :: "int64 \<Rightarrow> int64 \<Rightarrow> int64 \<Rightarrow> Rate \<Rightarrow> sleep \<times> Rate" where
  "Rate_Get sz now0 now r =
     (let (wait, r) = reserve sz now0 now r
      in (if wait \<le> coalesceWaitNs then NoSleep else sleepNs wait (r_stop r), r))"

text \<open>The time slept when the channels of \<open>closed\<close> are closed and none is closed meanwhile.\<close>

fun slept :: "nat set \<Rightarrow> sleep \<Rightarrow> int64" where
  "slept closed NoSleep = 0"
| "slept closed (SleepFor n) = n"
| "slept closed (SleepUnless n ch) = (if ch \<in> closed then 0 else n)"

subsection \<open>rateConn and Meter\<close>

text \<open>
  \<open>rateConn\<close> around a connection: \<open>n\<close> is what the wrapped call reports; \<open>None\<close> is a nil limiter.
  \<open>times\<close> are the clock readings of the calls.
\<close>

definition rateConn_Read :: "int64 \<Rightarrow> int64 \<Rightarrow> int64 \<Rightarrow> Rate option \<Rightarrow> sleep \<times> Rate option" where
  "rateConn_Read n now0 now r =
     (case r of
        Some r \<Rightarrow> if 0 < n then (let (z, r) = Rate_Get n now0 now r in (z, Some r)) else (NoSleep, Some r)
      | None \<Rightarrow> (NoSleep, None))"

definition rateConn_Write ::
    "int64 \<Rightarrow> int64 \<Rightarrow> int64 \<Rightarrow> int64 \<Rightarrow> int64 \<Rightarrow> Rate option \<Rightarrow> sleep \<times> Rate option" where
  "rateConn_Write len n now0 now now' r =
     (case r of
        Some r \<Rightarrow>
          if 0 < len
          then (let (z, r) = Rate_Get len now0 now r
                in (z, Some (if n < len then ReturnBucket (len - n) now' r else r)))
          else (NoSleep, Some r)
      | None \<Rightarrow> (NoSleep, None))"

record Meter =
  m_lastSampleNs :: int64
  m_inAcc :: int64
  m_outAcc :: int64
  m_inBps :: int64
  m_outBps :: int64

definition NewMeter :: "int64 \<Rightarrow> Meter" where
  "NewMeter now = \<lparr>m_lastSampleNs = now, m_inAcc = 0, m_outAcc = 0, m_inBps = 0, m_outBps = 0\<rparr>"

definition Meter_roll :: "int64 \<Rightarrow> Meter \<Rightarrow> Meter" where
  "Meter_roll nowNs m =
     (let last = m_lastSampleNs m
      in if nowNs \<le> last \<or> wrap64 (nowNs - last) < sampleIntervalNs then m
         else
           (let delta = wrap64 (nowNs - last); m1 = m\<lparr>m_lastSampleNs := nowNs\<rparr>
            in if delta \<le> 0 then m1
               else m1\<lparr>m_inAcc := 0, m_outAcc := 0,
                       m_inBps := quot (wrap64 (m_inAcc m * sampleIntervalNs)) delta,
                       m_outBps := quot (wrap64 (m_outAcc m * sampleIntervalNs)) delta\<rparr>))"

definition Meter_Add :: "int64 \<Rightarrow> int64 \<Rightarrow> int64 \<Rightarrow> Meter \<Rightarrow> Meter" where
  "Meter_Add nin nout now m =
     Meter_roll now (m\<lparr>m_inAcc := wrap64 (m_inAcc m + nin), m_outAcc := wrap64 (m_outAcc m + nout)\<rparr>)"

definition Meter_Snapshot :: "int64 \<Rightarrow> Meter \<Rightarrow> (int64 \<times> int64 \<times> int64) \<times> Meter" where
  "Meter_Snapshot now m =
     (let m = Meter_roll now m in ((m_inBps m, m_outBps m, wrap64 (m_inBps m + m_outBps m)), m))"

definition Meter_Reset :: "int64 \<Rightarrow> Meter \<Rightarrow> Meter" where
  "Meter_Reset now m = NewMeter now"

subsection \<open>Arithmetic facts\<close>

lemma quot_max_e9 [simp]: "quot maxI64 1000000000 = 9223372036"
  by (simp add: quot_nonneg maxI64_def)

lemma wrap64_small: "minI64 \<le> x \<Longrightarrow> x \<le> maxI64 \<Longrightarrow> wrap64 x = x"
  by (simp add: wrap64_id in_i64_def)

lemma wrap64_le: "wrap64 x \<le> maxI64" "minI64 \<le> wrap64 x"
  using in_i64_wrap64 [of x] by (simp_all add: in_i64_def)

text \<open>The cost of a transfer is the exact ceiling whenever the numerator does not overflow.\<close>

lemma bytesToNsCeil_exact:
  assumes "0 < b" "0 < rt" "b * 1000000000 + rt \<le> maxI64"
  shows "bytesToNsCeil b rt = (b * 1000000000 + rt - 1) div rt"
proof -
  have b: "b \<le> 9223372036" using assms by (simp add: maxI64_def)
  have "wrap64 (b * 1000000000) = b * 1000000000"
    using assms by (intro wrap64_small) (simp_all add: minI64_def)
  moreover have "wrap64 (b * 1000000000 + rt) = b * 1000000000 + rt"
    using assms by (intro wrap64_small) (simp_all add: minI64_def)
  moreover have "wrap64 (b * 1000000000 + rt - 1) = b * 1000000000 + rt - 1"
    using assms by (intro wrap64_small) (simp_all add: minI64_def)
  moreover have "wrap64 ((b * 1000000000 + rt - 1) div rt) = (b * 1000000000 + rt - 1) div rt"
  proof (rule wrap64_small)
    have "(b * 1000000000 + rt - 1) div rt \<le> b * 1000000000 + rt - 1"
      using zdiv_mono2 [of "b * 1000000000 + rt - 1" 1 rt] assms by simp
    then show "(b * 1000000000 + rt - 1) div rt \<le> maxI64" using assms by simp
    have "0 \<le> (b * 1000000000 + rt - 1) div rt" using assms by (simp add: pos_imp_zdiv_nonneg_iff)
    then show "minI64 \<le> (b * 1000000000 + rt - 1) div rt" by (simp add: minI64_def)
  qed
  ultimately show ?thesis
    using assms b by (simp add: bytesToNsCeil_def Let_def quot_nonneg)
qed

lemma bytesToNsCeil_bounds:
  assumes "0 < b" "0 < rt" "b * 1000000000 + rt \<le> maxI64"
  shows "b * 1000000000 \<le> rt * bytesToNsCeil b rt" "rt * bytesToNsCeil b rt \<le> b * 1000000000 + rt - 1"
    "0 < bytesToNsCeil b rt"
proof -
  let ?x = "b * 1000000000 + rt - 1"
  have e: "bytesToNsCeil b rt = ?x div rt" by (rule bytesToNsCeil_exact [OF assms])
  have "rt * (?x div rt) + ?x mod rt = ?x" by simp
  moreover have "0 \<le> ?x mod rt" "?x mod rt < rt" using assms by simp_all
  ultimately have a: "b * 1000000000 \<le> rt * (?x div rt)" "rt * (?x div rt) \<le> ?x" by linarith+
  then show "b * 1000000000 \<le> rt * bytesToNsCeil b rt" "rt * bytesToNsCeil b rt \<le> ?x"
    by (simp_all add: e)
  show "0 < bytesToNsCeil b rt"
    using a(1) assms(1,2) mult_nonneg_nonpos [of rt "?x div rt"] unfolding e by linarith
qed


lemma clampAdd_ge: "0 < b \<Longrightarrow> clampAdd a b < maxI64 \<Longrightarrow> clampAdd a b = a + b"
  by (simp add: clampAdd_def split: if_splits)

lemma clampSub_ge: "a - max b 0 \<le> clampSub a b \<or> clampSub a b = minI64 \<and> a - b < minI64"
  by (auto simp: clampSub_def)

text \<open>
  The reported throughput is always a nonnegative 64-bit number that never exceeds the true one
  (bytes times \<open>1e9\<close> over the interval), and it is exact to the byte whenever the bytes of the sample
  times \<open>1e9\<close> fit into 64 bits.
\<close>

lemma bytesPerSec_spec:
  assumes "bytes \<le> maxI64" "dt \<le> maxI64"
  shows "0 \<le> bytesPerSec bytes dt \<and> bytesPerSec bytes dt \<le> maxI64 \<and>
    (0 \<le> bytes \<and> 0 < dt \<longrightarrow> bytesPerSec bytes dt \<le> bytes * 1000000000 div dt) \<and>
    (0 \<le> bytes \<and> 0 < dt \<and> bytes * 1000000000 \<le> maxI64 \<longrightarrow>
      bytesPerSec bytes dt = bytes * 1000000000 div dt)"
proof (cases "bytes \<le> 0 \<or> dt \<le> 0")
  case True
  then show ?thesis by (auto simp: bytesPerSec_def maxI64_def pos_imp_zdiv_nonneg_iff)
next
  case False
  then have pos: "0 < bytes" "0 < dt" by auto
  define q r where "q = bytes div dt" and "r = bytes mod dt"
  have qr: "bytes = q * dt + r" "0 \<le> q" "0 \<le> r" "r < dt"
    using pos by (simp_all add: q_def r_def pos_imp_zdiv_nonneg_iff)
  have exact: "bytes * 1000000000 div dt = q * 1000000000 + r * 1000000000 div dt"
  proof -
    have "bytes * 1000000000 = r * 1000000000 + dt * (q * 1000000000)" using qr(1) by (simp add: algebra_simps)
    then show ?thesis using pos by simp
  qed
  define add where "add = (if 9223372036 < r then maxI64 div dt else r * 1000000000 div dt)"
  have add: "0 \<le> add" "add \<le> r * 1000000000 div dt" "bytes * 1000000000 \<le> maxI64 \<longrightarrow> add = r * 1000000000 div dt"
  proof -
    show "0 \<le> add" using pos qr by (simp add: add_def maxI64_def pos_imp_zdiv_nonneg_iff)
    show "add \<le> r * 1000000000 div dt"
      using pos by (auto simp: add_def maxI64_def intro!: zdiv_mono1)
    have "r \<le> bytes" using pos by (simp add: r_def zmod_le_nonneg_dividend)
    then show "bytes * 1000000000 \<le> maxI64 \<longrightarrow> add = r * 1000000000 div dt"
      by (auto simp: add_def maxI64_def)
  qed
  have rw: "wrap64 (r * 1000000000) = r * 1000000000" if "r \<le> 9223372036"
    using that qr by (intro wrap64_small) (simp_all add: minI64_def maxI64_def)
  have qw: "wrap64 (q * 1000000000) = q * 1000000000" if "q \<le> 9223372036"
    using that qr by (intro wrap64_small) (simp_all add: minI64_def maxI64_def)
  have code: "bytesPerSec bytes dt =
      (if 9223372036 < q then maxI64
       else if 0 < r \<and> maxI64 - q * 1000000000 < add then maxI64
       else if 0 < r then q * 1000000000 + add else q * 1000000000)"
  proof -
    have qe: "quot bytes dt = q" and re: "rem bytes dt = r"
      using pos by (simp_all add: q_def r_def quot_nonneg rem_nonneg)
    have ae: "(if 9223372036 < r then quot maxI64 dt
               else quot (wrap64 (r * 1000000000)) dt) = add"
      using rw pos qr by (simp add: add_def quot_nonneg maxI64_def)
    have sw: "wrap64 (q * 1000000000 + add) = q * 1000000000 + add" if "\<not> maxI64 - q * 1000000000 < add"
      using that qr add(1) by (intro wrap64_small) (simp_all add: minI64_def)
    show ?thesis
      unfolding bytesPerSec_def Let_def qe re ae quot_max_e9
      using False qw sw qr(2) add(1) by (cases "9223372036 < q") simp_all
  qed
  show ?thesis
  proof (cases "9223372036 < q \<or> 0 < r \<and> maxI64 - q * 1000000000 < add")
    case True
    then have "bytesPerSec bytes dt = maxI64" by (auto simp: code)
    moreover have "maxI64 < q * 1000000000 + r * 1000000000 div dt"
      using True add(1,2) qr pos by (auto simp: maxI64_def add_pos_nonneg)
    moreover have "q * 1000000000 + r * 1000000000 div dt \<le> bytes * 1000000000"
      unfolding exact [symmetric] using zdiv_mono2 [of "bytes * 1000000000" 1 dt] pos by simp
    ultimately show ?thesis using exact by (auto simp: maxI64_def)
  next
    case False
    then have "bytesPerSec bytes dt = (if 0 < r then q * 1000000000 + add else q * 1000000000)"
      by (auto simp: code)
    moreover have "r = 0 \<Longrightarrow> add = 0" by (simp add: add_def)
    ultimately have v: "bytesPerSec bytes dt = q * 1000000000 + add" using qr(3) by auto
    show ?thesis
      unfolding v exact using False add qr by (auto simp: maxI64_def not_less)
  qed
qed

text \<open>Above that range the estimate can be far too low: one terabyte in 2000 seconds.\<close>

lemma bytesPerSec_underestimates:
  "bytesPerSec 1000000000000 2000000000000 = 4611686"
  "1000000000000 * 1000000000 div 2000000000000 = (500000000 :: int)"
  by (simp_all add: bytesPerSec_def Let_def quot_def rem_def wrap64_def maxI64_def)

text \<open>And the cost of a transfer near the 64-bit limit wraps around, so that it is not charged.\<close>

lemma bytesToNsCeil_overflow: "bytesToNsCeil 9223372036 1000000000 < 0"
  by (simp add: bytesToNsCeil_def Let_def quot_def wrap64_def maxI64_def)

subsection \<open>The rate bound\<close>

text \<open>The events of one limiter, with their clock readings.\<close>

datatype rate_ev = EvGet int64 int64 int64 | EvReturn int64 int64

fun rate_step :: "rate_ev \<Rightarrow> Rate \<Rightarrow> Rate" where
  "rate_step (EvGet n now0 now) r = snd (Rate_Get n now0 now r)"
| "rate_step (EvReturn n now) r = ReturnBucket n now r"

text \<open>An event whose clock readings and size are in range for a limiter of \<open>rt\<close> bytes per second.\<close>

fun ev_ok :: "int64 \<Rightarrow> rate_ev \<Rightarrow> bool" where
  "ev_ok rt (EvGet n now0 now) \<longleftrightarrow>
     0 < n \<and> n * 1000000000 + rt \<le> maxI64 \<and> 0 \<le> now0 \<and> now0 \<le> now \<and> now \<le> maxI64"
| "ev_ok rt (EvReturn n now) \<longleftrightarrow> 0 < n \<and> n * 1000000000 + rt \<le> maxI64 \<and> 0 \<le> now \<and> now \<le> maxI64"

fun ev_bytes :: "rate_ev \<Rightarrow> int" where
  "ev_bytes (EvGet n now0 now) = n"
| "ev_bytes (EvReturn n now) = - n"

fun is_return :: "rate_ev \<Rightarrow> bool" where
  "is_return (EvReturn n now) \<longleftrightarrow> True"
| "is_return (EvGet n now0 now) \<longleftrightarrow> False"

definition limited :: "int64 \<Rightarrow> Rate \<Rightarrow> bool" where
  "limited rt r \<longleftrightarrow> 0 < rt \<and> r_rate r = rt \<and> r_enabled r \<and> r_burstNs r = burstWindowNs \<and>
     minI64 \<le> r_tat r \<and> r_tat r \<le> maxI64"

lemma updateRateWithNow_frame [simp]:
  "r_rate (updateRateWithNow now r) = r_rate r" "r_tat (updateRateWithNow now r) = r_tat r"
  "r_enabled (updateRateWithNow now r) = r_enabled r" "r_burstNs (updateRateWithNow now r) = r_burstNs r"
  "r_stop (updateRateWithNow now r) = r_stop r" "r_stopped (updateRateWithNow now r) = r_stopped r"
  by (simp_all add: updateRateWithNow_def Let_def)

lemma burst_wrap: "0 \<le> now \<Longrightarrow> now \<le> maxI64 \<Longrightarrow> wrap64 (now - burstWindowNs) = now - burstWindowNs"
  by (rule wrap64_small) (simp_all add: minI64_def maxI64_def burstWindowNs_def)

lemma reserve_limited:
  assumes "limited rt r" "0 < n" "0 \<le> now" "now \<le> maxI64"
  defines "nxt \<equiv> clampAdd (max (r_tat r) (now - burstWindowNs)) (bytesToNsCeil n rt)"
  shows "fst (reserve n now0 now r) = max 0 (wrap64 (nxt - now))" "r_tat (snd (reserve n now0 now r)) = nxt"
    "r_stop (snd (reserve n now0 now r)) = r_stop r"
    "r_rate (snd (reserve n now0 now r)) = rt" "r_enabled (snd (reserve n now0 now r))"
    "r_burstNs (snd (reserve n now0 now r)) = burstWindowNs"
  using assms(1-4) unfolding nxt_def
  by (simp_all add: limited_def reserve_def Let_def burst_wrap max_def not_less)

lemma snd_Rate_Get: "snd (Rate_Get n now0 now r) = snd (reserve n now0 now r)"
  by (simp add: Rate_Get_def Let_def split: prod.splits)

lemma clampAdd_range:
  assumes "minI64 \<le> a" "a \<le> maxI64"
  shows "minI64 \<le> clampAdd a b" "clampAdd a b \<le> maxI64" "a \<le> clampAdd a b"
  using assms by (auto simp: clampAdd_def minI64_def maxI64_def)

lemma clampSub_range:
  assumes "minI64 \<le> a" "a \<le> maxI64"
  shows "minI64 \<le> clampSub a b" "clampSub a b \<le> maxI64"
  using assms by (auto simp: clampSub_def minI64_def maxI64_def)

lemma step_limited:
  assumes "limited rt r" "ev_ok rt e"
  shows "limited rt (rate_step e r)"
proof (cases e)
  case (EvGet n now0 now)
  have b: "minI64 \<le> max (r_tat r) (now - burstWindowNs)" "max (r_tat r) (now - burstWindowNs) \<le> maxI64"
    using assms EvGet by (auto simp: limited_def burstWindowNs_def max_def)
  show ?thesis
    using reserve_limited [OF assms(1), of n now now0] clampAdd_range [OF b] assms EvGet
    by (simp add: limited_def snd_Rate_Get)
next
  case (EvReturn n now)
  then show ?thesis
    using assms clampSub_range [of "r_tat r"]
    by (auto simp: limited_def ReturnBucket_def Let_def wrap64_le)
qed

lemma step_stop [simp]: "r_stop (rate_step e r) = r_stop r"
  by (cases e) (simp_all add: snd_Rate_Get reserve_def ReturnBucket_def Let_def)

lemma step_bound:
  assumes "limited rt r" "ev_ok rt e" "r_tat (rate_step e r) < maxI64"
  shows "ev_bytes e * 1000000000 - (if is_return e then rt else 0) \<le> rt * (r_tat (rate_step e r) - r_tat r)"
proof (cases e)
  case (EvGet n now0 now)
  have ok: "0 < rt" "0 < n" "n * 1000000000 + rt \<le> maxI64" "0 \<le> now" "now \<le> maxI64"
    using assms(1,2) EvGet by (auto simp: limited_def)
  note c = bytesToNsCeil_bounds [OF ok(2,1,3)]
  have t: "r_tat (rate_step e r) = max (r_tat r) (now - burstWindowNs) + bytesToNsCeil n rt"
    using reserve_limited(2) [OF assms(1) ok(2,4,5), of now0] clampAdd_ge [OF c(3)] assms(3) EvGet
    by (simp add: snd_Rate_Get)
  have "rt * bytesToNsCeil n rt \<le> rt * (r_tat (rate_step e r) - r_tat r)"
    using ok(1) by (intro mult_left_mono) (simp_all add: t)
  then show ?thesis using c(1) EvGet by simp
next
  case (EvReturn n now)
  have ok: "0 < rt" "0 < n" "n * 1000000000 + rt \<le> maxI64"
    using assms(1,2) EvReturn by (auto simp: limited_def)
  note c = bytesToNsCeil_bounds [OF ok(2,1,3)]
  have "clampSub (r_tat r) (bytesToNsCeil n rt) \<le> r_tat (rate_step e r)"
    using assms(1) EvReturn ok by (auto simp: ReturnBucket_def Let_def limited_def)
  then have "- bytesToNsCeil n rt \<le> r_tat (rate_step e r) - r_tat r"
    using clampSub_ge [of "r_tat r" "bytesToNsCeil n rt"] c(3) by auto
  then have "rt * - bytesToNsCeil n rt \<le> rt * (r_tat (rate_step e r) - r_tat r)"
    using ok(1) by (intro mult_left_mono) simp_all
  then show ?thesis using c(2) EvReturn by simp
qed

text \<open>No event of the run saturates the arrival time (292 years after the limiter was made).\<close>

fun unsaturated :: "Rate \<Rightarrow> rate_ev list \<Rightarrow> bool" where
  "unsaturated r [] \<longleftrightarrow> True"
| "unsaturated r (e # es) \<longleftrightarrow> r_tat (rate_step e r) < maxI64 \<and> unsaturated (rate_step e r) es"

definition net_bytes :: "rate_ev list \<Rightarrow> int" where
  "net_bytes es = sum_list (map ev_bytes es)"

definition returns :: "rate_ev list \<Rightarrow> int" where
  "returns es = int (length (filter is_return es))"

lemma run_bound:
  assumes "limited rt r" "\<forall>e \<in> set es. ev_ok rt e" "unsaturated r es"
  shows "limited rt (fold rate_step es r) \<and>
    net_bytes es * 1000000000 - rt * returns es \<le> rt * (r_tat (fold rate_step es r) - r_tat r)"
  using assms
proof (induction es arbitrary: r)
  case Nil
  then show ?case by (simp add: net_bytes_def returns_def)
next
  case (Cons e es)
  have l: "limited rt (rate_step e r)" using step_limited Cons.prems by simp
  have "net_bytes es * 1000000000 - rt * returns es \<le>
      rt * (r_tat (fold rate_step es (rate_step e r)) - r_tat (rate_step e r))"
    and lim: "limited rt (fold rate_step es (rate_step e r))"
    using Cons.IH [OF l] Cons.prems by simp_all
  moreover have "ev_bytes e * 1000000000 - (if is_return e then rt else 0) \<le>
      rt * (r_tat (rate_step e r) - r_tat r)"
    using step_bound [of rt r e] Cons.prems by simp
  ultimately show ?case
    by (auto simp: net_bytes_def returns_def algebra_simps)
qed

lemma unsaturated_append:
  "unsaturated r (es @ fs) \<longleftrightarrow> unsaturated r es \<and> unsaturated (fold rate_step es r) fs"
  by (induction es arbitrary: r) simp_all

lemma fold_stop [simp]: "r_stop (fold rate_step es r) = r_stop r"
  by (induction es arbitrary: r) simp_all

text \<open>The first request of a run counts from its arrival, minus the burst.\<close>

lemma run_bound_first:
  assumes "limited rt r" "\<forall>e \<in> set es. ev_ok rt e" "unsaturated r es" "es \<noteq> []" "hd es = EvGet n a t"
  shows "net_bytes es * 1000000000 \<le>
    rt * (r_tat (fold rate_step es r) - t + burstWindowNs + returns es)"
proof -
  define r0 where "r0 = r\<lparr>r_tat := max (r_tat r) (t - burstWindowNs)\<rparr>"
  obtain fs where es: "es = EvGet n a t # fs" using assms(4,5) by (cases es) simp_all
  have ok: "0 < n" "0 \<le> t" "t \<le> maxI64" using assms(2) es by auto
  have lim: "limited rt r0"
    using assms(1) ok by (auto simp: r0_def limited_def max_def minI64_def burstWindowNs_def)
  have tat: "r_tat (rate_step (EvGet n a t) r0) = r_tat (rate_step (EvGet n a t) r)"
    using reserve_limited(2) [OF lim ok, of a] reserve_limited(2) [OF assms(1) ok, of a]
    by (simp add: snd_Rate_Get r0_def)
  have eq: "rate_step (EvGet n a t) r0 = rate_step (EvGet n a t) r"
    using assms(1) ok tat
    by (simp add: snd_Rate_Get reserve_def Let_def updateRateWithNow_def r0_def limited_def burst_wrap max_def)
  have "unsaturated r0 es" using assms(3) eq by (simp add: es)
  from run_bound [OF lim assms(2) this]
  have "net_bytes es * 1000000000 - rt * returns es \<le> rt * (r_tat (fold rate_step es r0) - r_tat r0)" by simp
  also have "fold rate_step es r0 = fold rate_step es r" using eq by (simp add: es)
  also have "rt * (r_tat (fold rate_step es r) - r_tat r0) \<le> rt * (r_tat (fold rate_step es r) - (t - burstWindowNs))"
    using assms(1) by (intro mult_left_mono) (simp_all add: limited_def r0_def)
  finally show ?thesis by (simp add: algebra_simps)
qed

lemma slept_ge:
  assumes "limited rt r" "0 < n" "0 \<le> now" "now \<le> maxI64"
    "\<forall>ch. r_stop r = Some ch \<longrightarrow> ch \<notin> closed"
  shows "r_tat (snd (Rate_Get n now0 now r)) \<le> now + slept closed (fst (Rate_Get n now0 now r)) + coalesceWaitNs"
proof -
  obtain wait r' where r: "reserve n now0 now r = (wait, r')" by fastforce
  note l = reserve_limited [OF assms(1-4), of now0]
  have "r_stop r' = r_stop r" "limited rt r"
    using l(3) r assms(1) by simp_all
  have "now - burstWindowNs \<le> r_tat r'" "r_tat r' \<le> maxI64"
    using l(2) r assms(1,3,4) clampAdd_range [of "max (r_tat r) (now - burstWindowNs)" "bytesToNsCeil n rt"]
    by (auto simp: limited_def max_def minI64_def burstWindowNs_def split: if_splits)
  then have "wrap64 (r_tat r' - now) = r_tat r' - now"
    using assms(3,4) by (intro wrap64_small) (simp_all add: minI64_def burstWindowNs_def)
  then have w: "wait = max 0 (r_tat r' - now)" using l(1,2) r by simp
  show ?thesis
    using w assms(5) \<open>r_stop r' = r_stop r\<close>
    by (auto simp: Rate_Get_def r sleepNs_def coalesceWaitNs_def max_def split: option.splits if_splits)
qed

text \<open>
  C7: A limiter of \<open>rt\<close> bytes per second really limits.  In any sequence of transfers and refunds, from
  the arrival of any request to the moment the sleep of a later one ends, at most \<open>rt\<close> bytes per second
  of elapsed time go through, plus one burst window of two seconds, the 200 microseconds below which
  waits are skipped, and one nanosecond of rounding per refund.  The bound holds whatever the order and the
  clock readings of the requests are.
\<close>

theorem rate_bound:
  assumes "limited rt r" "\<forall>e \<in> set es. ev_ok rt e" "unsaturated r es"
    and "es \<noteq> []" "hd es = EvGet n0 a0 t0" "last es = EvGet n a t"
    and "\<forall>ch. r_stop r = Some ch \<longrightarrow> ch \<notin> closed"
  defines "release \<equiv> t + slept closed (fst (Rate_Get n a t (fold rate_step (butlast es) r)))"
  shows "net_bytes es * 1000000000 \<le>
    rt * (release - t0 + burstWindowNs + coalesceWaitNs + returns es)"
proof -
  define r1 where "r1 = fold rate_step (butlast es) r"
  have es: "es = butlast es @ [EvGet n a t]" using assms(4,6) append_butlast_last_id by metis
  have ok: "0 < n" "0 \<le> t" "t \<le> maxI64" using assms(2) es by (metis ev_ok.simps(1) in_set_conv_decomp order_trans)+
  have "limited rt r1"
    using run_bound [OF assms(1), of "butlast es"] assms(2,3) es
    by (metis in_set_butlastD unsaturated_append r1_def)
  moreover have "\<forall>ch. r_stop r1 = Some ch \<longrightarrow> ch \<notin> closed" using assms(7) by (simp add: r1_def)
  ultimately have "r_tat (snd (Rate_Get n a t r1)) \<le> t + slept closed (fst (Rate_Get n a t r1)) + coalesceWaitNs"
    using slept_ge ok by blast
  moreover have "fold rate_step es r = snd (Rate_Get n a t r1)"
    by (subst es) (simp add: r1_def)
  ultimately have "r_tat (fold rate_step es r) \<le> release + coalesceWaitNs"
    by (simp add: release_def r1_def)
  moreover have "0 < rt" using assms(1) by (simp add: limited_def)
  ultimately have "rt * (r_tat (fold rate_step es r) - t0 + burstWindowNs + returns es) \<le>
      rt * (release - t0 + burstWindowNs + coalesceWaitNs + returns es)"
    by (intro mult_left_mono) simp_all
  then show ?thesis using run_bound_first [OF assms(1-5)] by linarith
qed

theorem rate_bound_witness:
  "net_bytes [EvGet 5000 0 0, EvReturn 40 5, EvGet 3000 10 10] * 1000000000 \<le>
    1000 * (10 + slept {} (fst (Rate_Get 3000 10 10 (fold rate_step [EvGet 5000 0 0, EvReturn 40 5] (NewRate 1000 0 0 0))))
      - 0 + burstWindowNs + coalesceWaitNs + returns [EvGet 5000 0 0, EvReturn 40 5, EvGet 3000 10 10])"
proof -
  let ?es = "[EvGet 5000 0 0, EvReturn 40 5, EvGet 3000 10 10]"
  have "limited 1000 (NewRate 1000 0 0 0)" "\<forall>e \<in> set ?es. ev_ok 1000 e" by code_simp+
  moreover have "unsaturated (NewRate 1000 0 0 0) ?es" by code_simp
  ultimately show ?thesis
    using rate_bound [of 1000 "NewRate 1000 0 0 0" ?es 5000 0 0 3000 10 10 "{}"]
    by simp
qed

subsection \<open>Short writes\<close>

lemma cost_split:
  assumes "0 \<le> n" "n < len" "0 < rt" "len * 1000000000 + rt \<le> maxI64"
  shows "bytesToNsCeil n rt - 1 \<le> bytesToNsCeil len rt - bytesToNsCeil (len - n) rt"
    "bytesToNsCeil len rt - bytesToNsCeil (len - n) rt \<le> bytesToNsCeil n rt"
proof -
  have "bytesToNsCeil n rt - 1 \<le> bytesToNsCeil len rt - bytesToNsCeil (len - n) rt \<and>
    bytesToNsCeil len rt - bytesToNsCeil (len - n) rt \<le> bytesToNsCeil n rt"
  proof (cases "n = 0")
    case False
    let ?c = "\<lambda>b. bytesToNsCeil b rt"
    have b: "b * 1000000000 \<le> rt * ?c b" "rt * ?c b < b * 1000000000 + rt" if "0 < b" "b \<le> len" for b
      using bytesToNsCeil_bounds [OF that(1) assms(3)] that assms(4) by (auto simp: algebra_simps)
    have n: "0 < n" "n \<le> len" "0 < len - n" "len - n \<le> len" "0 < len" using False assms by simp_all
    have "rt * (?c n - 2) < rt * (?c len - ?c (len - n))"
      "rt * (?c len - ?c (len - n)) < rt * (?c n + 1)"
      using b(1) [OF n(1,2)] b(2) [OF n(1,2)] b(1) [OF n(3,4)] b(2) [OF n(3,4)] b [of len] n(5)
      by (simp_all add: algebra_simps)
    then show ?thesis using assms(3) by (simp add: mult_less_cancel_left_pos)
  qed (simp add: bytesToNsCeil_def)
  then show "bytesToNsCeil n rt - 1 \<le> bytesToNsCeil len rt - bytesToNsCeil (len - n) rt"
    "bytesToNsCeil len rt - bytesToNsCeil (len - n) rt \<le> bytesToNsCeil n rt" by simp_all
qed

text \<open>
  C37: A write through a rate-limited connection that the socket accepts only in part is charged for the
  bytes it accepted: after the refund the limiter's arrival time is that of a transfer of exactly those
  bytes, at most one nanosecond less, and never below the full burst credit.
\<close>

theorem short_write_charge:
  assumes "limited rt r" "0 \<le> n" "n < len" "len * 1000000000 + rt \<le> maxI64"
    and "0 \<le> now0" "now0 \<le> now" "now \<le> now'" "now' \<le> maxI64"
    and "max (r_tat r) (now - burstWindowNs) + bytesToNsCeil len rt < maxI64"
  defines "base \<equiv> max (r_tat r) (now - burstWindowNs)"
  shows "\<exists>z r'. rateConn_Write len n now0 now now' (Some r) = (z, Some r') \<and>
    max (base + bytesToNsCeil n rt - 1) (now' - burstWindowNs) \<le> r_tat r' \<and>
    r_tat r' \<le> max (base + bytesToNsCeil n rt) (now' - burstWindowNs)"
proof -
  have pos: "0 < rt" "0 < len" "0 < len - n" "0 \<le> now" "now \<le> maxI64" "0 \<le> now'"
    using assms(1-8) by (auto simp: limited_def)
  have "(len - n) * 1000000000 + rt \<le> maxI64" using assms(2,4) by (simp add: algebra_simps)
  note c = bytesToNsCeil_bounds(3) [OF pos(2,1) assms(4)] bytesToNsCeil_bounds(3) [OF pos(3,1) this]
  obtain z r1 where g: "Rate_Get len now0 now r = (z, r1)" by fastforce
  note l = reserve_limited [OF assms(1) pos(2,4,5), of now0]
  have t1: "r_tat r1 = base + bytesToNsCeil len rt"
    using l(2) snd_Rate_Get [of len now0 now r] g assms(9) c(1) by (auto simp: base_def clampAdd_def)
  have r1: "r_rate r1 = rt" "r_enabled r1" "r_burstNs r1 = burstWindowNs"
    using l(4-6) snd_Rate_Get [of len now0 now r] g by simp_all
  have "minI64 \<le> base" using assms(1) by (simp add: base_def limited_def le_max_iff_disj)
  moreover have "minI64 < now' - burstWindowNs" using pos(6) by (simp add: minI64_def burstWindowNs_def)
  moreover note s = cost_split [OF assms(2,3) pos(1) assms(4)]
  ultimately have "r_tat (ReturnBucket (len - n) now' r1) =
      max (base + (bytesToNsCeil len rt - bytesToNsCeil (len - n) rt)) (now' - burstWindowNs)"
    using r1 t1 pos assms(8) c by (auto simp: ReturnBucket_def Let_def burst_wrap clampSub_def max_def)
  then show ?thesis
    using g pos(2) assms(3) s by (auto simp: rateConn_Write_def Let_def max_def)
qed

theorem short_write_charge_witness:
  "\<exists>z r'. rateConn_Write 1000 400 5 5 9 (Some (NewRate 1000 0 0 0)) = (z, Some r') \<and> r_tat r' \<le> 400000000 - 2000000000 + 5"
proof -
  have "limited 1000 (NewRate 1000 0 0 0)" by code_simp
  moreover have "max (r_tat (NewRate 1000 0 0 0)) (5 - burstWindowNs) = 5 - 2000000000"
    "bytesToNsCeil 1000 1000 = 1000000000" "bytesToNsCeil 400 1000 = 400000000" by code_simp+
  ultimately show ?thesis
    using short_write_charge [of 1000 "NewRate 1000 0 0 0" 400 1000 5 5 9]
    by (force simp: maxI64_def burstWindowNs_def)
qed

end
