(* ===== verification/Rate_Hier.thy ===== *)
theory Rate_Hier
  imports Rate_Limit
begin

text \<open>
  The hierarchical limiter of \<open>src/lib/rate/limiter.go\<close>, which charges several limiters for one transfer
  and sleeps for the longest of their waits.
\<close>

subsection \<open>Definitions\<close>

text \<open>
  Limiters are shared by pointer, so the state is a store of rates (a reference is a number) and the
  set of closed stop channels.
\<close>

record rate_world =
  w_rates :: "nat \<Rightarrow> Rate"
  w_closed :: "nat set"

record HierarchicalLimiter =
  hl_first :: "nat option"
  hl_second :: "nat option"
  hl_third :: "nat option"
  hl_extra :: "nat list"
  hl_count :: nat
  hl_stopCh :: "nat option"

text \<open>
  The values of the interface type \<open>Limiter\<close> that the constructors return: a nil interface, a
  \<open>*Rate\<close> (which may be a nil pointer) or a \<open>*HierarchicalLimiter\<close>.
\<close>

datatype Limiter = NilLimiter | RateLimiter "nat option" | HierLimiter HierarchicalLimiter

definition enabledLimiter :: "rate_world \<Rightarrow> nat option \<Rightarrow> nat option" where
  "enabledLimiter w cur =
     (case cur of
        None \<Rightarrow> None
      | Some p \<Rightarrow> if r_rate (w_rates w p) \<le> 0 then None else Some p)"

definition builder_new :: HierarchicalLimiter where
  "builder_new =
     \<lparr>hl_first = None, hl_second = None, hl_third = None, hl_extra = [], hl_count = 0, hl_stopCh = None\<rparr>"

definition builder_add :: "rate_world \<Rightarrow> nat option \<Rightarrow> HierarchicalLimiter \<Rightarrow> HierarchicalLimiter" where
  "builder_add w cur b =
     (case enabledLimiter w cur of
        None \<Rightarrow> b
      | Some p \<Rightarrow>
          (let b = (if hl_stopCh b = None then b\<lparr>hl_stopCh := r_stop (w_rates w p)\<rparr> else b);
               b = (if hl_count b = 0 then b\<lparr>hl_first := Some p\<rparr>
                    else if hl_count b = 1 then b\<lparr>hl_second := Some p\<rparr>
                    else if hl_count b = 2 then b\<lparr>hl_third := Some p\<rparr>
                    else b\<lparr>hl_extra := hl_extra b @ [p]\<rparr>)
           in b\<lparr>hl_count := hl_count b + 1\<rparr>))"

definition builder_build :: "HierarchicalLimiter \<Rightarrow> Limiter" where
  "builder_build b =
     (if hl_count b = 0 then NilLimiter
      else if hl_count b = 1 then RateLimiter (hl_first b)
      else HierLimiter b)"

definition NewHierarchicalLimiter2 :: "rate_world \<Rightarrow> nat option \<Rightarrow> nat option \<Rightarrow> Limiter" where
  "NewHierarchicalLimiter2 w a b = builder_build (builder_add w b (builder_add w a builder_new))"

definition NewHierarchicalLimiter3 :: "rate_world \<Rightarrow> nat option \<Rightarrow> nat option \<Rightarrow> nat option \<Rightarrow> Limiter" where
  "NewHierarchicalLimiter3 w a b c =
     builder_build (builder_add w c (builder_add w b (builder_add w a builder_new)))"

fun NewHierarchicalLimiter :: "rate_world \<Rightarrow> nat option list \<Rightarrow> Limiter" where
  "NewHierarchicalLimiter w [] = NilLimiter"
| "NewHierarchicalLimiter w [a] = RateLimiter (enabledLimiter w a)"
| "NewHierarchicalLimiter w [a, b] = NewHierarchicalLimiter2 w a b"
| "NewHierarchicalLimiter w [a, b, c] = NewHierarchicalLimiter3 w a b c"
| "NewHierarchicalLimiter w ls = builder_build (fold (builder_add w) ls builder_new)"

text \<open>The members of a limiter in the order \<open>Get\<close> and \<open>ReturnBucket\<close> visit them.\<close>

definition hl_members :: "HierarchicalLimiter \<Rightarrow> nat list" where
  "hl_members l =
     (case hl_first l of None \<Rightarrow> [] | Some p \<Rightarrow> [p]) @
     (case hl_second l of None \<Rightarrow> [] | Some p \<Rightarrow> [p]) @
     (case hl_third l of None \<Rightarrow> [] | Some p \<Rightarrow> [p]) @ hl_extra l"

definition w_upd :: "nat \<Rightarrow> (Rate \<Rightarrow> Rate) \<Rightarrow> rate_world \<Rightarrow> rate_world" where
  "w_upd p f w = w\<lparr>w_rates := (w_rates w)(p := f (w_rates w p))\<rparr>"

text \<open>\<open>tm p\<close> are the two clock readings of the reservation at limiter \<open>p\<close>.\<close>

fun reserve_all :: "int64 \<Rightarrow> (nat \<Rightarrow> int64 \<times> int64) \<Rightarrow> nat list \<Rightarrow> int64 \<Rightarrow> rate_world \<Rightarrow> int64 \<times> rate_world" where
  "reserve_all n tm [] maxWait w = (maxWait, w)"
| "reserve_all n tm (p # ps) maxWait w =
     (let (wait, r) = reserve n (fst (tm p)) (snd (tm p)) (w_rates w p)
      in reserve_all n tm ps (if maxWait < wait then wait else maxWait) (w_upd p (\<lambda>_. r) w))"

definition Hier_Get ::
    "int64 \<Rightarrow> (nat \<Rightarrow> int64 \<times> int64) \<Rightarrow> HierarchicalLimiter \<Rightarrow> rate_world \<Rightarrow> sleep \<times> rate_world" where
  "Hier_Get n tm l w =
     (if n \<le> 0 then (NoSleep, w)
      else
        (let (maxWait, w) = reserve_all n tm (hl_members l) 0 w
         in (if coalesceWaitNs < maxWait then sleepNs maxWait (hl_stopCh l) else NoSleep, w)))"

definition Hier_ReturnBucket ::
    "int64 \<Rightarrow> (nat \<Rightarrow> int64) \<Rightarrow> HierarchicalLimiter \<Rightarrow> rate_world \<Rightarrow> rate_world" where
  "Hier_ReturnBucket n tm l w =
     (if n \<le> 0 then w
      else fold (\<lambda>p. w_upd p (ReturnBucket n (tm p))) (hl_members l) w)"

definition Limiter_Get :: "int64 \<Rightarrow> (nat \<Rightarrow> int64 \<times> int64) \<Rightarrow> Limiter \<Rightarrow> rate_world \<Rightarrow> sleep \<times> rate_world" where
  "Limiter_Get n tm l w =
     (case l of
        NilLimiter \<Rightarrow> (NoSleep, w)
      | RateLimiter None \<Rightarrow> (NoSleep, w)
      | RateLimiter (Some p) \<Rightarrow>
          (let (z, r) = Rate_Get n (fst (tm p)) (snd (tm p)) (w_rates w p) in (z, w_upd p (\<lambda>_. r) w))
      | HierLimiter h \<Rightarrow> Hier_Get n tm h w)"

text \<open>\<open>ResetLimit\<close> on a shared limiter; \<open>ch\<close> is the fresh channel.\<close>

definition w_ResetLimit :: "nat \<Rightarrow> int64 \<Rightarrow> int64 \<Rightarrow> int64 \<Rightarrow> nat \<Rightarrow> rate_world \<Rightarrow> rate_world" where
  "w_ResetLimit p limit now1 now2 ch w =
     (let (c, r) = ResetLimit limit now1 now2 ch (w_rates w p)
      in w\<lparr>w_rates := (w_rates w)(p := r),
           w_closed := (case c of None \<Rightarrow> w_closed w | Some c \<Rightarrow> insert c (w_closed w))\<rparr>)"

subsection \<open>Every member is charged\<close>

lemma w_rates_upd [simp]: "w_rates (w_upd p f w) = (w_rates w)(p := f (w_rates w p))"
  "w_closed (w_upd p f w) = w_closed w"
  by (simp_all add: w_upd_def)

definition own_reserve :: "int64 \<Rightarrow> (nat \<Rightarrow> int64 \<times> int64) \<Rightarrow> rate_world \<Rightarrow> nat \<Rightarrow> int64 \<times> Rate" where
  "own_reserve n tm w p = reserve n (fst (tm p)) (snd (tm p)) (w_rates w p)"

lemma reserve_all_conj:
  assumes "distinct ps" "reserve_all n tm ps m w = (m', w')"
  shows "m' = Max (insert m (set (map (\<lambda>p. fst (own_reserve n tm w p)) ps))) \<and>
    (\<forall>q. w_rates w' q = (if q \<in> set ps then snd (own_reserve n tm w q) else w_rates w q)) \<and>
    w_closed w' = w_closed w"
  using assms
proof (induction ps arbitrary: m w)
  case Nil
  then show ?case by simp
next
  case (Cons p ps)
  obtain wait r where o: "own_reserve n tm w p = (wait, r)" by fastforce
  let ?w = "w_upd p (\<lambda>_. r) w"
  have same: "own_reserve n tm ?w q = own_reserve n tm w q" if "q \<in> set ps" for q
    using that Cons.prems(1) by (auto simp: own_reserve_def)
  have rest: "reserve_all n tm ps (max m wait) ?w = (m', w')"
    using Cons.prems(2) o by (auto simp: own_reserve_def max_def split: if_splits)
  have "distinct ps" using Cons.prems(1) by simp
  note IH = Cons.IH [OF this rest]
  have "m' = Max (insert (max m wait) ((\<lambda>q. fst (own_reserve n tm w q)) ` set ps))"
    using IH same by simp
  also have "\<dots> = Max (insert m (insert wait ((\<lambda>q. fst (own_reserve n tm w q)) ` set ps)))"
    by (cases "set ps = {}") (simp_all add: max.assoc)
  finally show ?case using IH o same Cons.prems(1) by auto
qed

lemmas reserve_all_spec =
  reserve_all_conj [THEN conjunct1] reserve_all_conj [THEN conjunct2, THEN conjunct1, rule_format]
  reserve_all_conj [THEN conjunct2, THEN conjunct2]

text \<open>
  C8: A transfer through a hierarchical limiter charges every one of its (distinct) members exactly as that
  member's own \<open>Get\<close> would, leaves all other limiters alone, and, while its stop channel is open,
  sleeps at least as long as each member alone would have made it sleep: the hierarchy is never laxer
  than its strictest member.
\<close>

theorem hier_strictest:
  assumes "distinct (hl_members l)" "0 < n" "Hier_Get n tm l w = (z, w')"
    and "\<forall>ch. hl_stopCh l = Some ch \<longrightarrow> ch \<notin> w_closed w"
  shows "(\<forall>p \<in> set (hl_members l).
      w_rates w' p = snd (Rate_Get n (fst (tm p)) (snd (tm p)) (w_rates w p)) \<and>
      slept (w_closed w) (fst (Rate_Get n (fst (tm p)) (snd (tm p)) (w_rates w p))) \<le> slept (w_closed w) z) \<and>
    (\<forall>q. q \<notin> set (hl_members l) \<longrightarrow> w_rates w' q = w_rates w q)"
proof -
  obtain M where all: "reserve_all n tm (hl_members l) 0 w = (M, w')"
    and z: "z = (if coalesceWaitNs < M then sleepNs M (hl_stopCh l) else NoSleep)"
    using assms(2,3) by (auto simp: Hier_Get_def split: prod.splits)
  note sp = reserve_all_spec [OF assms(1) all]
  have le: "fst (own_reserve n tm w p) \<le> M" if "p \<in> set (hl_members l)" for p
    using that by (auto simp: sp(1) intro: Max_ge)
  have "0 \<le> M" by (simp add: sp(1))
  then have zM: "slept (w_closed w) z = (if coalesceWaitNs < M then M else 0)"
    using assms(4) z by (auto simp: sleepNs_def coalesceWaitNs_def split: option.splits)
  have own: "slept (w_closed w) (fst (Rate_Get n (fst (tm p)) (snd (tm p)) (w_rates w p))) \<le>
      (if coalesceWaitNs < fst (own_reserve n tm w p) then fst (own_reserve n tm w p) else 0)" for p
    by (auto simp: Rate_Get_def own_reserve_def sleepNs_def coalesceWaitNs_def split: prod.splits option.splits)
  have "slept (w_closed w) (fst (Rate_Get n (fst (tm p)) (snd (tm p)) (w_rates w p))) \<le> slept (w_closed w) z"
    if "p \<in> set (hl_members l)" for p
    using own [of p] le [OF that] \<open>0 \<le> M\<close> by (auto simp: zM split: if_splits)
  then show ?thesis
    using sp(2) by (auto simp: snd_Rate_Get own_reserve_def)
qed

definition two_rates :: rate_world where
  "two_rates = \<lparr>w_rates = (\<lambda>p. NewRate (if p = 0 then 1000 else 2000) 0 0 p), w_closed = {}\<rparr>"

theorem hier_strictest_witness:
  "\<exists>l. NewHierarchicalLimiter2 two_rates (Some 0) (Some 1) = HierLimiter l \<and>
    slept {} (fst (Rate_Get 5000 0 0 (w_rates two_rates 0))) \<le> slept {} (fst (Hier_Get 5000 (\<lambda>_. (0, 0)) l two_rates))"
proof -
  let ?l = "\<lparr>hl_first = Some 0, hl_second = Some 1, hl_third = None, hl_extra = [], hl_count = 2, hl_stopCh = Some 0\<rparr>"
  have l: "NewHierarchicalLimiter2 two_rates (Some 0) (Some 1) = HierLimiter ?l"
    by (simp add: NewHierarchicalLimiter2_def builder_add_def enabledLimiter_def builder_build_def builder_new_def
        two_rates_def NewRate_def)
  obtain z w' where g: "Hier_Get 5000 (\<lambda>_. (0, 0)) ?l two_rates = (z, w')" by fastforce
  have "slept {} (fst (Rate_Get 5000 0 0 (w_rates two_rates 0))) \<le> slept {} z"
    using hier_strictest [OF _ _ g] by (simp add: hl_members_def two_rates_def)
  then show ?thesis using l g by (intro exI [of _ ?l]) simp
qed

text \<open>
  C36: Resetting the limit of the limiter whose stop channel a hierarchy captured disables that hierarchy:
  from then on, whatever the sizes and limits, none of its transfers sleeps longer than two milliseconds.
\<close>

theorem reset_disables_hierarchy:
  assumes "r_rate (w_rates w p) > 0" "r_rate (w_rates w q) > 0"
    and "r_stop (w_rates w p) = Some c" "\<not> r_stopped (w_rates w p)"
    and "w_closed (w_ResetLimit p limit now1 now2 ch w) \<subseteq> w_closed w'"
  shows "slept (w_closed w') (fst (Limiter_Get n tm (NewHierarchicalLimiter2 w (Some p) (Some q)) w')) \<le> shortWaitNs"
proof -
  have c: "c \<in> w_closed w'"
    using assms(3-5) by (auto simp: w_ResetLimit_def ResetLimit_def Rate_Stop_def Let_def split: prod.splits)
  obtain l where l: "NewHierarchicalLimiter2 w (Some p) (Some q) = HierLimiter l" "hl_stopCh l = Some c"
    using assms(1-3)
    by (simp add: NewHierarchicalLimiter2_def builder_add_def enabledLimiter_def builder_build_def builder_new_def Let_def)
  have "slept (w_closed w') (fst (Hier_Get n tm l w')) \<le> shortWaitNs"
    using c l(2) by (auto simp: Hier_Get_def sleepNs_def shortWaitNs_def split: prod.splits)
  then show ?thesis by (simp add: l(1) Limiter_Get_def)
qed

theorem reset_disables_hierarchy_witness:
  "let w' = w_ResetLimit 0 500 1 1 7 two_rates
   in slept (w_closed w') (fst (Limiter_Get 1000000 (\<lambda>_. (1, 1))
        (NewHierarchicalLimiter2 two_rates (Some 0) (Some 1)) w')) \<le> 2000000"
  using reset_disables_hierarchy [of two_rates 0 1 0 500 1 1 7 "w_ResetLimit 0 500 1 1 7 two_rates" 1000000 "\<lambda>_. (1, 1)"]
  by (simp add: two_rates_def NewRate_def shortWaitNs_def)

end
