(* ===== verification/LRU.thy ===== *)
theory LRU
  imports Prelude "HOL-Library.Multiset"
begin

text \<open>
  The least-recently-used cache of \<open>src/lib/cache/lru.go\<close>.

  \<open>container/list\<close> is the list of its elements, front first; an element is a number, and the entry
  it points to is kept in a store, so that the map and the list share elements as in the code.  Every
  operation returns the calls of \<open>OnEvicted\<close> it makes.
\<close>

subsection \<open>Definitions\<close>

record ('k, 'v) Cache =
  MaxEntries :: int64
  OnEvicted :: bool
  ll :: "nat list"
  cache :: "'k \<rightharpoonup> nat"
  elems :: "nat \<Rightarrow> ('k \<times> 'v) option"
  fresh :: nat

definition lru_New :: "int64 \<Rightarrow> bool \<Rightarrow> ('k, 'v) Cache" where
  "lru_New maxEntries cb =
     \<lparr>MaxEntries = maxEntries, OnEvicted = cb, ll = [], cache = Map.empty, elems = (\<lambda>_. None), fresh = 0\<rparr>"

definition MoveToFront :: "nat \<Rightarrow> ('k, 'v) Cache \<Rightarrow> ('k, 'v) Cache" where
  "MoveToFront e c = c\<lparr>ll := e # removeAll e (ll c)\<rparr>"

definition removeElementLocked :: "nat \<Rightarrow> ('k, 'v) Cache \<Rightarrow> ('k \<times> 'v) list \<times> ('k, 'v) Cache" where
  "removeElementLocked e c =
     (case elems c e of
        None \<Rightarrow> ([], c)
      | Some (k, v) \<Rightarrow>
          (if OnEvicted c then [(k, v)] else [],
           c\<lparr>ll := removeAll e (ll c), cache := (cache c)(k := None), elems := (elems c)(e := None)\<rparr>))"

definition removeOldestLocked :: "('k, 'v) Cache \<Rightarrow> ('k \<times> 'v) list \<times> ('k, 'v) Cache" where
  "removeOldestLocked c = (if ll c = [] then ([], c) else removeElementLocked (last (ll c)) c)"

definition lru_Add :: "'k \<Rightarrow> 'v \<Rightarrow> ('k, 'v) Cache \<Rightarrow> ('k \<times> 'v) list \<times> ('k, 'v) Cache" where
  "lru_Add key val c =
     (case cache c key of
        Some ee \<Rightarrow>
          ([], (MoveToFront ee c)\<lparr>elems := (elems c)(ee := map_option (\<lambda>(k, _). (k, val)) (elems c ee))\<rparr>)
      | None \<Rightarrow>
          (let ele = fresh c;
               c = c\<lparr>ll := ele # ll c, elems := (elems c)(ele := Some (key, val)),
                     cache := (cache c)(key := Some ele), fresh := ele + 1\<rparr>
           in if MaxEntries c \<noteq> 0 \<and> MaxEntries c < int (length (ll c))
              then removeOldestLocked c else ([], c)))"

definition lru_Get :: "'k \<Rightarrow> ('k, 'v) Cache \<Rightarrow> 'v option \<times> ('k, 'v) Cache" where
  "lru_Get key c =
     (case cache c key of
        Some ele \<Rightarrow> (map_option snd (elems c ele), MoveToFront ele c)
      | None \<Rightarrow> (None, c))"

definition lru_Remove :: "'k \<Rightarrow> ('k, 'v) Cache \<Rightarrow> ('k \<times> 'v) list \<times> ('k, 'v) Cache" where
  "lru_Remove key c =
     (case cache c key of Some ele \<Rightarrow> removeElementLocked ele c | None \<Rightarrow> ([], c))"

definition RemoveOldest :: "('k, 'v) Cache \<Rightarrow> ('k \<times> 'v) list \<times> ('k, 'v) Cache" where
  "RemoveOldest c = removeOldestLocked c"

definition lru_Len :: "('k, 'v) Cache \<Rightarrow> nat" where
  "lru_Len c = length (ll c)"

text \<open>\<open>Clear\<close> calls \<open>OnEvicted\<close> for every entry, in the order of a map iteration; here that of the list.\<close>

definition lru_Clear :: "('k, 'v) Cache \<Rightarrow> ('k \<times> 'v) list \<times> ('k, 'v) Cache" where
  "lru_Clear c =
     (if OnEvicted c then map (\<lambda>e. the (elems c e)) (ll c) else [],
      c\<lparr>ll := [], cache := Map.empty\<rparr>)"

subsection \<open>Invariant and abstraction\<close>

definition lru_ok :: "('k, 'v) Cache \<Rightarrow> bool" where
  "lru_ok c \<longleftrightarrow> distinct (ll c) \<and> (\<forall>e \<in> set (ll c). e < fresh c) \<and>
     (\<forall>e \<in> set (ll c). \<exists>k v. elems c e = Some (k, v) \<and> cache c k = Some e) \<and>
     (\<forall>k e. cache c k = Some e \<longrightarrow> e \<in> set (ll c) \<and> (\<exists>v. elems c e = Some (k, v)))"

text \<open>The entries, most recently used first.\<close>

definition entries :: "('k, 'v) Cache \<Rightarrow> ('k \<times> 'v) list" where
  "entries c = map (\<lambda>e. the (elems c e)) (ll c)"

definition others :: "'k \<Rightarrow> ('k \<times> 'v) list \<Rightarrow> ('k \<times> 'v) list" where
  "others k xs = filter (\<lambda>p. fst p \<noteq> k) xs"

lemma lru_ok_New [simp]: "lru_ok (lru_New n cb)" "entries (lru_New n cb) = []"
  by (simp_all add: lru_ok_def lru_New_def entries_def)

lemma OnEvicted_New [simp]: "OnEvicted (lru_New n cb) = cb"
  by (simp add: lru_New_def)

lemma lru_okE:
  assumes "lru_ok c" "e \<in> set (ll c)"
  obtains k v where "elems c e = Some (k, v)" "cache c k = Some e"
  using assms unfolding lru_ok_def by blast

lemma lru_ok_cacheE:
  assumes "lru_ok c" "cache c k = Some e"
  obtains v where "e \<in> set (ll c)" "elems c e = Some (k, v)"
  using assms unfolding lru_ok_def by blast

lemma elem_key:
  assumes "lru_ok c" "e \<in> set (ll c)"
  shows "fst (the (elems c e)) = k \<longleftrightarrow> cache c k = Some e"
proof -
  obtain k' v' where e: "elems c e = Some (k', v')" "cache c k' = Some e" using lru_okE [OF assms] .
  show ?thesis
  proof
    assume "cache c k = Some e"
    then obtain v where "elems c e = Some (k, v)" using lru_ok_cacheE [OF assms(1)] by metis
    then show "fst (the (elems c e)) = k" by simp
  qed (use e in auto)
qed

lemma entries_distinct:
  assumes "lru_ok c"
  shows "distinct (map fst (entries c))"
proof -
  have "inj_on (\<lambda>e. fst (the (elems c e))) (set (ll c))"
    using elem_key [OF assms] by (intro inj_onI) (metis option.inject)
  then show ?thesis
    using assms by (simp add: entries_def lru_ok_def comp_def distinct_map)
qed

lemma lru_lookup:
  assumes "lru_ok c"
  shows "map_of (entries c) k = (case cache c k of None \<Rightarrow> None | Some e \<Rightarrow> map_option snd (elems c e))"
proof (cases "cache c k")
  case None
  have "k \<notin> fst ` set (entries c)"
  proof
    assume "k \<in> fst ` set (entries c)"
    then obtain e where e: "e \<in> set (ll c)" "fst (the (elems c e)) = k" unfolding entries_def by auto
    from elem_key [OF assms e(1), of k] e(2) None show False by simp
  qed
  with None show ?thesis by (simp add: map_of_eq_None_iff)
next
  case (Some e)
  then obtain v where v: "e \<in> set (ll c)" "elems c e = Some (k, v)"
    using lru_ok_cacheE [OF assms] by metis
  then have "(k, v) \<in> set (entries c)" by (force simp: entries_def)
  then show ?thesis using Some v entries_distinct [OF assms] by simp
qed

lemma entries_remove:
  assumes "lru_ok c" "cache c k = Some e"
  shows "map (\<lambda>e. the (elems c e)) (removeAll e (ll c)) = others k (entries c)"
proof -
  have "e' \<noteq> e \<longleftrightarrow> fst (the (elems c e')) \<noteq> k" if "e' \<in> set (ll c)" for e'
    using elem_key [OF assms(1) that] assms(2) by auto
  then have "removeAll e (ll c) = filter (\<lambda>e'. fst (the (elems c e')) \<noteq> k) (ll c)"
    unfolding removeAll_filter_not_eq by (intro filter_cong) auto
  then show ?thesis by (simp add: others_def entries_def filter_map comp_def)
qed

subsection \<open>The operations on the entries\<close>

lemma MoveToFront_ok:
  assumes "lru_ok c" "cache c k = Some e" "elems c e = Some (k, v)"
  shows "lru_ok (MoveToFront e c)" "entries (MoveToFront e c) = (k, v) # others k (entries c)"
proof -
  have e: "e \<in> set (ll c)" using assms by (metis lru_ok_cacheE)
  then have s: "set (ll (MoveToFront e c)) = set (ll c)" by (auto simp: MoveToFront_def)
  show "lru_ok (MoveToFront e c)"
    using assms(1) s by (simp add: lru_ok_def) (simp add: MoveToFront_def distinct_removeAll)
  show "entries (MoveToFront e c) = (k, v) # others k (entries c)"
    using entries_remove [OF assms(1,2)] assms(3) by (simp add: MoveToFront_def entries_def)
qed

lemma removeElement_ok:
  assumes "lru_ok c" "cache c k = Some e" "elems c e = Some (k, v)" "removeElementLocked e c = (ev, c')"
  shows "lru_ok c'" "entries c' = others k (entries c)" "MaxEntries c' = MaxEntries c"
    "ev = (if OnEvicted c then [(k, v)] else [])" "OnEvicted c' = OnEvicted c"
proof -
  have c': "c' = c\<lparr>ll := removeAll e (ll c), cache := (cache c)(k := None), elems := (elems c)(e := None)\<rparr>"
    and ev: "ev = (if OnEvicted c then [(k, v)] else [])"
    using assms(3,4) by (simp_all add: removeElementLocked_def)
  have keep: "elems c' e' = elems c e'" if "e' \<noteq> e" for e' using that by (simp add: c')
  have "entries c' = map (\<lambda>e. the (elems c e)) (removeAll e (ll c))"
    by (simp add: entries_def c')
  then show "entries c' = others k (entries c)" using entries_remove [OF assms(1,2)] by simp
  have inj: "k' = k" if "cache c k' = Some e" for k'
    using that lru_ok_cacheE [OF assms(1) that] assms(3) by auto
  show "lru_ok c'"
    unfolding lru_ok_def
  proof (intro conjI ballI allI impI)
    show "distinct (ll c')" using assms(1) by (simp add: c' lru_ok_def distinct_removeAll)
    show "e' < fresh c'" if "e' \<in> set (ll c')" for e' using that assms(1) by (simp add: c' lru_ok_def)
    show "\<exists>k v. elems c' e' = Some (k, v) \<and> cache c' k = Some e'" if "e' \<in> set (ll c')" for e'
    proof -
      have e': "e' \<in> set (ll c)" "e' \<noteq> e" using that by (simp_all add: c')
      then obtain k' v' where "elems c e' = Some (k', v')" "cache c k' = Some e'" using lru_okE [OF assms(1)] by metis
      moreover have "k' \<noteq> k" using calculation(2) assms(2) e'(2) by auto
      ultimately show ?thesis using e'(2) by (auto simp: c')
    qed
    fix k' e' assume a: "cache c' k' = Some e'"
    then have k': "k' \<noteq> k" "cache c k' = Some e'" by (auto simp: c' split: if_splits)
    then have "e' \<noteq> e" using inj by auto
    with lru_ok_cacheE [OF assms(1) k'(2)] show "e' \<in> set (ll c')" "\<exists>v. elems c' e' = Some (k', v)"
      by (auto simp: c')
  qed
  show "MaxEntries c' = MaxEntries c" "OnEvicted c' = OnEvicted c" by (simp_all add: c')
  show "ev = (if OnEvicted c then [(k, v)] else [])" by (rule ev)
qed

lemma lru_Get_ok:
  assumes "lru_ok c" "lru_Get k c = (r, c')"
  shows "lru_ok c'" "r = map_of (entries c) k" "MaxEntries c' = MaxEntries c" "OnEvicted c' = OnEvicted c"
    "entries c' = (case r of None \<Rightarrow> entries c | Some v \<Rightarrow> (k, v) # others k (entries c))"
proof -
  have "lru_ok c' \<and> r = map_of (entries c) k \<and> MaxEntries c' = MaxEntries c \<and> OnEvicted c' = OnEvicted c \<and>
    entries c' = (case r of None \<Rightarrow> entries c | Some v \<Rightarrow> (k, v) # others k (entries c))"
  proof (cases "cache c k")
    case None
    then show ?thesis using assms lru_lookup [OF assms(1)] by (simp add: lru_Get_def)
  next
    case (Some e)
    then obtain v where v: "elems c e = Some (k, v)" using lru_ok_cacheE [OF assms(1)] by metis
    then have "r = Some v" "c' = MoveToFront e c" using Some assms(2) by (simp_all add: lru_Get_def)
    then show ?thesis
      using MoveToFront_ok [OF assms(1) Some v] lru_lookup [OF assms(1)] Some v by (simp add: MoveToFront_def)
  qed
  then show "lru_ok c'" "r = map_of (entries c) k" "MaxEntries c' = MaxEntries c" "OnEvicted c' = OnEvicted c"
    "entries c' = (case r of None \<Rightarrow> entries c | Some v \<Rightarrow> (k, v) # others k (entries c))" by auto
qed

lemma last_others:
  assumes "distinct (map fst xs)" "xs \<noteq> []"
  shows "others (fst (last xs)) xs = butlast xs"
proof -
  obtain ys x where xs: "xs = ys @ [x]" using assms(2) by (metis append_butlast_last_id)
  then have "others (fst x) ys = ys"
    using assms(1) unfolding others_def by (intro filter_True) (auto simp: image_iff)
  then show ?thesis by (simp add: xs others_def)
qed

lemma removeOldest_ok:
  assumes "lru_ok c" "removeOldestLocked c = (ev, c')"
  shows "lru_ok c'" "entries c' = butlast (entries c)" "MaxEntries c' = MaxEntries c" "OnEvicted c' = OnEvicted c"
    "ev = (if OnEvicted c \<and> entries c \<noteq> [] then [last (entries c)] else [])"
proof -
  have "lru_ok c' \<and> entries c' = butlast (entries c) \<and> MaxEntries c' = MaxEntries c \<and> OnEvicted c' = OnEvicted c \<and>
    ev = (if OnEvicted c \<and> entries c \<noteq> [] then [last (entries c)] else [])"
  proof (cases "ll c = []")
    case True
    then show ?thesis using assms by (simp add: removeOldestLocked_def entries_def)
  next
    case False
    let ?e = "last (ll c)"
    obtain k v where e: "elems c ?e = Some (k, v)" "cache c k = Some ?e"
      using lru_okE [OF assms(1), of ?e] False by auto
    have l: "last (entries c) = (k, v)" using False e by (simp add: entries_def last_map)
    have "removeElementLocked ?e c = (ev, c')" using assms(2) False by (simp add: removeOldestLocked_def)
    note r = removeElement_ok [OF assms(1) e(2,1) this]
    show ?thesis
      using r l last_others [OF entries_distinct [OF assms(1)]] False by (simp add: entries_def)
  qed
  then show "lru_ok c'" "entries c' = butlast (entries c)" "MaxEntries c' = MaxEntries c" "OnEvicted c' = OnEvicted c"
    "ev = (if OnEvicted c \<and> entries c \<noteq> [] then [last (entries c)] else [])" by auto
qed

text \<open>The two branches of \<open>Add\<close> before the eviction.\<close>

lemma lru_Add_hit:
  assumes "lru_ok c" "cache c k = Some e" "lru_Add k v c = (ev, c')"
  shows "lru_ok c' \<and> entries c' = (k, v) # others k (entries c) \<and> ev = [] \<and>
    MaxEntries c' = MaxEntries c \<and> OnEvicted c' = OnEvicted c"
proof -
  obtain u where u: "e \<in> set (ll c)" "elems c e = Some (k, u)" using lru_ok_cacheE [OF assms(1,2)] .
  note m = MoveToFront_ok [OF assms(1,2) u(2)]
  have c': "c' = (MoveToFront e c)\<lparr>elems := (elems c)(e := Some (k, v))\<rparr>" "ev = []"
    using assms(2,3) u(2) by (simp_all add: lru_Add_def)
  have f: "cache c' = cache c" "fresh c' = fresh c" "set (ll c') = set (ll c)" "distinct (ll c')"
    using u(1) assms(1) by (auto simp: c' MoveToFront_def lru_ok_def distinct_removeAll)
  have "lru_ok c'"
    unfolding lru_ok_def f(1-3)
  proof (intro conjI ballI allI impI)
    show "e' < fresh c" if "e' \<in> set (ll c)" for e' using that assms(1) by (simp add: lru_ok_def)
    show "\<exists>k v. elems c' e' = Some (k, v) \<and> cache c k = Some e'" if "e' \<in> set (ll c)" for e'
    proof (cases "e' = e")
      case True
      then show ?thesis using assms(2) by (simp add: c')
    next
      case False
      then show ?thesis using lru_okE [OF assms(1) that] by (simp add: c') metis
    qed
    fix k' e' assume "cache c k' = Some e'"
    then obtain w where w: "e' \<in> set (ll c)" "elems c e' = Some (k', w)" using lru_ok_cacheE [OF assms(1)] by metis
    show "e' \<in> set (ll c)" by (rule w)
    show "\<exists>v. elems c' e' = Some (k', v)" using w u(2) by (cases "e' = e") (simp_all add: c')
  qed (rule f)
  moreover have "entries c' = (k, v) # map (\<lambda>e'. the (elems c e')) (removeAll e (ll c))"
    by (simp add: entries_def c' MoveToFront_def)
  ultimately show ?thesis
    using entries_remove [OF assms(1,2)] c' by (simp add: MoveToFront_def)
qed

lemma lru_push_ok:
  fixes v :: 'v
  assumes "lru_ok c" "cache c k = None"
  defines "c1 \<equiv> c\<lparr>ll := fresh c # ll c, elems := (elems c)(fresh c := Some (k, v)),
                  cache := (cache c)(k := Some (fresh c)), fresh := fresh c + 1\<rparr>"
  shows "lru_ok c1" "entries c1 = (k, v) # entries c"
proof -
  have nf: "fresh c \<notin> set (ll c)" using assms(1) by (auto simp: lru_ok_def)
  show "entries c1 = (k, v) # entries c"
    using nf by (auto simp: entries_def c1_def)
  show "lru_ok c1"
    unfolding lru_ok_def
  proof (intro conjI ballI allI impI)
    show "distinct (ll c1)" using assms(1) nf by (simp add: lru_ok_def c1_def)
    show "e' < fresh c1" if "e' \<in> set (ll c1)" for e'
      using that assms(1) by (auto simp: lru_ok_def c1_def less_SucI)
    show "\<exists>k v. elems c1 e' = Some (k, v) \<and> cache c1 k = Some e'" if "e' \<in> set (ll c1)" for e'
    proof (cases "e' = fresh c")
      case True
      then show ?thesis by (simp add: c1_def)
    next
      case False
      then have "e' \<in> set (ll c)" using that by (simp add: c1_def)
      then obtain k' v' where kv: "elems c e' = Some (k', v')" "cache c k' = Some e'"
        using lru_okE [OF assms(1)] by metis
      moreover have "k' \<noteq> k" using kv(2) assms(2) by auto
      ultimately show ?thesis using False by (intro exI [of _ k'] exI [of _ v']) (simp add: c1_def)
    qed
    fix k' e' assume a: "cache c1 k' = Some e'"
    have "e' \<in> set (ll c1) \<and> (\<exists>v. elems c1 e' = Some (k', v))"
    proof (cases "k' = k")
      case True
      then show ?thesis using a by (simp add: c1_def)
    next
      case False
      then have "cache c k' = Some e'" using a by (simp add: c1_def)
      then obtain w where w: "e' \<in> set (ll c)" "elems c e' = Some (k', w)"
        using lru_ok_cacheE [OF assms(1)] by metis
      moreover have "e' \<noteq> fresh c" using w(1) nf by auto
      ultimately show ?thesis by (simp add: c1_def)
    qed
    then show "e' \<in> set (ll c1)" "\<exists>v. elems c1 e' = Some (k', v)" by simp_all
  qed
qed

text \<open>What \<open>Add\<close> does to the entries.\<close>

definition add_entry :: "int64 \<Rightarrow> 'k \<Rightarrow> 'v \<Rightarrow> ('k \<times> 'v) list \<Rightarrow> ('k \<times> 'v) list" where
  "add_entry m k v xs =
     (if k \<in> fst ` set xs then (k, v) # others k xs
      else if m \<noteq> 0 \<and> m < int (length xs) + 1 then butlast ((k, v) # xs)
      else (k, v) # xs)"

lemma lru_Add_ok:
  assumes "lru_ok c" "lru_Add k v c = (ev, c')"
  shows "lru_ok c' \<and> entries c' = add_entry (MaxEntries c) k v (entries c) \<and>
    MaxEntries c' = MaxEntries c \<and> OnEvicted c' = OnEvicted c"
proof (cases "cache c k")
  case None
  let ?c = "c\<lparr>ll := fresh c # ll c, elems := (elems c)(fresh c := Some (k, v)),
              cache := (cache c)(k := Some (fresh c)), fresh := fresh c + 1\<rparr>"
  note p = lru_push_ok [OF assms(1) None, where v = v]
  have miss: "k \<notin> fst ` set (entries c)"
    using lru_lookup [OF assms(1), of k] None by (simp add: map_of_eq_None_iff)
  have len: "length (entries c) = length (ll c)" by (simp add: entries_def)
  show ?thesis
  proof (cases "MaxEntries c \<noteq> 0 \<and> MaxEntries c < int (length (ll c)) + 1")
    case True
    then have "removeOldestLocked ?c = (ev, c')" using assms(2) None by (simp add: lru_Add_def Let_def)
    from removeOldest_ok [OF p(1) this] p(2) show ?thesis
      using True miss len by (simp add: add_entry_def)
  next
    case False
    then have "c' = ?c" using assms(2) None by (auto simp: lru_Add_def Let_def)
    then show ?thesis using False p miss len by (auto simp: add_entry_def)
  qed
next
  case (Some e)
  have "k \<in> fst ` set (entries c)"
    using lru_lookup [OF assms(1), of k] Some lru_ok_cacheE [OF assms(1) Some]
    by (metis map_of_eq_None_iff option.case(2) option.distinct(1) option.map(2))
  then show ?thesis using lru_Add_hit [OF assms(1) Some assms(2)] by (simp add: add_entry_def)
qed

lemma lru_Add_keeps:
  assumes "lru_ok c"
  shows "lru_ok (snd (lru_Add k v c))" "OnEvicted (snd (lru_Add k v c)) = OnEvicted c"
  using lru_Add_ok [OF assms, of k v "fst (lru_Add k v c)" "snd (lru_Add k v c)"] by simp_all

subsection \<open>Least recently used\<close>

datatype ('k, 'v) cache_op = OpAdd 'k 'v | OpGet 'k

fun cache_run :: "('k, 'v) cache_op list \<Rightarrow> ('k, 'v) Cache \<Rightarrow> ('k, 'v) Cache" where
  "cache_run [] c = c"
| "cache_run (OpAdd k v # ops) c = cache_run ops (snd (lru_Add k v c))"
| "cache_run (OpGet k # ops) c = cache_run ops (snd (lru_Get k c))"

text \<open>
  The specification has no cache: it remembers every use of a key (latest first) and the last value
  added for it.  A key is held when it is among the first \<open>n\<close> different keys of that history.
\<close>

fun nub :: "'k list \<Rightarrow> 'k list" where
  "nub [] = []"
| "nub (k # ks) = k # filter (\<lambda>x. x \<noteq> k) (nub ks)"

definition held :: "nat \<Rightarrow> 'k list \<Rightarrow> 'k list" where
  "held n uses = take n (nub uses)"

fun spec_run :: "nat \<Rightarrow> ('k, 'v) cache_op list \<Rightarrow> 'k list \<times> ('k \<rightharpoonup> 'v) \<Rightarrow> 'k list \<times> ('k \<rightharpoonup> 'v)" where
  "spec_run n [] s = s"
| "spec_run n (OpAdd k v # ops) (uses, val) = spec_run n ops (k # uses, val(k \<mapsto> v))"
| "spec_run n (OpGet k # ops) (uses, val) =
     spec_run n ops (if k \<in> set (held n uses) then k # uses else uses, val)"

lemma distinct_nub: "distinct (nub ks)"
  by (induction ks) simp_all

lemma take_filter_hit:
  assumes "distinct L" "k \<in> set (take n L)"
  shows "filter (\<lambda>x. x \<noteq> k) (take n L) = take (n - 1) (filter (\<lambda>x. x \<noteq> k) L)"
  using assms
proof (induction L arbitrary: n)
  case (Cons a L)
  obtain m where n: "n = Suc m" using Cons.prems(2) by (cases n) simp_all
  show ?case
  proof (cases "a = k")
    case True
    then have "k \<notin> set L" using Cons.prems(1) by simp
    then have "filter (\<lambda>x. x \<noteq> k) L = L" "filter (\<lambda>x. x \<noteq> k) (take m L) = take m L"
      by (auto intro!: filter_True dest: in_set_takeD)
    then show ?thesis using True n by simp
  next
    case False
    then have k: "k \<in> set (take m L)" using Cons.prems n by simp
    then obtain m' where "m = Suc m'" by (cases m) simp_all
    then show ?thesis using Cons.IH [OF _ k] Cons.prems(1) False n by simp
  qed
qed simp

lemma take_filter_miss:
  assumes "k \<notin> set (take n L)"
  shows "take n (filter (\<lambda>x. x \<noteq> k) L) = take n L"
  using assms
proof (induction L arbitrary: n)
  case (Cons a L)
  then show ?case by (cases n) auto
qed simp

definition cache_rel :: "nat \<Rightarrow> ('k, 'v) Cache \<Rightarrow> 'k list \<times> ('k \<rightharpoonup> 'v) \<Rightarrow> bool" where
  "cache_rel n c s \<longleftrightarrow> lru_ok c \<and> MaxEntries c = int n \<and> set (fst s) \<subseteq> dom (snd s) \<and>
     entries c = map (\<lambda>k. (k, the (snd s k))) (held n (fst s))"

lemma others_map:
  "others k (map (\<lambda>k. (k, f k)) ks) = map (\<lambda>k. (k, f k)) (filter (\<lambda>x. x \<noteq> k) ks)"
  by (simp add: others_def filter_map comp_def)

lemma map_skip: "map (\<lambda>x. (x, the ((val(k \<mapsto> v)) x))) (filter (\<lambda>x. x \<noteq> k) ks) =
    map (\<lambda>x. (x, the (val x))) (filter (\<lambda>x. x \<noteq> k) ks)"
  by (induction ks) auto

lemma nub_subset: "set (nub ks) = set ks"
  by (induction ks) auto

lemma held_hit:
  assumes "0 < n" "k \<in> set (held n uses)"
  shows "held n (k # uses) = k # filter (\<lambda>x. x \<noteq> k) (held n uses)"
  using assms take_filter_hit [OF distinct_nub, of k n uses] by (cases n) (simp_all add: held_def)

lemma held_miss:
  assumes "0 < n" "k \<notin> set (held n uses)"
  shows "held n (k # uses) = k # take (n - 1) (held n uses)"
proof -
  obtain m where n: "n = Suc m" using assms(1) by (cases n) simp_all
  have "k \<notin> set (take m (nub uses))"
    using assms(2) set_take_subset_set_take [of m n "nub uses"] by (auto simp: held_def n)
  then show ?thesis by (simp add: held_def n take_filter_miss min_def)
qed

lemma rel_Add:
  assumes "0 < n" "cache_rel n c (uses, val)"
  shows "cache_rel n (snd (lru_Add k v c)) (k # uses, val(k \<mapsto> v))"
proof -
  obtain ev c' where a: "lru_Add k v c = (ev, c')" by fastforce
  have ok: "lru_ok c" "MaxEntries c = int n" "set uses \<subseteq> dom val"
    and e: "entries c = map (\<lambda>k. (k, the (val k))) (held n uses)"
    using assms(2) by (simp_all add: cache_rel_def)
  have keys: "fst ` set (entries c) = set (held n uses)" by (simp add: e image_comp comp_def)
  have len: "length (entries c) = length (held n uses)" "length (held n uses) \<le> n" by (simp_all add: e held_def)
  have "add_entry (int n) k v (entries c) = map (\<lambda>x. (x, the ((val(k \<mapsto> v)) x))) (held n (k # uses))"
  proof (cases "k \<in> set (held n uses)")
    case True
    then show ?thesis
      using keys by (simp add: add_entry_def held_hit [OF assms(1) True] e others_map map_skip)
  next
    case False
    let ?f = "\<lambda>x. (x, the (val x))"
    have "map (\<lambda>x. (x, the ((val(k \<mapsto> v)) x))) (take (n - 1) (held n uses)) = map ?f (take (n - 1) (held n uses))"
      using False by (intro map_cong) (auto dest: in_set_takeD)
    moreover have "add_entry (int n) k v (entries c) = (k, v) # map ?f (take (n - 1) (held n uses))"
    proof (cases "length (held n uses) = n")
      case True
      then have "held n uses \<noteq> []" using assms(1) by auto
      then show ?thesis
        using True False keys assms(1) by (cases n) (simp_all add: add_entry_def e butlast_conv_take take_map)
    next
      case short: False
      then have "length (held n uses) \<le> n - 1" using len(2) by simp
      then show ?thesis using short False keys len assms(1) by (simp add: add_entry_def e)
    qed
    ultimately show ?thesis by (simp add: held_miss [OF assms(1) False])
  qed
  then show ?thesis
    using lru_Add_ok [OF ok(1) a] a ok by (auto simp: cache_rel_def)
qed

lemma rel_Get:
  assumes "0 < n" "cache_rel n c (uses, val)"
  shows "cache_rel n (snd (lru_Get k c)) (if k \<in> set (held n uses) then k # uses else uses, val)"
    "fst (lru_Get k c) = (if k \<in> set (held n uses) then val k else None)"
proof -
  obtain r c' where g: "lru_Get k c = (r, c')" by fastforce
  have ok: "lru_ok c" "MaxEntries c = int n" "set uses \<subseteq> dom val"
    and e: "entries c = map (\<lambda>k. (k, the (val k))) (held n uses)"
    using assms(2) by (simp_all add: cache_rel_def)
  note G = lru_Get_ok [OF ok(1) g]
  have "set (held n uses) \<subseteq> set uses" by (auto simp: held_def nub_subset dest: in_set_takeD)
  then have r: "r = (if k \<in> set (held n uses) then val k else None)"
    using ok(3) by (auto simp: G(2) e map_of_map_restrict restrict_map_def dom_def)
  then show "fst (lru_Get k c) = (if k \<in> set (held n uses) then val k else None)" using g by simp
  show "cache_rel n (snd (lru_Get k c)) (if k \<in> set (held n uses) then k # uses else uses, val)"
  proof (cases "k \<in> set (held n uses)")
    case True
    then obtain v where v: "val k = Some v" "k \<in> set uses"
      using ok(3) \<open>set (held n uses) \<subseteq> set uses\<close> by blast
    then have "r = Some v" using r True by simp
    then have "entries c' = (k, v) # map (\<lambda>k. (k, the (val k))) (filter (\<lambda>x. x \<noteq> k) (held n uses))"
      using G(5) by (simp add: e others_map)
    then show ?thesis
      using True v G(1,3) g ok held_hit [OF assms(1) True] by (auto simp: cache_rel_def)
  next
    case False
    then have "r = None" using r by simp
    then show ?thesis using False G(1,3,5) g ok e by (simp add: cache_rel_def)
  qed
qed

lemma rel_run:
  assumes "0 < n" "cache_rel n c s"
  shows "cache_rel n (cache_run ops c) (spec_run n ops s)"
  using assms(2)
proof (induction ops arbitrary: c s)
  case (Cons op ops)
  obtain uses val where s: "s = (uses, val)" by fastforce
  have rel: "cache_rel n c (uses, val)" using Cons.prems s by simp
  show ?case
    using Cons.IH [OF rel_Add [OF assms(1) rel]] Cons.IH [OF rel_Get(1) [OF assms(1) rel]] s
    by (cases op) simp_all
qed simp

text \<open>
  C10: Refinement of the least-recently-used policy.  After any sequence of additions and lookups a cache of
  \<open>n\<close> entries answers a lookup with the value last added for the key exactly when the key is among the
  \<open>n\<close> most recently used different keys, and holds no other entry: the linked list, the map and the
  eviction implement the policy, and the size bound is never exceeded.
\<close>

theorem lru_correct:
  assumes "0 < n" "spec_run n ops ([], Map.empty) = (uses, val)"
  shows "fst (lru_Get k (cache_run ops (lru_New (int n) cb))) = (if k \<in> set (held n uses) then val k else None) \<and>
    lru_Len (cache_run ops (lru_New (int n) cb)) = length (held n uses) \<and> length (held n uses) \<le> n"
proof -
  let ?c = "cache_run ops (lru_New (int n) cb)"
  have "cache_rel n (lru_New (int n) cb) ([], Map.empty)"
    by (simp add: cache_rel_def held_def) (simp add: lru_New_def)
  from rel_run [OF assms(1) this, of ops] have rel: "cache_rel n ?c (uses, val)" by (simp add: assms(2))
  then have "lru_Len ?c = length (held n uses)"
    by (simp add: cache_rel_def lru_Len_def entries_def) (metis length_map)
  then show ?thesis using rel_Get(2) [OF assms(1) rel] by (simp add: held_def)
qed

theorem lru_correct_witness:
  "fst (lru_Get (1 :: nat) (cache_run [OpAdd 1 ''a'', OpAdd 2 ''b'', OpGet 1, OpAdd 3 ''c''] (lru_New (int 2) True))) = Some ''a''"
proof -
  have "spec_run 2 [OpAdd 1 ''a'', OpAdd 2 ''b'', OpGet 1, OpAdd 3 ''c''] ([], Map.empty) =
      ([3, 1, 2, 1 :: nat], Map.empty(1 \<mapsto> ''a'', 2 \<mapsto> ''b'', 3 \<mapsto> ''c''))"
    by (simp add: held_def)
  from lru_correct [OF _ this, of 1 True] show ?thesis by (simp add: held_def numeral_2_eq_2)
qed

subsection \<open>Evictions are reported exactly\<close>

lemma mset_others:
  assumes "distinct (map fst xs)" "map_of xs k = Some v"
  shows "mset xs = add_mset (k, v) (mset (others k xs))"
  using assms
proof (induction xs)
  case (Cons x xs)
  show ?case
  proof (cases "fst x = k")
    case True
    then have "others k xs = xs"
      using Cons.prems(1) unfolding others_def by (intro filter_True) (auto simp: image_iff)
    then show ?thesis using True Cons.prems(2) by (cases x) (simp add: others_def)
  next
    case False
    then show ?thesis using Cons by (cases x) (simp add: others_def)
  qed
qed simp

lemma mset_butlast: "xs \<noteq> [] \<Longrightarrow> mset xs = add_mset (last xs) (mset (butlast xs))"
  by (induction xs rule: rev_induct) simp_all

lemma lru_Remove_ok:
  assumes "lru_ok c" "OnEvicted c" "lru_Remove k c = (ev, c')"
  shows "lru_ok c' \<and> mset (entries c) = mset (entries c') + mset ev \<and> map_of (entries c') k = None"
proof (cases "cache c k")
  case None
  then show ?thesis using assms lru_lookup [OF assms(1), of k] by (simp add: lru_Remove_def)
next
  case (Some e)
  then obtain v where v: "elems c e = Some (k, v)" using lru_ok_cacheE [OF assms(1)] by metis
  have "removeElementLocked e c = (ev, c')" using assms(3) Some by (simp add: lru_Remove_def)
  note r = removeElement_ok [OF assms(1) Some v this]
  have "map_of (entries c) k = Some v" using lru_lookup [OF assms(1), of k] Some v by simp
  then show ?thesis
    using r assms(2) mset_others [OF entries_distinct [OF assms(1)]]
    by (auto simp: others_def map_of_eq_None_iff)
qed

lemma lru_Clear_ok:
  assumes "lru_ok c" "OnEvicted c" "lru_Clear c = (ev, c')"
  shows "lru_ok c' \<and> mset (entries c) = mset (entries c') + mset ev \<and> entries c' = []"
  using assms by (auto simp: lru_Clear_def lru_ok_def entries_def)

lemma lru_Add_evicts:
  assumes "lru_ok c" "OnEvicted c" "cache c k = None" "lru_Add k v c = (ev, c')"
  shows "mset ((k, v) # entries c) = mset (entries c') + mset ev"
proof -
  let ?c = "c\<lparr>ll := fresh c # ll c, elems := (elems c)(fresh c := Some (k, v)),
              cache := (cache c)(k := Some (fresh c)), fresh := fresh c + 1\<rparr>"
  note p = lru_push_ok [OF assms(1,3), where v = v]
  show ?thesis
  proof (cases "MaxEntries c \<noteq> 0 \<and> MaxEntries c < int (length (ll c)) + 1")
    case True
    then have "removeOldestLocked ?c = (ev, c')" using assms(3,4) by (simp add: lru_Add_def Let_def)
    from removeOldest_ok [OF p(1) this] show ?thesis
      using p(2) assms(2) mset_butlast [of "(k, v) # entries c"] by simp
  next
    case False
    then have "c' = ?c" "ev = []" using assms(3,4) by (auto simp: lru_Add_def Let_def)
    then show ?thesis using p(2) by simp
  qed
qed



end
