(* ===== verification/Cert_Cache.thy ===== *)
theory Cert_Cache
  imports LRU
begin

text \<open>
  The certificate cache of \<open>src/lib/cache/cert.go\<close>, on top of the LRU cache.

  \<open>crypto/tls\<close>, \<open>crypto/x509\<close>, \<open>os.Stat\<close> and \<open>path/filepath\<close> are an environment passed to the operations.
  A certificate entry is reached through a pointer, so the cache maps hashes to references into a
  store.  Times are nanoseconds; \<open>now\<close> is the clock reading of the call, and a call runs without
  interleaving (the per-key load mutexes are kept as a map, their blocking is not modelled).
\<close>

subsection \<open>Definitions\<close>

record 'c cert_env =
  env_load :: "string \<Rightarrow> string \<Rightarrow> 'c option"
  env_keyPair :: "string \<Rightarrow> string \<Rightarrow> 'c option"
  env_notAfter :: "'c \<Rightarrow> int option"
  env_der :: "'c \<Rightarrow> bytes"
  env_stat :: "string \<Rightarrow> bool"
  env_isAbs :: "string \<Rightarrow> bool"
  env_join :: "string \<Rightarrow> string \<Rightarrow> string"
  env_abs :: "string \<Rightarrow> string option"
  env_runPath :: string

definition GetPath :: "'c cert_env \<Rightarrow> string \<Rightarrow> string" where
  "GetPath env filePath =
     (let filePath = (if env_isAbs env filePath then filePath else env_join env (env_runPath env) filePath)
      in case env_abs env filePath of None \<Rightarrow> filePath | Some path \<Rightarrow> path)"

record 'c certEntry =
  ce_isFile :: bool
  ce_certFile :: string
  ce_keyFile :: string
  ce_certText :: string
  ce_keyText :: string
  ce_cert :: 'c
  ce_expire :: int
  ce_lastUsed :: int
  ce_lastReload :: int

record 'c CertManager =
  cm_cache :: "(string, nat) Cache"
  cm_entries :: "nat \<Rightarrow> 'c certEntry option"
  cm_next :: nat
  cm_loadMutexes :: "string \<rightharpoonup> nat"
  cm_nextMutex :: nat
  cm_sslTimeout :: int64
  cm_idleTimeout :: int64
  cm_stopped :: bool

definition NewCertManager :: "int64 \<Rightarrow> int64 \<Rightarrow> int64 \<Rightarrow> 'c CertManager" where
  "NewCertManager maxEntries sslTimeout idleTimeout =
     \<lparr>cm_cache = lru_New maxEntries False, cm_entries = (\<lambda>_. None), cm_next = 0, cm_loadMutexes = Map.empty,
      cm_nextMutex = 0, cm_sslTimeout = sslTimeout, cm_idleTimeout = idleTimeout, cm_stopped = False\<rparr>"

definition cm_Stop :: "'c CertManager \<Rightarrow> 'c CertManager" where
  "cm_Stop m =
     (if cm_stopped m then m
      else m\<lparr>cm_cache := snd (lru_Clear (cm_cache m)), cm_loadMutexes := Map.empty, cm_stopped := True\<rparr>)"

datatype cert_error =
  BadMode | NoX509Data | CertExpired | CertFileNotFound | KeyFileNotFound | LoadFailed

definition parseExpire :: "'c cert_env \<Rightarrow> 'c \<Rightarrow> cert_error + int" where
  "parseExpire env cert = (case env_notAfter env cert of None \<Rightarrow> Inl NoX509Data | Some t \<Rightarrow> Inr t)"

definition getLoadMutex :: "string \<Rightarrow> 'c CertManager \<Rightarrow> nat \<times> 'c CertManager" where
  "getLoadMutex key m =
     (case cm_loadMutexes m key of
        Some lm \<Rightarrow> (lm, m)
      | None \<Rightarrow> (cm_nextMutex m,
                 m\<lparr>cm_loadMutexes := (cm_loadMutexes m)(key \<mapsto> cm_nextMutex m), cm_nextMutex := cm_nextMutex m + 1\<rparr>))"

definition deleteLoadMutex :: "string \<Rightarrow> nat \<Rightarrow> 'c CertManager \<Rightarrow> 'c CertManager" where
  "deleteLoadMutex key lm m =
     (if cm_loadMutexes m key = Some lm then m\<lparr>cm_loadMutexes := (cm_loadMutexes m)(key := None)\<rparr> else m)"

definition set_entry :: "nat \<Rightarrow> 'c certEntry \<Rightarrow> 'c CertManager \<Rightarrow> 'c CertManager" where
  "set_entry p e m = m\<lparr>cm_entries := (cm_entries m)(p := Some e)\<rparr>"

text \<open>The reload of a cached entry: what \<open>LoadX509KeyPair\<close>, \<open>parseExpire\<close> and the expiry check decide.\<close>

definition reload :: "'c cert_env \<Rightarrow> string \<Rightarrow> string \<Rightarrow> int \<Rightarrow> cert_error + ('c \<times> int)" where
  "reload env certFile keyFile now =
     (case env_load env certFile keyFile of
        None \<Rightarrow> Inl LoadFailed
      | Some newCert \<Rightarrow>
          (case parseExpire env newCert of
             Inl e \<Rightarrow> Inl e
           | Inr newExpire \<Rightarrow> if newExpire \<le> now then Inl CertExpired else Inr (newCert, newExpire)))"

text \<open>The branch of \<open>Get\<close> for an entry found in the cache.\<close>

definition cert_hit ::
    "'c cert_env \<Rightarrow> string \<Rightarrow> nat \<Rightarrow> int \<Rightarrow> 'c certEntry \<Rightarrow> 'c CertManager \<Rightarrow> (cert_error + 'c) \<times> 'c CertManager" where
  "cert_hit env hash p now e0 m =
     (let e = e0\<lparr>ce_lastUsed := now\<rparr>;
          m = set_entry p e m;
          timedOut = (0 < cm_sslTimeout m \<and> ce_isFile e \<and> cm_sslTimeout m \<le> now - ce_lastReload e);
          expired = (ce_expire e < now)
      in if timedOut \<or> expired then
           (let m = snd (getLoadMutex hash m)
            in case reload env (ce_certFile e) (ce_keyFile e) now of
                 Inl err \<Rightarrow>
                   (if expired then Inl err else Inr (ce_cert e), set_entry p (e\<lparr>ce_lastReload := now\<rparr>) m)
               | Inr (newCert, newExpire) \<Rightarrow>
                   if expired \<or> env_der env newCert \<noteq> env_der env (ce_cert e)
                   then (Inr newCert,
                         set_entry p (e\<lparr>ce_lastReload := now, ce_cert := newCert, ce_expire := newExpire\<rparr>) m)
                   else (Inr (ce_cert e), set_entry p (e\<lparr>ce_lastReload := now\<rparr>) m))
         else (Inr (ce_cert e), m))"

text \<open>The certificate a miss loads: from files or from the text itself.\<close>

definition load_input :: "'c cert_env \<Rightarrow> bool \<Rightarrow> string \<Rightarrow> string \<Rightarrow> cert_error + 'c" where
  "load_input env isFile certInput keyInput =
     (if isFile then
        (let certPath = GetPath env certInput; keyPath = GetPath env keyInput
         in if \<not> env_stat env certPath then Inl CertFileNotFound
            else if \<not> env_stat env keyPath then Inl KeyFileNotFound
            else case env_load env certPath keyPath of None \<Rightarrow> Inl LoadFailed | Some c \<Rightarrow> Inr c)
      else case env_keyPair env certInput keyInput of None \<Rightarrow> Inl LoadFailed | Some c \<Rightarrow> Inr c)"

definition cert_miss ::
    "'c cert_env \<Rightarrow> bool \<Rightarrow> string \<Rightarrow> string \<Rightarrow> string \<Rightarrow> int \<Rightarrow> 'c CertManager \<Rightarrow> (cert_error + 'c) \<times> 'c CertManager" where
  "cert_miss env isFile certInput keyInput hash now m =
     (let (lm, m) = getLoadMutex hash m
      in case load_input env isFile certInput keyInput of
           Inl err \<Rightarrow> (Inl err, deleteLoadMutex hash lm m)
         | Inr cert \<Rightarrow>
             (case parseExpire env cert of
                Inl err \<Rightarrow> (Inl err, deleteLoadMutex hash lm m)
              | Inr expire \<Rightarrow>
                  (let p = cm_next m;
                       m = set_entry p \<lparr>ce_isFile = isFile, ce_certFile = certInput, ce_keyFile = keyInput,
                             ce_certText = certInput, ce_keyText = keyInput, ce_cert = cert, ce_expire = expire,
                             ce_lastUsed = now, ce_lastReload = now\<rparr> m
                   in (Inr cert, m\<lparr>cm_next := p + 1, cm_cache := snd (lru_Add hash p (cm_cache m))\<rparr>))))"

definition cert_Get ::
    "'c cert_env \<Rightarrow> string \<Rightarrow> string \<Rightarrow> string \<Rightarrow> string \<Rightarrow> int \<Rightarrow> 'c CertManager \<Rightarrow> (cert_error + 'c) \<times> 'c CertManager" where
  "cert_Get env certInput keyInput mode hash now m =
     (if mode \<noteq> ''file'' \<and> mode \<noteq> ''text'' then (Inl BadMode, m)
      else
        (case lru_Get hash (cm_cache m) of
           (None, c) \<Rightarrow> cert_miss env (mode = ''file'') certInput keyInput hash now (m\<lparr>cm_cache := c\<rparr>)
         | (Some p, c) \<Rightarrow>
             (case cm_entries m p of
                None \<Rightarrow> (Inl LoadFailed, m)
              | Some e \<Rightarrow> cert_hit env hash p now e (m\<lparr>cm_cache := c\<rparr>))))"

text \<open>\<open>evictIdle\<close> visits the entries of the map, here in the order of the list, and removes the idle ones.\<close>

fun evict_each :: "int \<Rightarrow> (string \<times> nat) list \<Rightarrow> 'c CertManager \<Rightarrow> 'c CertManager" where
  "evict_each cutoff [] m = m"
| "evict_each cutoff ((key, p) # kps) m =
     evict_each cutoff kps
       (case cm_entries m p of
          Some e \<Rightarrow>
            if ce_lastUsed e < cutoff
            then m\<lparr>cm_cache := snd (lru_Remove key (cm_cache m)), cm_loadMutexes := (cm_loadMutexes m)(key := None)\<rparr>
            else m
        | None \<Rightarrow> m)"

definition evictIdle :: "int \<Rightarrow> 'c CertManager \<Rightarrow> 'c CertManager" where
  "evictIdle now m = evict_each (now - cm_idleTimeout m) (entries (cm_cache m)) m"

subsection \<open>Cached certificates\<close>

definition entry_ok :: "'c cert_env \<Rightarrow> 'c certEntry \<Rightarrow> bool" where
  "entry_ok env e \<longleftrightarrow> env_notAfter env (ce_cert e) = Some (ce_expire e)"

definition cm_ok :: "'c cert_env \<Rightarrow> 'c CertManager \<Rightarrow> bool" where
  "cm_ok env m \<longleftrightarrow> lru_ok (cm_cache m) \<and>
     (\<forall>(k, p) \<in> set (entries (cm_cache m)). \<exists>e. cm_entries m p = Some e \<and> entry_ok env e)"

definition cached :: "string \<Rightarrow> 'c CertManager \<Rightarrow> 'c certEntry option" where
  "cached hash m = Option.bind (map_of (entries (cm_cache m)) hash) (cm_entries m)"

lemma cm_ok_set_entry:
  assumes "cm_ok env m" "entry_ok env e"
  shows "cm_ok env (set_entry p e m)"
  using assms by (fastforce simp: cm_ok_def set_entry_def)

lemma getLoadMutex_frame [simp]:
  "cm_cache (snd (getLoadMutex k m)) = cm_cache m" "cm_entries (snd (getLoadMutex k m)) = cm_entries m"
  "cm_next (snd (getLoadMutex k m)) = cm_next m"
  by (simp_all add: getLoadMutex_def split: option.split)

lemma deleteLoadMutex_frame [simp]:
  "cm_cache (deleteLoadMutex k l m) = cm_cache m" "cm_entries (deleteLoadMutex k l m) = cm_entries m"
  by (simp_all add: deleteLoadMutex_def)

lemma cm_ok_frame: "cm_cache m' = cm_cache m \<Longrightarrow> cm_entries m' = cm_entries m \<Longrightarrow> cm_ok env m' = cm_ok env m"
  by (simp add: cm_ok_def)

lemma cm_ok_mutex [simp]: "cm_ok env (snd (getLoadMutex k m)) = cm_ok env m"
  by (rule cm_ok_frame) simp_all

lemma entry_ok_upd [simp]:
  "entry_ok env (e\<lparr>ce_lastUsed := t\<rparr>) = entry_ok env e"
  "entry_ok env (e\<lparr>ce_lastReload := t\<rparr>) = entry_ok env e"
  by (simp_all add: entry_ok_def)

lemma reload_ok:
  "reload env c k now = Inr (cert, t) \<Longrightarrow> env_notAfter env cert = Some t \<and> now < t"
  by (auto simp: reload_def parseExpire_def split: option.splits if_splits)

lemma cert_hit_ok:
  assumes "cm_ok env m" "entry_ok env e" "cert_hit env hash p now e m = (r, m')"
  shows "cm_ok env m' \<and>
    (case r of Inr cert \<Rightarrow> \<exists>t. env_notAfter env cert = Some t \<and> now \<le> t | Inl err \<Rightarrow> ce_expire e < now)"
proof -
  let ?e = "e\<lparr>ce_lastUsed := now\<rparr>"
  let ?m = "set_entry p ?e m"
  have m: "cm_ok env ?m" using assms(1,2) by (intro cm_ok_set_entry) simp_all
  have x: "env_notAfter env (ce_cert e) = Some (ce_expire e)" using assms(2) by (simp add: entry_ok_def)
  define reloads where "reloads \<longleftrightarrow> 0 < cm_sslTimeout m \<and> ce_isFile e \<and> cm_sslTimeout m \<le> now - ce_lastReload e
      \<or> ce_expire e < now"
  show ?thesis
  proof (cases reloads)
    case False
    then show ?thesis
      using assms(3) m x by (auto simp: cert_hit_def Let_def reloads_def set_entry_def)
  next
    case True
    have m2: "cm_ok env (set_entry p e' (snd (getLoadMutex hash ?m)))" if "entry_ok env e'" for e'
      using m that by (intro cm_ok_set_entry) simp_all
    show ?thesis
    proof (cases "reload env (ce_certFile e) (ce_keyFile e) now")
      case (Inl err)
      then show ?thesis
        using assms(2,3) True m2 [of "?e\<lparr>ce_lastReload := now\<rparr>"] x
        by (auto simp: cert_hit_def Let_def reloads_def set_entry_def)
    next
      case (Inr ct)
      obtain cert t where ct: "ct = (cert, t)" by fastforce
      note rl = reload_ok [OF Inr [unfolded ct]]
      then have "entry_ok env (?e\<lparr>ce_lastReload := now, ce_cert := cert, ce_expire := t\<rparr>)"
        by (simp add: entry_ok_def)
      then show ?thesis
        using assms(2,3) True m2 [of "?e\<lparr>ce_lastReload := now, ce_cert := cert, ce_expire := t\<rparr>"]
          m2 [of "?e\<lparr>ce_lastReload := now\<rparr>"] x rl
        by (auto simp: cert_hit_def Let_def reloads_def set_entry_def Inr ct split: if_splits)
    qed
  qed
qed

lemma set_add_entry: "set (add_entry n k v xs) \<subseteq> insert (k, v) (set xs)"
  by (auto simp: add_entry_def others_def dest: in_set_butlastD split: if_splits)

lemma cert_miss_ok:
  assumes "cm_ok env m" "cert_miss env isFile ci ki hash now m = (r, m')"
  shows "cm_ok env m'"
proof -
  obtain lm m1 where g: "getLoadMutex hash m = (lm, m1)" by fastforce
  have m1: "cm_ok env m1" using cm_ok_mutex [of env hash m] g assms(1) by simp
  have fail: "cm_ok env (deleteLoadMutex hash lm m1)"
    using m1 by (simp add: cm_ok_frame [of "deleteLoadMutex hash lm m1" m1])
  have win: "cm_ok env (m2\<lparr>cm_next := q, cm_cache := snd (lru_Add hash p (cm_cache m2))\<rparr>)"
    if "cm_ok env m2" "cm_entries m2 p = Some e" "entry_ok env e" for m2 p q e
    using that lru_Add_ok [of "cm_cache m2" hash p "fst (lru_Add hash p (cm_cache m2))" "snd (lru_Add hash p (cm_cache m2))"]
      set_add_entry [of "MaxEntries (cm_cache m2)" hash p "entries (cm_cache m2)"]
    by (fastforce simp: cm_ok_def)
  show ?thesis
  proof (cases "\<exists>cert t. load_input env isFile ci ki = Inr cert \<and> env_notAfter env cert = Some t")
    case False
    then have "m' = deleteLoadMutex hash lm m1"
      using assms(2) g by (auto simp: cert_miss_def Let_def parseExpire_def split: sum.splits option.splits)
    then show ?thesis using fail by simp
  next
    case True
    then obtain cert t where c: "load_input env isFile ci ki = Inr cert" "env_notAfter env cert = Some t" by blast
    define e where "e = \<lparr>ce_isFile = isFile, ce_certFile = ci, ce_keyFile = ki, ce_certText = ci, ce_keyText = ki,
      ce_cert = cert, ce_expire = t, ce_lastUsed = now, ce_lastReload = now\<rparr>"
    let ?m2 = "set_entry (cm_next m1) e m1"
    have e: "entry_ok env e" using c(2) by (simp add: entry_ok_def e_def)
    have "m' = ?m2\<lparr>cm_next := cm_next m1 + 1, cm_cache := snd (lru_Add hash (cm_next m1) (cm_cache ?m2))\<rparr>"
      using assms(2) g c by (simp add: cert_miss_def Let_def parseExpire_def e_def)
    then show ?thesis
      using win [OF cm_ok_set_entry [OF m1 e] _ e] by (simp add: set_entry_def)
  qed
qed

lemma cert_Get_ok:
  assumes "cm_ok env m" "cert_Get env ci ki mode hash now m = (r, m')"
  shows "cm_ok env m'"
    "cached hash m = Some e \<Longrightarrow> mode = ''file'' \<or> mode = ''text'' \<Longrightarrow>
      (case r of Inr cert \<Rightarrow> \<exists>t. env_notAfter env cert = Some t \<and> now \<le> t | Inl err \<Rightarrow> ce_expire e < now)"
proof -
  have "cm_ok env m' \<and> (cached hash m = Some e \<longrightarrow> mode = ''file'' \<or> mode = ''text'' \<longrightarrow>
      (case r of Inr cert \<Rightarrow> \<exists>t. env_notAfter env cert = Some t \<and> now \<le> t | Inl err \<Rightarrow> ce_expire e < now))"
  proof (cases "mode = ''file'' \<or> mode = ''text''")
    case False
    then show ?thesis using assms by (auto simp: cert_Get_def)
  next
    case True
    obtain v c where g: "lru_Get hash (cm_cache m) = (v, c)" by fastforce
    have ok: "lru_ok (cm_cache m)" using assms(1) by (simp add: cm_ok_def)
    note G = lru_Get_ok [OF ok g]
    have sub: "set (entries c) \<subseteq> set (entries (cm_cache m))"
      using G(2,5) by (auto simp: others_def split: option.splits dest: map_of_SomeD)
    then have mc: "cm_ok env (m\<lparr>cm_cache := c\<rparr>)" using assms(1) G(1) by (auto simp: cm_ok_def)
    show ?thesis
    proof (cases v)
      case None
      then have "cert_miss env (mode = ''file'') ci ki hash now (m\<lparr>cm_cache := c\<rparr>) = (r, m')"
        using assms(2) True g by (auto simp: cert_Get_def)
      from cert_miss_ok [OF mc this] show ?thesis using None G(2) by (simp add: cached_def)
    next
      case (Some p)
      then have "(hash, p) \<in> set (entries (cm_cache m))" using G(2) by (simp add: map_of_SomeD)
      then obtain e' where e': "cm_entries m p = Some e'" "entry_ok env e'" using assms(1) by (auto simp: cm_ok_def)
      then have "cert_hit env hash p now e' (m\<lparr>cm_cache := c\<rparr>) = (r, m')"
        using assms(2) True g Some by (auto simp: cert_Get_def)
      from cert_hit_ok [OF mc e'(2) this] show ?thesis using Some G(2) e'(1) by (auto simp: cached_def)
    qed
  qed
  then show "cm_ok env m'" "cached hash m = Some e \<Longrightarrow> mode = ''file'' \<or> mode = ''text'' \<Longrightarrow>
      (case r of Inr cert \<Rightarrow> \<exists>t. env_notAfter env cert = Some t \<and> now \<le> t | Inl err \<Rightarrow> ce_expire e < now)"
    by blast+
qed

subsection \<open>Idle entries\<close>

lemma lru_Remove_entries:
  assumes "lru_ok c"
  shows "lru_ok (snd (lru_Remove k c))" "entries (snd (lru_Remove k c)) = others k (entries c)"
proof -
  have "lru_ok (snd (lru_Remove k c)) \<and> entries (snd (lru_Remove k c)) = others k (entries c)"
  proof (cases "cache c k")
    case None
    then have "k \<notin> fst ` set (entries c)" using lru_lookup [OF assms, of k] by (simp add: map_of_eq_None_iff)
    then have "others k (entries c) = entries c" unfolding others_def by (intro filter_True) (auto simp: image_iff)
    then show ?thesis using assms None by (simp add: lru_Remove_def)
  next
    case (Some e)
    then obtain v where v: "elems c e = Some (k, v)" using lru_ok_cacheE [OF assms] by metis
    have "removeElementLocked e c = (fst (lru_Remove k c), snd (lru_Remove k c))"
      using Some by (simp add: lru_Remove_def)
    from removeElement_ok [OF assms Some v this] show ?thesis by simp
  qed
  then show "lru_ok (snd (lru_Remove k c))" "entries (snd (lru_Remove k c)) = others k (entries c)" by simp_all
qed

definition idle :: "int \<Rightarrow> 'c CertManager \<Rightarrow> nat \<Rightarrow> bool" where
  "idle cutoff m p \<longleftrightarrow> (case cm_entries m p of Some e \<Rightarrow> ce_lastUsed e < cutoff | None \<Rightarrow> False)"

lemma evict_each_spec:
  assumes "lru_ok (cm_cache m)"
  shows "lru_ok (cm_cache (evict_each cutoff kps m)) \<and> cm_entries (evict_each cutoff kps m) = cm_entries m \<and>
    entries (cm_cache (evict_each cutoff kps m)) =
      filter (\<lambda>(k, p). \<not> (\<exists>q. (k, q) \<in> set kps \<and> idle cutoff m q)) (entries (cm_cache m))"
  using assms
proof (induction kps arbitrary: m)
  case Nil
  then show ?case by simp
next
  case (Cons kp kps)
  obtain key p where kp: "kp = (key, p)" by fastforce
  let ?m = "if idle cutoff m p
    then m\<lparr>cm_cache := snd (lru_Remove key (cm_cache m)), cm_loadMutexes := (cm_loadMutexes m)(key := None)\<rparr> else m"
  have step: "evict_each cutoff (kp # kps) m = evict_each cutoff kps ?m"
    by (simp add: kp idle_def split: option.splits)
  have "lru_ok (cm_cache ?m)" using Cons.prems lru_Remove_entries(1) [OF Cons.prems] by simp
  note IH = Cons.IH [OF this]
  have same: "cm_entries ?m = cm_entries m" "idle cutoff ?m = idle cutoff m" by (auto simp: idle_def)
  have "filter (\<lambda>(k, p). \<not> (\<exists>q. (k, q) \<in> set kps \<and> idle cutoff m q)) (entries (cm_cache ?m)) =
      filter (\<lambda>(k, p). \<not> (\<exists>q. (k, q) \<in> set (kp # kps) \<and> idle cutoff m q)) (entries (cm_cache m))"
    using lru_Remove_entries(2) [OF Cons.prems, of key]
    by (auto simp: kp others_def intro!: filter_cong)
  then show ?case unfolding step using IH by (simp only: same)
qed

lemma evictIdle_spec:
  assumes "lru_ok (cm_cache m)"
  shows "lru_ok (cm_cache (evictIdle now m))" "cm_entries (evictIdle now m) = cm_entries m"
    "entries (cm_cache (evictIdle now m)) =
      filter (\<lambda>(k, p). \<not> idle (now - cm_idleTimeout m) m p) (entries (cm_cache m))"
proof -
  note s = evict_each_spec [OF assms, of "now - cm_idleTimeout m" "entries (cm_cache m)"]
  then show "lru_ok (cm_cache (evictIdle now m))" "cm_entries (evictIdle now m) = cm_entries m"
    by (simp_all add: evictIdle_def)
  have "(\<exists>q. (k, q) \<in> set (entries (cm_cache m)) \<and> idle cutoff m q) \<longleftrightarrow> idle cutoff m p"
    if "(k, p) \<in> set (entries (cm_cache m))" for k p cutoff
    using that eq_key_imp_eq_value [OF entries_distinct [OF assms]] by blast
  then show "entries (cm_cache (evictIdle now m)) =
      filter (\<lambda>(k, p). \<not> idle (now - cm_idleTimeout m) m p) (entries (cm_cache m))"
    using s by (auto simp: evictIdle_def intro!: filter_cong)
qed

subsection \<open>The manager over time\<close>

datatype cert_op = CGet string string string string int | CEvict int | CStop

fun cert_run :: "'c cert_env \<Rightarrow> cert_op list \<Rightarrow> 'c CertManager \<Rightarrow> 'c CertManager" where
  "cert_run env [] m = m"
| "cert_run env (CGet ci ki mode hash now # ops) m = cert_run env ops (snd (cert_Get env ci ki mode hash now m))"
| "cert_run env (CEvict now # ops) m = cert_run env ops (evictIdle now m)"
| "cert_run env (CStop # ops) m = cert_run env ops (cm_Stop m)"

lemma cm_ok_evict: "cm_ok env m \<Longrightarrow> cm_ok env (evictIdle now m)"
  using evictIdle_spec [of m now] by (auto simp: cm_ok_def)

lemma cm_ok_stop: "cm_ok env m \<Longrightarrow> cm_ok env (cm_Stop m)"
  by (auto simp: cm_ok_def cm_Stop_def lru_Clear_def lru_ok_def entries_def)

lemma cm_ok_run: "cm_ok env m \<Longrightarrow> cm_ok env (cert_run env ops m)"
proof (induction ops arbitrary: m)
  case (Cons op ops)
  show ?case
    using Cons.IH cm_ok_evict [OF Cons.prems] cm_ok_stop [OF Cons.prems]
      cert_Get_ok(1) [OF Cons.prems surjective_pairing]
    by (cases op) simp_all
qed simp

lemma cm_ok_New: "cm_ok env (NewCertManager n t i)"
  by (simp add: cm_ok_def NewCertManager_def)


definition demo_env :: "string cert_env" where
  "demo_env = \<lparr>env_load = (\<lambda>c k. if c = ''/n/a.pem'' then Some c else None), env_keyPair = (\<lambda>c k. Some c),
     env_notAfter = (\<lambda>c. Some (if c = ''new'' then 500 else 100)), env_der = (\<lambda>c. []), env_stat = (\<lambda>p. True),
     env_isAbs = (\<lambda>p. take 1 p = ''/''), env_join = (\<lambda>a b. a @ ''/'' @ b), env_abs = Some, env_runPath = ''/n''\<rparr>"

lemma demo_cached:
  "cached ''h'' (cert_run demo_env [CGet ''a.pem'' ''a.key'' ''file'' ''h'' 0] (NewCertManager 4 60 600)) =
    Some \<lparr>ce_isFile = True, ce_certFile = ''a.pem'', ce_keyFile = ''a.key'', ce_certText = ''a.pem'',
      ce_keyText = ''a.key'', ce_cert = ''/n/a.pem'', ce_expire = 100, ce_lastUsed = 0, ce_lastReload = 0\<rparr>"
  by (simp add: cert_Get_def NewCertManager_def lru_Get_def lru_New_def cert_miss_def getLoadMutex_def load_input_def
      GetPath_def demo_env_def parseExpire_def set_entry_def lru_Add_def cached_def entries_def Let_def)


text \<open>
  C38: A certificate given by a relative path is never renewed.  It is loaded through \<open>GetPath\<close> (relative to
  the program's directory), but reloaded under the raw path; when that path does not resolve, requests
  after the expiry fail, although the file is there and a first load would succeed.
\<close>

theorem relative_path_not_renewed:
  assumes "cm_ok env m" "cached hash m = Some e" "ce_expire e < now"
    and "env_load env (ce_certFile e) (ce_keyFile e) = None"
    and "load_input env True (ce_certFile e) (ce_keyFile e) = Inr cert" "env_notAfter env cert = Some x" "now < x"
  shows "fst (cert_Get env (ce_certFile e) (ce_keyFile e) ''file'' hash now m) = Inl LoadFailed \<and>
    fst (cert_miss env True (ce_certFile e) (ce_keyFile e) hash now m) = Inr cert"
proof
  obtain p where p: "map_of (entries (cm_cache m)) hash = Some p" "cm_entries m p = Some e"
    using assms(2) by (auto simp: cached_def bind_eq_Some_conv)
  obtain v c where g: "lru_Get hash (cm_cache m) = (v, c)" by fastforce
  have "lru_ok (cm_cache m)" using assms(1) by (simp add: cm_ok_def)
  from lru_Get_ok(2) [OF this g] have "v = Some p" using p by simp
  then show "fst (cert_Get env (ce_certFile e) (ce_keyFile e) ''file'' hash now m) = Inl LoadFailed"
    using g p assms(3,4) by (simp add: cert_Get_def cert_hit_def Let_def reload_def)
  show "fst (cert_miss env True (ce_certFile e) (ce_keyFile e) hash now m) = Inr cert"
    using assms(5,6) by (simp add: cert_miss_def Let_def parseExpire_def split: prod.splits)
qed

lemma cm_ok_env: "env_notAfter env' = env_notAfter env \<Longrightarrow> cm_ok env m \<Longrightarrow> cm_ok env' m"
  by (simp add: cm_ok_def entry_ok_def)

theorem relative_path_not_renewed_witness:
  "fst (cert_Get (demo_env\<lparr>env_load := \<lambda>c k. if c = ''/n/a.pem'' then Some ''new'' else None\<rparr>)
     ''a.pem'' ''a.key'' ''file'' ''h'' 200
     (cert_run demo_env [CGet ''a.pem'' ''a.key'' ''file'' ''h'' 0] (NewCertManager 4 60 600))) = Inl LoadFailed"
proof -
  let ?env = "demo_env\<lparr>env_load := \<lambda>c k. if c = ''/n/a.pem'' then Some ''new'' else None\<rparr>"
  let ?m = "cert_run demo_env [CGet ''a.pem'' ''a.key'' ''file'' ''h'' 0] (NewCertManager 4 60 600)"
  have "cm_ok ?env ?m" by (rule cm_ok_env [OF _ cm_ok_run [OF cm_ok_New]]) simp
  from relative_path_not_renewed [OF this demo_cached, of 200 "''new''" 500] show ?thesis
    by (simp add: load_input_def GetPath_def demo_env_def Let_def)
qed

end
