(* ===== verification/Domain_Index.thy ===== *)
theory Domain_Index
  imports Go_Strings "HOL-Library.AList"
begin

text \<open>
  The host index of \<open>src/lib/index/host.go\<close>: a trie over the labels of a domain, read from the top-level
  domain down, that finds every rule whose domain is a label-wise suffix of the requested host.

  The trees are immutable (every update copies the path it changes), so they are values; a node's map of
  children is an association list without duplicate keys and its set of ids a set.
\<close>

subsection \<open>Domains\<close>

definition splitDomain :: "string \<Rightarrow> string list" where
  "splitDomain domain =
     (let d = ToLower (TrimSpace domain) in if d = [] then [] else rev (Split d CHR ''.''))"

definition normalizeDomain :: "string \<Rightarrow> string" where
  "normalizeDomain domain =
     (let d = ToLower (TrimSpace domain); d = TrimPrefix d ''*.'' in TrimPrefix d ''*'')"

subsection \<open>The tree\<close>

datatype node = Node (children: "(string \<times> node) list") (ids: "int set")

definition NewNode :: node where
  "NewNode = Node [] {}"

fun cloneAdd :: "string list \<Rightarrow> int \<Rightarrow> node \<Rightarrow> node" where
  "cloneAdd [] i n = Node (children n) (insert i (ids n))"
| "cloneAdd (p # ps) i n =
     Node (AList.update p (cloneAdd ps i (case map_of (children n) p of None \<Rightarrow> NewNode | Some c \<Rightarrow> c)) (children n))
          (ids n)"

text \<open>\<open>None\<close> is the answer \<open>(nil, true)\<close> that tells the caller to drop the node.\<close>

fun cloneRemove :: "string list \<Rightarrow> int \<Rightarrow> node \<Rightarrow> node option" where
  "cloneRemove [] i n =
     (if ids n - {i} = {} \<and> children n = [] then None else Some (Node (children n) (ids n - {i})))"
| "cloneRemove (p # ps) i n =
     (let newChildren =
            (case map_of (children n) p of
               None \<Rightarrow> children n
             | Some c \<Rightarrow>
                 (case cloneRemove ps i c of
                    None \<Rightarrow> AList.delete p (children n)
                  | Some nc \<Rightarrow> AList.update p nc (children n)))
      in if ids n = {} \<and> newChildren = [] then None else Some (Node newChildren (ids n)))"

fun tree_lookup :: "node \<Rightarrow> string list \<Rightarrow> int set" where
  "tree_lookup n [] = ids n"
| "tree_lookup n (p # ps) =
     ids n \<union> (case map_of (children n) p of None \<Rightarrow> {} | Some c \<Rightarrow> tree_lookup c ps)"

fun tree_has :: "node \<Rightarrow> string list \<Rightarrow> int \<Rightarrow> bool" where
  "tree_has n [] i \<longleftrightarrow> i \<in> ids n"
| "tree_has n (p # ps) i \<longleftrightarrow> (case map_of (children n) p of None \<Rightarrow> False | Some c \<Rightarrow> tree_has c ps i)"

definition CloneAdd :: "string \<Rightarrow> int \<Rightarrow> node \<Rightarrow> node" where
  "CloneAdd domain i t = cloneAdd (splitDomain domain) i t"

definition CloneRemove :: "string \<Rightarrow> int \<Rightarrow> node \<Rightarrow> node" where
  "CloneRemove domain i t = (case cloneRemove (splitDomain domain) i t of None \<Rightarrow> NewNode | Some r \<Rightarrow> r)"

definition tree_Lookup :: "string \<Rightarrow> node \<Rightarrow> int set" where
  "tree_Lookup domain t = tree_lookup t (splitDomain domain)"

definition tree_Has :: "string \<Rightarrow> int \<Rightarrow> node \<Rightarrow> bool" where
  "tree_Has domain i t = tree_has t (splitDomain domain) i"

subsection \<open>The index\<close>

type_synonym DomainIndex = node

definition NewDomainIndex :: DomainIndex where
  "NewDomainIndex = NewNode"

definition di_Lookup :: "string \<Rightarrow> DomainIndex \<Rightarrow> int set" where
  "di_Lookup domain t = tree_Lookup (ToLower (TrimSpace domain)) t"

definition di_Add :: "string \<Rightarrow> int \<Rightarrow> DomainIndex \<Rightarrow> DomainIndex" where
  "di_Add domain i t =
     (let d = normalizeDomain domain in if tree_Has d i t then t else CloneAdd d i t)"

definition di_Remove :: "string \<Rightarrow> int \<Rightarrow> DomainIndex \<Rightarrow> DomainIndex" where
  "di_Remove domain i t =
     (let d = normalizeDomain domain in if \<not> tree_Has d i t then t else CloneRemove d i t)"

definition di_Destroy :: "DomainIndex \<Rightarrow> DomainIndex" where
  "di_Destroy t = NewNode"

subsection \<open>Correctness of the tree\<close>

lemma tree_has_New [simp]: "\<not> tree_has NewNode ps i"
  by (cases ps) (simp_all add: NewNode_def)

lemma tree_lookup_prefixes: "i \<in> tree_lookup n ps \<longleftrightarrow> (\<exists>qs. prefix qs ps \<and> tree_has n qs i)"
proof (induction n ps rule: tree_lookup.induct)
  case (1 n)
  then show ?case by simp
next
  case (2 n p ps)
  have "(\<exists>qs. prefix qs (p # ps) \<and> tree_has n qs i) \<longleftrightarrow>
      i \<in> ids n \<or> (\<exists>qs. prefix qs ps \<and> tree_has n (p # qs) i)"
    by (auto simp: prefix_Cons intro: exI [of _ "[]"])
  then show ?case using 2 by (auto split: option.splits)
qed

lemma tree_has_cloneAdd: "tree_has (cloneAdd ps i n) qs j \<longleftrightarrow> qs = ps \<and> j = i \<or> tree_has n qs j"
proof (induction ps i n arbitrary: qs rule: cloneAdd.induct)
  case (1 i n)
  then show ?case by (cases qs) auto
next
  case (2 p ps i n)
  show ?case
  proof (cases qs)
    case (Cons q qs')
    then show ?thesis using 2 [of qs'] by (auto simp: update_conv' split: option.splits)
  qed simp
qed

definition opt_has :: "node option \<Rightarrow> string list \<Rightarrow> int \<Rightarrow> bool" where
  "opt_has x qs j \<longleftrightarrow> (case x of None \<Rightarrow> False | Some n \<Rightarrow> tree_has n qs j)"

definition prune :: "(string \<times> node) list \<Rightarrow> int set \<Rightarrow> node option" where
  "prune cs is = (if is = {} \<and> cs = [] then None else Some (Node cs is))"

definition rm_child ::
    "string \<Rightarrow> (node \<Rightarrow> node option) \<Rightarrow> (string \<times> node) list \<Rightarrow> (string \<times> node) list" where
  "rm_child p f cs =
     (case map_of cs p of
        None \<Rightarrow> cs
      | Some c \<Rightarrow> (case f c of None \<Rightarrow> AList.delete p cs | Some nc \<Rightarrow> AList.update p nc cs))"

lemma cloneRemove_Nil: "cloneRemove [] i (Node cs is) = prune cs (is - {i})"
  by (simp add: prune_def)

lemma cloneRemove_Cons: "cloneRemove (p # ps) i (Node cs is) = prune (rm_child p (cloneRemove ps i) cs) is"
  by (cases "map_of cs p") (simp_all add: prune_def rm_child_def Let_def cloneRemove.simps split: option.split)

declare cloneRemove.simps [simp del]

lemma map_of_rm_child:
  "map_of (rm_child p f cs) q = (if q = p then Option.bind (map_of cs p) f else map_of cs q)"
  by (simp add: rm_child_def update_conv' delete_conv' split: option.splits)

lemma opt_has_prune: "opt_has (prune cs is) qs j \<longleftrightarrow> tree_has (Node cs is) qs j"
  by (cases qs) (auto simp: opt_has_def prune_def)

lemma tree_has_Cons: "tree_has (Node cs is) (p # ps) j \<longleftrightarrow> opt_has (map_of cs p) ps j"
  by (simp add: opt_has_def)

lemma tree_has_cloneRemove:
  "opt_has (cloneRemove ps i n) qs j \<longleftrightarrow> tree_has n qs j \<and> \<not> (qs = ps \<and> j = i)"
proof (induction ps arbitrary: n qs)
  case Nil
  show ?case by (cases n; cases qs) (auto simp: cloneRemove_Nil opt_has_prune)
next
  case (Cons p ps)
  obtain cs "is" where n: "n = Node cs is" by (cases n)
  show ?case
  proof (cases qs)
    case Nil
    then show ?thesis by (simp add: n cloneRemove_Cons opt_has_prune)
  next
    case qs: (Cons q qs')
    have "opt_has (Option.bind (map_of cs p) (cloneRemove ps i)) qs' j \<longleftrightarrow>
        opt_has (map_of cs p) qs' j \<and> \<not> (qs' = ps \<and> j = i)"
      using Cons.IH [of _ qs'] by (cases "map_of cs p") (simp_all add: opt_has_def)
    then show ?thesis
      unfolding n cloneRemove_Cons opt_has_prune qs tree_has_Cons map_of_rm_child by auto
  qed
qed

text \<open>No node but the root is empty.\<close>

definition live :: "node \<Rightarrow> bool" where
  "live n \<longleftrightarrow> children n \<noteq> [] \<or> ids n \<noteq> {}"

fun tree_ok :: "node \<Rightarrow> bool" where
  "tree_ok (Node cs is) \<longleftrightarrow> distinct (map fst cs) \<and> (\<forall>kc \<in> set cs. tree_ok (snd kc) \<and> live (snd kc))"

lemma tree_ok_child: "tree_ok n \<Longrightarrow> map_of (children n) p = Some c \<Longrightarrow> tree_ok c \<and> live c"
  by (cases n) (auto dest!: map_of_SomeD)

lemma tree_ok_New [simp]: "tree_ok NewNode"
  by (simp add: NewNode_def)

lemma tree_ok_update:
  assumes "tree_ok (Node cs is)" "tree_ok c" "live c"
  shows "tree_ok (Node (AList.update p c cs) is)"
proof -
  have "set (AList.update p c cs) \<subseteq> insert (p, c) (set cs)"
    by (induction cs) auto
  then show ?thesis using assms by (auto simp: distinct_update)
qed

lemma tree_ok_delete: "tree_ok (Node cs is) \<Longrightarrow> tree_ok (Node (AList.delete p cs) is)"
proof -
  have "set (AList.delete p cs) \<subseteq> set cs" by (auto simp: AList.delete_eq)
  then show "tree_ok (Node cs is) \<Longrightarrow> ?thesis" by (auto simp: distinct_delete)
qed

lemma cloneAdd_ok: "tree_ok n \<Longrightarrow> tree_ok (cloneAdd ps i n) \<and> live (cloneAdd ps i n)"
proof (induction ps i n rule: cloneAdd.induct)
  case (1 i n)
  then show ?case by (cases n) (simp add: live_def)
next
  case (2 p ps i n)
  obtain cs "is" where n: "n = Node cs is" by (cases n)
  let ?c = "case map_of cs p of None \<Rightarrow> NewNode | Some c \<Rightarrow> c"
  have "tree_ok ?c" using tree_ok_child [OF 2(2), of p] by (simp add: n split: option.splits)
  then have c: "tree_ok (cloneAdd ps i ?c)" "live (cloneAdd ps i ?c)" using 2(1) by (simp_all add: n)
  have "AList.update p (cloneAdd ps i ?c) cs \<noteq> []" by (cases cs) auto
  then show ?case using tree_ok_update [OF 2(2) [unfolded n] c] by (simp add: n live_def)
qed

lemma cloneRemove_ok: "tree_ok n \<Longrightarrow> cloneRemove ps i n = Some n' \<Longrightarrow> tree_ok n' \<and> live n'"
proof (induction ps arbitrary: n n')
  case Nil
  then show ?case by (cases n) (auto simp: live_def cloneRemove_Nil prune_def split: if_splits)
next
  case (Cons p ps)
  obtain cs "is" where n: "n = Node cs is" by (cases n)
  let ?new = "rm_child p (cloneRemove ps i) cs"
  have n': "n' = Node ?new is" "is \<noteq> {} \<or> ?new \<noteq> []"
    using Cons.prems(2) by (auto simp: n cloneRemove_Cons prune_def split: if_splits)
  have ok: "tree_ok (Node cs is)" using Cons.prems(1) by (simp add: n)
  have "tree_ok (Node ?new is)"
  proof (cases "map_of cs p")
    case None
    then show ?thesis using ok by (simp add: rm_child_def)
  next
    case (Some c)
    have c: "tree_ok c" using tree_ok_child [OF ok, of p] Some by simp
    show ?thesis
      using tree_ok_delete [OF ok, of p] tree_ok_update [OF ok] Cons.IH [OF c] Some
      by (cases "cloneRemove ps i c") (simp_all add: rm_child_def del: tree_ok.simps)
  qed
  then show ?case using n' by (auto simp: live_def)
qed

lemma live_has: "tree_ok n \<Longrightarrow> live n \<Longrightarrow> \<exists>ps i. tree_has n ps i"
proof (induction n rule: tree_ok.induct)
  case (1 cs "is")
  show ?case
  proof (cases cs)
    case Nil
    then obtain i where "i \<in> is" using 1(3) by (auto simp: live_def)
    then show ?thesis by (intro exI [of _ "[]"]) auto
  next
    case (Cons kc cs')
    then obtain ps i where "tree_has (snd kc) ps i" using 1(1) [of kc] 1(2) by auto
    then have "tree_has (Node cs is) (fst kc # ps) i" using Cons by simp
    then show ?thesis by blast
  qed
qed


subsection \<open>The index as a set of rules\<close>

datatype index_op = IAdd string int | IRemove string int | IDestroy

fun index_run :: "index_op list \<Rightarrow> DomainIndex \<Rightarrow> DomainIndex" where
  "index_run [] t = t"
| "index_run (IAdd d i # ops) t = index_run ops (di_Add d i t)"
| "index_run (IRemove d i # ops) t = index_run ops (di_Remove d i t)"
| "index_run (IDestroy # ops) t = index_run ops (di_Destroy t)"

text \<open>The rules in force: pairs of a label list, top-level domain first, and an id.\<close>

definition rule_of :: "string \<Rightarrow> string list" where
  "rule_of d = splitDomain (normalizeDomain d)"

fun rules_run :: "index_op list \<Rightarrow> (string list \<times> int) set \<Rightarrow> (string list \<times> int) set" where
  "rules_run [] S = S"
| "rules_run (IAdd d i # ops) S = rules_run ops (insert (rule_of d, i) S)"
| "rules_run (IRemove d i # ops) S = rules_run ops (S - {(rule_of d, i)})"
| "rules_run (IDestroy # ops) S = rules_run ops {}"

definition rules :: "DomainIndex \<Rightarrow> (string list \<times> int) set" where
  "rules t = {(ps, i). tree_has t ps i}"

lemma di_Add_rules:
  assumes "tree_ok t"
  shows "rules (di_Add d i t) = insert (rule_of d, i) (rules t)" "tree_ok (di_Add d i t)"
  using assms cloneAdd_ok
  by (auto simp: rules_def di_Add_def Let_def tree_Has_def CloneAdd_def rule_of_def tree_has_cloneAdd)

lemma di_Remove_rules:
  assumes "tree_ok t"
  shows "rules (di_Remove d i t) = rules t - {(rule_of d, i)}" "tree_ok (di_Remove d i t)"
proof -
  let ?ps = "splitDomain (normalizeDomain d)"
  have "tree_has (CloneRemove (normalizeDomain d) i t) qs j \<longleftrightarrow> tree_has t qs j \<and> \<not> (qs = ?ps \<and> j = i)" for qs j
    using tree_has_cloneRemove [of ?ps i t qs j] by (simp add: CloneRemove_def opt_has_def split: option.splits)
  then show "rules (di_Remove d i t) = rules t - {(rule_of d, i)}"
    by (auto simp: rules_def di_Remove_def Let_def tree_Has_def rule_of_def)
  show "tree_ok (di_Remove d i t)"
    using assms cloneRemove_ok [OF assms, of ?ps i]
    by (auto simp: di_Remove_def Let_def CloneRemove_def split: option.splits)
qed

lemma index_run_rules:
  "tree_ok t \<Longrightarrow> rules (index_run ops t) = rules_run ops (rules t) \<and> tree_ok (index_run ops t)"
proof (induction ops arbitrary: t)
  case (Cons op ops)
  have "rules NewNode = {}" by (simp add: rules_def)
  then show ?case
    using Cons.IH di_Add_rules [OF Cons.prems] di_Remove_rules [OF Cons.prems]
    by (cases op) (simp_all add: di_Destroy_def)
qed simp

lemma splitDomain_lower [simp]: "splitDomain (ToLower (TrimSpace d)) = splitDomain d"
  by (simp add: splitDomain_def TrimSpace_ToLower)

text \<open>
  C9: After any sequence of additions, removals and resets, looking up a host returns exactly the ids of the
  rules in force whose labels, from the top-level domain down, are a prefix of the host's: a rule
  covers its domain and all subdomains, case does not matter, and no other rule is ever returned.
  When no rule is in force the index is the empty tree again, so removals release every node.
\<close>

theorem domain_index_correct:
  "di_Lookup host (index_run ops NewDomainIndex) =
      {i. \<exists>ps. (ps, i) \<in> rules_run ops {} \<and> prefix ps (splitDomain host)} \<and>
    (rules_run ops {} = {} \<longleftrightarrow> index_run ops NewDomainIndex = NewDomainIndex)"
proof -
  let ?t = "index_run ops NewDomainIndex"
  have r: "rules ?t = rules_run ops {}" "tree_ok ?t"
    using index_run_rules [of NewNode ops] by (simp_all add: NewDomainIndex_def rules_def)
  have "i \<in> di_Lookup host ?t \<longleftrightarrow> (\<exists>ps. (ps, i) \<in> rules ?t \<and> prefix ps (splitDomain host))" for i
    by (auto simp: di_Lookup_def tree_Lookup_def tree_lookup_prefixes rules_def)
  moreover have "?t = NewNode" if "rules ?t = {}"
    using live_has [OF r(2)] that by (cases ?t) (auto simp: rules_def live_def NewNode_def)
  moreover have "rules NewNode = {}" by (simp add: rules_def)
  ultimately show ?thesis using r(1) by (auto simp: NewDomainIndex_def)
qed

text \<open>A wildcard rule: the leading \<open>*.\<close> is dropped, so it covers the bare domain as well.\<close>

lemma wildcard_covers_apex:
  "di_Lookup ''example.com'' (index_run [IAdd ''*.example.com'' 7] NewDomainIndex) = {7}"
  by code_simp

end
