(* ===== verification/Key_Index.thy ===== *)
theory Key_Index
  imports Main
begin

text \<open>
  The key indexes of \<open>src/lib/index/index.go\<close>: four maps with the same contract.  The contract is the
  locale \<open>key_index\<close>; what a client may conclude from it (a lookup answers with the last operation
  that concerns the key) is proved once there and holds for all four.  \<open>AnyIntIndex\<close> also closes the idle
  connections of the values it drops; the closed values are recorded in its state.
\<close>

datatype ('k, 'v) index_step = SAdd 'k 'v | SRemove 'k | SClear

text \<open>The operation that decides the answer for a key: its last addition since its last removal.\<close>

fun last_value :: "'k \<Rightarrow> ('k, 'v) index_step list \<Rightarrow> 'v option \<Rightarrow> 'v option" where
  "last_value k [] r = r"
| "last_value k (SAdd k' v # ops) r = last_value k ops (if k' = k then Some v else r)"
| "last_value k (SRemove k' # ops) r = last_value k ops (if k' = k then None else r)"
| "last_value k (SClear # ops) r = last_value k ops None"

locale key_index =
  fixes new :: 'm and add :: "'k \<Rightarrow> 'v \<Rightarrow> 'm \<Rightarrow> 'm" and get :: "'k \<Rightarrow> 'm \<Rightarrow> 'v option"
    and remove :: "'k \<Rightarrow> 'm \<Rightarrow> 'm" and clear :: "'m \<Rightarrow> 'm"
  assumes get_new: "get k new = None"
    and get_add: "get k (add k' v m) = (if k' = k then Some v else get k m)"
    and get_remove: "get k (remove k' m) = (if k' = k then None else get k m)"
    and get_clear: "get k (clear m) = None"
begin

fun step :: "('k, 'v) index_step \<Rightarrow> 'm \<Rightarrow> 'm" where
  "step (SAdd k v) m = add k v m"
| "step (SRemove k) m = remove k m"
| "step SClear m = clear m"

lemma get_run: "get k (fold step ops m) = last_value k ops (get k m)"
proof (induction ops arbitrary: m)
  case (Cons op ops)
  then show ?case by (cases op) (simp_all add: get_add get_remove get_clear)
qed simp

lemma get_run_new: "get k (fold step ops new) = last_value k ops None"
  by (simp add: get_run get_new)

end

subsection \<open>StringIDIndex, StringIndex and AnyStringIndex\<close>

type_synonym StringIDIndex = "string \<rightharpoonup> int"

definition NewStringIDIndex :: StringIDIndex where "NewStringIDIndex = Map.empty"
definition sid_Add :: "string \<Rightarrow> int \<Rightarrow> StringIDIndex \<Rightarrow> StringIDIndex" where "sid_Add key i idx = idx(key \<mapsto> i)"
definition sid_Get :: "string \<Rightarrow> StringIDIndex \<Rightarrow> int option" where "sid_Get key idx = idx key"
definition sid_Remove :: "string \<Rightarrow> StringIDIndex \<Rightarrow> StringIDIndex" where "sid_Remove key idx = idx(key := None)"
definition sid_Clear :: "StringIDIndex \<Rightarrow> StringIDIndex" where "sid_Clear idx = Map.empty"

interpretation sid: key_index NewStringIDIndex sid_Add sid_Get sid_Remove sid_Clear
  by unfold_locales (simp_all add: NewStringIDIndex_def sid_Add_def sid_Get_def sid_Remove_def sid_Clear_def)

type_synonym StringIndex = "string \<rightharpoonup> string"

definition NewStringIndex :: StringIndex where "NewStringIndex = Map.empty"
definition si_Add :: "string \<Rightarrow> string \<Rightarrow> StringIndex \<Rightarrow> StringIndex" where "si_Add key v idx = idx(key \<mapsto> v)"
definition si_Get :: "string \<Rightarrow> StringIndex \<Rightarrow> string option" where "si_Get key idx = idx key"
definition si_Remove :: "string \<Rightarrow> StringIndex \<Rightarrow> StringIndex" where "si_Remove key idx = idx(key := None)"
definition si_Clear :: "StringIndex \<Rightarrow> StringIndex" where "si_Clear idx = Map.empty"

interpretation si: key_index NewStringIndex si_Add si_Get si_Remove si_Clear
  by unfold_locales (simp_all add: NewStringIndex_def si_Add_def si_Get_def si_Remove_def si_Clear_def)

type_synonym 'v AnyStringIndex = "string \<rightharpoonup> 'v"

definition NewAnyStringIndex :: "'v AnyStringIndex" where "NewAnyStringIndex = Map.empty"
definition as_Add :: "string \<Rightarrow> 'v \<Rightarrow> 'v AnyStringIndex \<Rightarrow> 'v AnyStringIndex" where "as_Add key v idx = idx(key \<mapsto> v)"
definition as_Get :: "string \<Rightarrow> 'v AnyStringIndex \<Rightarrow> 'v option" where "as_Get key idx = idx key"
definition as_Remove :: "string \<Rightarrow> 'v AnyStringIndex \<Rightarrow> 'v AnyStringIndex" where "as_Remove key idx = idx(key := None)"
definition as_Clear :: "'v AnyStringIndex \<Rightarrow> 'v AnyStringIndex" where "as_Clear idx = Map.empty"

interpretation as: key_index NewAnyStringIndex as_Add as_Get as_Remove as_Clear
  by unfold_locales (simp_all add: NewAnyStringIndex_def as_Add_def as_Get_def as_Remove_def as_Clear_def)

subsection \<open>AnyIntIndex\<close>

text \<open>
  \<open>closes v\<close> tells whether the value has a \<open>CloseIdleConnections\<close> method.  The values on which it was
  called are kept in a set: the order of a map iteration is unspecified.
\<close>

record 'v AnyIntIndex =
  ai_data :: "int \<rightharpoonup> 'v"
  ai_closed :: "'v set"

definition NewAnyIntIndex :: "'v AnyIntIndex" where
  "NewAnyIntIndex = \<lparr>ai_data = Map.empty, ai_closed = {}\<rparr>"

definition ai_Add :: "int \<Rightarrow> 'v \<Rightarrow> 'v AnyIntIndex \<Rightarrow> 'v AnyIntIndex" where
  "ai_Add key v idx = idx\<lparr>ai_data := (ai_data idx)(key \<mapsto> v)\<rparr>"

definition LoadOrStore :: "int \<Rightarrow> 'v \<Rightarrow> 'v AnyIntIndex \<Rightarrow> ('v \<times> bool) \<times> 'v AnyIntIndex" where
  "LoadOrStore key v idx =
     (case ai_data idx key of
        Some old \<Rightarrow> ((old, True), idx)
      | None \<Rightarrow> ((v, False), ai_Add key v idx))"

definition CompareAndDelete :: "int \<Rightarrow> 'v \<Rightarrow> 'v AnyIntIndex \<Rightarrow> bool \<times> 'v AnyIntIndex" where
  "CompareAndDelete key expected idx =
     (if ai_data idx key = Some expected then (True, idx\<lparr>ai_data := (ai_data idx)(key := None)\<rparr>) else (False, idx))"

definition ai_Get :: "int \<Rightarrow> 'v AnyIntIndex \<Rightarrow> 'v option" where
  "ai_Get key idx = ai_data idx key"

definition ai_Remove :: "('v \<Rightarrow> bool) \<Rightarrow> int \<Rightarrow> 'v AnyIntIndex \<Rightarrow> 'v AnyIntIndex" where
  "ai_Remove closes key idx =
     (case ai_data idx key of
        None \<Rightarrow> idx
      | Some v \<Rightarrow>
          \<lparr>ai_data = (ai_data idx)(key := None),
           ai_closed = (if closes v then insert v (ai_closed idx) else ai_closed idx)\<rparr>)"

definition ai_Clear :: "('v \<Rightarrow> bool) \<Rightarrow> 'v AnyIntIndex \<Rightarrow> 'v AnyIntIndex" where
  "ai_Clear closes idx =
     \<lparr>ai_data = Map.empty, ai_closed = ai_closed idx \<union> {v \<in> ran (ai_data idx). closes v}\<rparr>"

interpretation ai: key_index NewAnyIntIndex ai_Add ai_Get "ai_Remove closes" "ai_Clear closes" for closes
  by unfold_locales
    (auto simp: NewAnyIntIndex_def ai_Add_def ai_Get_def ai_Remove_def ai_Clear_def split: option.splits)

lemma LoadOrStore_get: "ai_Get key (snd (LoadOrStore key v idx)) = Some (fst (fst (LoadOrStore key v idx)))"
  by (simp add: LoadOrStore_def ai_Get_def ai_Add_def split: option.splits)


end
