(* ===== verification/Netip.thy ===== *)
theory Netip
  imports Prelude Go_Strings
begin

text \<open>
  The IP addresses and prefixes of Go's packages \<open>net/netip\<close> and \<open>net\<close>, as far as the modelled code uses
  them.  An address is its bytes in network order, an IPv6 address with its zone; the zero value of
  \<open>netip.Addr\<close> and a nil \<open>net.IP\<close> are \<open>None\<close>.
\<close>

subsection \<open>Addresses\<close>

datatype Addr = IPv4 bytes | IPv6 bytes string

definition addr_ok :: "Addr \<Rightarrow> bool" where
  "addr_ok a = (case a of IPv4 b \<Rightarrow> length b = 4 | IPv6 b z \<Rightarrow> length b = 16)"

definition mapped_prefix :: bytes where
  "mapped_prefix = replicate 10 0 @ [255, 255]"

definition Is4 :: "Addr \<Rightarrow> bool" where
  "Is4 a = (case a of IPv4 _ \<Rightarrow> True | IPv6 _ _ \<Rightarrow> False)"

definition Is4In6 :: "Addr \<Rightarrow> bool" where
  "Is4In6 a = (case a of IPv4 _ \<Rightarrow> False | IPv6 b _ \<Rightarrow> take 12 b = mapped_prefix)"

definition Unmap :: "Addr \<Rightarrow> Addr" where
  "Unmap a = (case a of IPv4 b \<Rightarrow> IPv4 b | IPv6 b z \<Rightarrow> if Is4In6 a then IPv4 (drop 12 b) else a)"

definition AddrFromSlice :: "bytes \<Rightarrow> Addr option" where
  "AddrFromSlice b =
     (if length b = 4 then Some (IPv4 b) else if length b = 16 then Some (IPv6 b []) else None)"

definition As16 :: "Addr \<Rightarrow> bytes" where
  "As16 a = (case a of IPv4 b \<Rightarrow> mapped_prefix @ b | IPv6 b _ \<Rightarrow> b)"

definition Zone :: "Addr \<Rightarrow> string" where
  "Zone a = (case a of IPv4 _ \<Rightarrow> [] | IPv6 _ z \<Rightarrow> z)"

definition BitLen :: "Addr \<Rightarrow> nat" where
  "BitLen a = (if Is4 a then 32 else 128)"

subsection \<open>Parsing\<close>

text \<open>A decimal octet of \<open>ParseAddr\<close>: digits only, no leading zero, at most 255.\<close>

definition v4_field :: "string \<Rightarrow> bool" where
  "v4_field s \<longleftrightarrow> s \<noteq> [] \<and> list_all is_digit s \<and> (1 < length s \<longrightarrow> byte_of (hd s) \<noteq> 48) \<and> dec_value s \<le> 255"

definition parseIPv4Fields :: "string \<Rightarrow> bytes option" where
  "parseIPv4Fields s =
     (let ps = Split s CHR ''.''
      in if length ps = 4 \<and> list_all v4_field ps then Some (map (\<lambda>p. word_of_nat (dec_value p)) ps) else None)"

definition hex_digit :: "char \<Rightarrow> nat option" where
  "hex_digit c =
     (let n = byte_of c
      in if 48 \<le> n \<and> n \<le> 57 then Some (n - 48)
         else if 97 \<le> n \<and> n \<le> 102 then Some (n - 87)
         else if 65 \<le> n \<and> n \<le> 70 then Some (n - 55) else None)"

definition is_hex :: "char \<Rightarrow> bool" where
  "is_hex c \<longleftrightarrow> hex_digit c \<noteq> None"

definition hex_value :: "string \<Rightarrow> nat" where
  "hex_value s = foldl (\<lambda>n c. 16 * n + the (hex_digit c)) 0 s"

text \<open>
  The groups of an IPv6 address: the bytes so far, the position of the ellipsis and the unparsed rest;
  the first argument counts the groups still to come.
\<close>

fun v6_groups :: "nat \<Rightarrow> string \<Rightarrow> bytes \<Rightarrow> nat option \<Rightarrow> (bytes \<times> nat option \<times> string) option" where
  "v6_groups 0 s ip el = Some (ip, el, s)"
| "v6_groups (Suc n) s ip el =
     (let h = takeWhile is_hex s; r = dropWhile is_hex s
      in if h = [] \<or> 4 < length h then None
         else if r \<noteq> [] \<and> hd r = CHR ''.'' then
           (if el = None \<and> length ip \<noteq> 12 \<or> 16 < length ip + 4 then None
            else map_option (\<lambda>f. (ip @ f, el, [])) (parseIPv4Fields s))
         else
           (let ip = ip @ [word_of_nat (hex_value h div 256), word_of_nat (hex_value h mod 256)]
            in if r = [] then Some (ip, el, [])
               else if hd r \<noteq> CHR '':'' \<or> tl r = [] then None
               else
                 (let s = tl r
                  in if hd s = CHR '':'' then
                       (if el \<noteq> None then None
                        else if tl s = [] then Some (ip, Some (length ip), [])
                        else v6_groups n (tl s) ip (Some (length ip)))
                     else v6_groups n s ip el)))"

definition v6_expand :: "bytes \<times> nat option \<times> string \<Rightarrow> bytes option" where
  "v6_expand r =
     (case r of (ip, el, s) \<Rightarrow>
        if s \<noteq> [] then None
        else if length ip < 16 then
          map_option (\<lambda>e. take e ip @ replicate (16 - length ip) 0 @ drop e ip) el
        else if el \<noteq> None then None else Some ip)"

definition parseIPv6 :: "string \<Rightarrow> Addr option" where
  "parseIPv6 s0 =
     (let zoned = (CHR ''%'' \<in> set s0); zone = tl (dropWhile (\<lambda>c. c \<noteq> CHR ''%'') s0);
          s = takeWhile (\<lambda>c. c \<noteq> CHR ''%'') s0
      in if zoned \<and> zone = [] then None
         else
           (let z = (if zoned then zone else [])
            in if HasPrefix s ''::'' then
                 (if s = ''::'' then Some (IPv6 (replicate 16 0) z)
                  else map_option (\<lambda>b. IPv6 b z)
                         (Option.bind (v6_groups 8 (drop 2 s) [] (Some 0)) v6_expand))
               else map_option (\<lambda>b. IPv6 b z) (Option.bind (v6_groups 8 s [] None) v6_expand)))"

definition ParseAddr :: "string \<Rightarrow> Addr option" where
  "ParseAddr s =
     (case find (\<lambda>c. c \<in> {CHR ''.'', CHR '':'', CHR ''%''}) s of
        None \<Rightarrow> None
      | Some c \<Rightarrow>
          if c = CHR ''.'' then map_option IPv4 (parseIPv4Fields s)
          else if c = CHR '':'' then parseIPv6 s else None)"

text \<open>\<open>net.ParseIP\<close>: the 16-byte form, no zone.\<close>

definition ParseIP :: "string \<Rightarrow> bytes option" where
  "ParseIP s = (case ParseAddr s of None \<Rightarrow> None | Some a \<Rightarrow> if Zone a \<noteq> [] then None else Some (As16 a))"

definition To4 :: "bytes \<Rightarrow> bytes option" where
  "To4 ip =
     (if length ip = 4 then Some ip
      else if length ip = 16 \<and> take 12 ip = mapped_prefix then Some (drop 12 ip) else None)"

definition To16 :: "bytes \<Rightarrow> bytes option" where
  "To16 ip = (if length ip = 4 then Some (mapped_prefix @ ip) else if length ip = 16 then Some ip else None)"

subsection \<open>Prefixes\<close>

record Prefix =
  pf_addr :: Addr
  pf_bits :: int

text \<open>The first \<open>n\<close> bits of a byte string, the others cleared.\<close>

fun mask_bytes :: "nat \<Rightarrow> bytes \<Rightarrow> bytes" where
  "mask_bytes n [] = []"
| "mask_bytes n (b # bs) =
     (if 8 \<le> n then b else b AND NOT (mask (8 - n))) # mask_bytes (n - 8) bs"

definition map_addr :: "(bytes \<Rightarrow> bytes) \<Rightarrow> Addr \<Rightarrow> Addr" where
  "map_addr f a = (case a of IPv4 b \<Rightarrow> IPv4 (f b) | IPv6 b z \<Rightarrow> IPv6 (f b) z)"

definition WithoutZone :: "Addr \<Rightarrow> Addr" where
  "WithoutZone a = (case a of IPv4 b \<Rightarrow> IPv4 b | IPv6 b _ \<Rightarrow> IPv6 b [])"

text \<open>\<open>PrefixFrom\<close> drops the zone; a bit count out of range gives an invalid prefix (\<open>None\<close>).\<close>

definition PrefixFrom :: "Addr \<Rightarrow> int \<Rightarrow> Prefix option" where
  "PrefixFrom a bits =
     (if 0 \<le> bits \<and> bits \<le> int (BitLen a) then Some \<lparr>pf_addr = WithoutZone a, pf_bits = bits\<rparr> else None)"

definition Masked :: "Prefix \<Rightarrow> Prefix" where
  "Masked p = p\<lparr>pf_addr := map_addr (mask_bytes (nat (pf_bits p))) (pf_addr p)\<rparr>"

definition pf_Contains :: "Prefix \<Rightarrow> Addr \<Rightarrow> bool" where
  "pf_Contains p a \<longleftrightarrow>
     Zone a = [] \<and> Is4 (pf_addr p) = Is4 a \<and>
     map_addr (mask_bytes (nat (pf_bits p))) (pf_addr p) = map_addr (mask_bytes (nat (pf_bits p))) a"

text \<open>A bit count of \<open>ParsePrefix\<close>: digits, no sign, no leading zero.\<close>

definition ParsePrefix :: "string \<Rightarrow> Prefix option" where
  "ParsePrefix s =
     (case LastIndexByte s CHR ''/'' of
        None \<Rightarrow> None
      | Some i \<Rightarrow>
          (case ParseAddr (take i s) of
             None \<Rightarrow> None
           | Some a \<Rightarrow>
               (let bits = drop (Suc i) s
                in if Zone a \<noteq> [] then None
                   else if bits = [] \<or> \<not> list_all is_digit bits \<or> 1 < length bits \<and> byte_of (hd bits) = 48 then None
                   else if BitLen a < dec_value bits then None
                   else Some \<lparr>pf_addr = a, pf_bits = int (dec_value bits)\<rparr>)))"

subsection \<open>Dotted decimal\<close>

lemma Itoa_leading: "1 < length (Itoa_nat n) \<Longrightarrow> byte_of (hd (Itoa_nat n)) \<noteq> 48"
proof (induction n rule: Itoa_nat.induct)
  case (1 n)
  show ?case
  proof (cases "n < 10")
    case True
    then show ?thesis using 1(2) by (simp add: Itoa_nat.simps [of n])
  next
    case False
    have ne: "Itoa_nat (n div 10) \<noteq> []" using Itoa_digits by blast
    show ?thesis
    proof (cases "1 < length (Itoa_nat (n div 10))")
      case True
      with 1(1) False ne show ?thesis by (simp add: Itoa_nat.simps [of n])
    next
      case short: False
      then have "n div 10 < 10"
        using Itoa_digits [of "n div 10 div 10"] by (cases "n div 10 < 10") (auto simp: Itoa_nat.simps [of "n div 10"])
      with False show ?thesis
        by (simp add: Itoa_nat.simps [of n] Itoa_nat.simps [of "n div 10"] byte_of_char_of)
    qed
  qed
qed

lemma v4_field_Itoa: "n \<le> 255 \<Longrightarrow> v4_field (Itoa_nat n)"
  using Itoa_digits [of n] Itoa_leading [of n] by (auto simp: v4_field_def)

lemma Itoa_chars: "c \<in> set (Itoa_nat n) \<Longrightarrow> is_digit c"
  using Itoa_digits [of n] by (auto simp: list_all_iff)

lemma not_digit_in_Itoa: "\<not> is_digit c \<Longrightarrow> c \<notin> set (Itoa_nat n)"
  using Itoa_chars by blast

lemma punct_not_digit [simp]:
  "\<not> is_digit CHR ''.''" "\<not> is_digit CHR '':''" "\<not> is_digit CHR ''%''" "\<not> is_digit CHR ''*''"
  "\<not> is_digit CHR ''/''" "\<not> is_digit CHR '',''" "\<not> is_digit CHR ''-''"
  by (simp_all add: is_digit_def byte_of_def)

lemma set_Join: "set (Join ps sep) \<subseteq> insert sep (\<Union>p \<in> set ps. set p)"
  by (induction ps sep rule: Join.induct) auto

lemma sep_in_Join: "2 \<le> length ps \<Longrightarrow> sep \<in> set (Join ps sep)"
  by (induction ps sep rule: Join.induct) auto

lemma find_unique: "c \<in> set s \<Longrightarrow> P c \<Longrightarrow> \<forall>d \<in> set s. P d \<longrightarrow> d = c \<Longrightarrow> find P s = Some c"
proof (induction s)
  case (Cons a s)
  show ?case
  proof (cases "P a")
    case True
    have "a = c"
      using Cons.prems(3) True by (meson list.set_intros(1))
    with True show ?thesis by simp
  next
    case False
    then have "c \<in> set s"
      using Cons.prems(1,2) by auto
    then have "find P s = Some c"
      using Cons.IH Cons.prems(2,3) by (meson list.set_intros(2))
    with False show ?thesis by simp
  qed
qed simp

lemma ParseAddr_dotted:
  assumes "length os = 4" "\<forall>n \<in> set os. n \<le> 255"
  shows "ParseAddr (Join (map Itoa_nat os) CHR ''.'') = Some (IPv4 (map word_of_nat os))"
proof -
  let ?s = "Join (map Itoa_nat os) CHR ''.''"
  have split: "Split ?s CHR ''.'' = map Itoa_nat os"
    using assms(1) not_digit_in_Itoa by (intro Split_Join) auto
  have "CHR ''.'' \<in> set ?s"
    using assms(1) by (intro sep_in_Join) simp
  moreover have "c = CHR ''.''" if "c \<in> set ?s" "c \<in> {CHR ''.'', CHR '':'', CHR ''%''}" for c
    using that set_Join [of "map Itoa_nat os" "CHR ''.''"] Itoa_chars by fastforce
  ultimately have f: "find (\<lambda>c. c \<in> {CHR ''.'', CHR '':'', CHR ''%''}) ?s = Some CHR ''.''"
    by (intro find_unique) blast+
  have "parseIPv4Fields ?s = Some (map word_of_nat os)"
    using assms Itoa_digits v4_field_Itoa by (auto simp: parseIPv4Fields_def split list_all_iff)
  then show ?thesis unfolding ParseAddr_def f by simp
qed

end
