(* ===== verification/Common_Addr.thy ===== *)
theory Common_Addr
  imports Netip
begin

text \<open>
  Host, port and address strings (\<open>src/lib/common/addr.go\<close>, \<open>addr_network.go\<close>): taking hosts and ports
  out of addresses, port lists, the 17-byte encoding of an IP address, and the choice of the local
  address offered to a peer.

  \<open>url_host s\<close> stands for the host part of \<open>url.Parse s\<close> (\<open>None\<close> when parsing fails or the host is
  empty).  A slice index the source has guarded is \<open>take\<close> or \<open>drop\<close>.
\<close>

subsection \<open>Hosts and ports\<close>

definition parsePortString :: "string \<Rightarrow> int option" where
  "parsePortString s =
     (case Atoi (TrimSpace s) of
        None \<Rightarrow> None
      | Some p \<Rightarrow> if p < 1 \<or> 65535 < p then None else Some p)"

definition ExtractHost :: "(string \<Rightarrow> string option) \<Rightarrow> string \<Rightarrow> string" where
  "ExtractHost url_host input =
     (case (if Contains input ''://'' then url_host input else None) of
        Some h \<Rightarrow> h
      | None \<Rightarrow> (case IndexByte input CHR ''/'' of Some i \<Rightarrow> take i input | None \<Rightarrow> input))"

definition RemovePortFromHost :: "string \<Rightarrow> string" where
  "RemovePortFromHost host =
     (if host = [] then host
      else if hd host = CHR ''['' then
        (case IndexByte host CHR '']'' of Some i \<Rightarrow> take (Suc i) host | None \<Rightarrow> [])
      else
        (case LastIndexByte host CHR '':'' of
           Some i \<Rightarrow> if IndexByte host CHR '':'' = Some i then take i host else host
         | None \<Rightarrow> host))"

definition GetIpByAddr :: "string \<Rightarrow> string" where
  "GetIpByAddr host =
     (if host = [] then host
      else if hd host = CHR ''['' then
        (case IndexByte host CHR '']'' of Some i \<Rightarrow> drop 1 (take i host) | None \<Rightarrow> [])
      else
        (case LastIndexByte host CHR '':'' of
           Some i \<Rightarrow> if IndexByte host CHR '':'' = Some i then take i host else host
         | None \<Rightarrow> host))"

definition IsDomain :: "string \<Rightarrow> bool" where
  "IsDomain s \<longleftrightarrow> ParseIP s = None"

definition GetPortByAddr :: "string \<Rightarrow> int" where
  "GetPortByAddr addr =
     (if addr = [] then 0
      else if hd addr = CHR ''['' then
        (case IndexByte addr CHR '']'' of
           None \<Rightarrow> 0
         | Some e \<Rightarrow>
             if Suc e < length addr \<and> addr ! Suc e = CHR '':''
             then (case parsePortString (drop (e + 2) addr) of Some port \<Rightarrow> port | None \<Rightarrow> 0) else 0)
      else
        (case LastIndexByte addr CHR '':'' of
           None \<Rightarrow> 0
         | Some i \<Rightarrow> (case parsePortString (drop (Suc i) addr) of Some port \<Rightarrow> port | None \<Rightarrow> 0)))"

definition SplitServerAndPath :: "string \<Rightarrow> string \<times> string" where
  "SplitServerAndPath s = (case IndexByte s CHR ''/'' of None \<Rightarrow> (s, []) | Some i \<Rightarrow> (take i s, drop i s))"

definition GetSni :: "string \<Rightarrow> string" where
  "GetSni host = (let sni = GetIpByAddr host in if \<not> IsDomain sni then [] else sni)"

definition SplitAddrAndHost :: "string \<Rightarrow> string \<times> string \<times> string" where
  "SplitAddrAndHost s0 =
     (let s = TrimSpace s0
      in case IndexByte s CHR ''@'' of
           None \<Rightarrow> (s, s, GetSni s)
         | Some i \<Rightarrow>
             (let addr = TrimSpace (take i s); host = TrimSpace (drop (Suc i) s)
              in if host = [] then (addr, addr, []) else (addr, host, GetSni host)))"

definition isDomainLabel :: "string \<Rightarrow> bool" where
  "isDomainLabel label \<longleftrightarrow>
     label \<noteq> [] \<and> length label \<le> 63 \<and> hd label \<noteq> CHR ''-'' \<and> last label \<noteq> CHR ''-'' \<and>
     list_all (\<lambda>ch. (let n = byte_of ch in 97 \<le> n \<and> n \<le> 122 \<or> 65 \<le> n \<and> n \<le> 90 \<or> 48 \<le> n \<and> n \<le> 57) \<or> ch = CHR ''-'') label"

text \<open>\<open>url_name\<close>: the host name of a URL without a port, \<open>None\<close> if there is none.\<close>

definition DomainCheck :: "(string \<Rightarrow> string option) \<Rightarrow> string \<Rightarrow> bool" where
  "DomainCheck url_name domain0 =
     (let domain = TrimSpace domain0;
          host = (if Contains domain ''://'' then url_name domain
                  else
                    (let d = (case IndexByte domain CHR ''/'' of Some i \<Rightarrow> take i domain | None \<Rightarrow> domain)
                     in if ContainsAny d ''?#'' then None else Some d))
      in domain \<noteq> [] \<and>
         (case host of
            None \<Rightarrow> False
          | Some h \<Rightarrow>
              (let d = TrimSuffix (ToLower (TrimSpace h)) ''.''; labels = Split d CHR ''.''; tld = last labels
               in d \<noteq> [] \<and> length d \<le> 253 \<and> ParseIP d = None \<and> 2 \<le> length labels \<and>
                  2 \<le> length tld \<and> length tld \<le> 63 \<and> list_all isDomainLabel labels)))"

definition GetPort :: "int64 \<Rightarrow> int64" where
  "GetPort v = (if 0 \<le> v then rem v 65536 else rem (65536 + rem v 65536) 65536)"

text \<open>\<open>GetPorts\<close>: the set of ports of one comma-separated item, and the sorted list of all of them.\<close>

definition ports_item :: "string \<Rightarrow> int set \<Rightarrow> int set" where
  "ports_item item0 seen =
     (let item = TrimSpace item0
      in if item = [] then seen
         else
           (case Cut item CHR ''-'' of
              Some (a, b) \<Rightarrow>
                (case (parsePortString (TrimSpace a), parsePortString (TrimSpace b)) of
                   (Some s, Some e) \<Rightarrow> seen \<union> {min s e..max s e}
                 | _ \<Rightarrow> seen)
            | None \<Rightarrow> (case parsePortString item of Some port \<Rightarrow> insert port seen | None \<Rightarrow> seen)))"

definition GetPorts :: "string \<Rightarrow> int list" where
  "GetPorts s =
     (if TrimSpace s = [] then [] else sorted_list_of_set (fold ports_item (Split s CHR '','') {}))"

definition IsPort :: "string \<Rightarrow> bool" where
  "IsPort p \<longleftrightarrow> parsePortString p \<noteq> None"

definition FormatAddress :: "string \<Rightarrow> string" where
  "FormatAddress s = (if Contains s '':'' then s else ''127.0.0.1:'' @ s)"

text \<open>\<open>net.SplitHostPort\<close>.\<close>

definition SplitHostPort :: "string \<Rightarrow> (string \<times> string) option" where
  "SplitHostPort s =
     (case LastIndexByte s CHR '':'' of
        None \<Rightarrow> None
      | Some i \<Rightarrow>
          (if hd s = CHR ''['' then
             (case IndexByte s CHR '']'' of
                None \<Rightarrow> None
              | Some e \<Rightarrow>
                  if Suc e \<noteq> i \<or> CHR ''['' \<in> set (drop 1 s) \<or> CHR '']'' \<in> set (drop (Suc e) s) then None
                  else Some (drop 1 (take e s), drop (Suc i) s))
           else if CHR '':'' \<in> set (take i s) \<or> CHR ''['' \<in> set s \<or> CHR '']'' \<in> set s then None
           else Some (take i s, drop (Suc i) s)))"

definition ValidateAddr :: "string \<Rightarrow> string" where
  "ValidateAddr s =
     (case SplitHostPort s of
        None \<Rightarrow> []
      | Some (host, port) \<Rightarrow> if ParseIP host = None \<or> parsePortString port = None then [] else s)"

subsection \<open>IP addresses\<close>

definition NormalizeIP :: "bytes option \<Rightarrow> bytes option" where
  "NormalizeIP ip =
     (case ip of None \<Rightarrow> None | Some b \<Rightarrow> (case To4 b of Some v4 \<Rightarrow> Some v4 | None \<Rightarrow> To16 b))"

text \<open>The bytes of an IP address, at most 16, behind a type byte; \<open>copy\<close> leaves the rest zero.\<close>

definition EncodeIP :: "bytes option \<Rightarrow> bytes" where
  "EncodeIP ip =
     (case Option.bind ip To4 of
        Some v4 \<Rightarrow> 1 # v4 @ replicate 12 0
      | None \<Rightarrow> 4 # (case Option.bind ip To16 of Some b \<Rightarrow> b | None \<Rightarrow> replicate 16 0))"

definition DecodeIP :: "bytes \<Rightarrow> bytes option" where
  "DecodeIP data =
     (if length data < 17 then None
      else
        (let addr = take 16 (drop 1 data)
         in if hd data = 1 then Some (mapped_prefix @ take 4 addr)
            else if hd data = 4 then Some addr else None))"

definition ParseIPFromAddr :: "string \<Rightarrow> bytes option" where
  "ParseIPFromAddr addr =
     (if addr = [] then None
      else
        (let ipStr = GetIpByAddr addr
         in if ipStr = [] then None
            else ParseIP (case LastIndexByte ipStr CHR ''%'' of Some i \<Rightarrow> take i ipStr | None \<Rightarrow> ipStr)))"

definition SplitCommaAddrList :: "string \<Rightarrow> string list" where
  "SplitCommaAddrList s =
     (if s = [] then []
      else
        foldl (\<lambda>out p. let v = (if TrimSpace p = [] then [] else ValidateAddr (TrimSpace p))
                       in if v = [] \<or> v \<in> set out then out else out @ [v])
          [] (Split s CHR '',''))"

text \<open>The predicates of \<open>net.IP\<close> on the normalised form.\<close>

definition ip_unspecified :: "bytes \<Rightarrow> bool" where
  "ip_unspecified ip \<longleftrightarrow> ip = replicate 4 0 \<or> ip = replicate 16 0"

definition ip_loopback :: "bytes \<Rightarrow> bool" where
  "ip_loopback ip \<longleftrightarrow> length ip = 4 \<and> hd ip = 127 \<or> ip = replicate 15 0 @ [1]"

definition ip_multicast :: "bytes \<Rightarrow> bool" where
  "ip_multicast ip \<longleftrightarrow> length ip = 4 \<and> hd ip AND 0xf0 = 0xe0 \<or> length ip = 16 \<and> hd ip = 255"

definition ip_linklocal :: "bytes \<Rightarrow> bool" where
  "ip_linklocal ip \<longleftrightarrow>
     length ip = 4 \<and> ip ! 0 = 169 \<and> ip ! 1 = 254 \<or> length ip = 16 \<and> ip ! 0 = 0xfe \<and> ip ! 1 AND 0xc0 = 0x80"

definition ip_private :: "bytes \<Rightarrow> bool" where
  "ip_private ip \<longleftrightarrow>
     length ip = 4 \<and> (ip ! 0 = 10 \<or> ip ! 0 = 172 \<and> ip ! 1 AND 0xf0 = 16 \<or> ip ! 0 = 192 \<and> ip ! 1 = 168) \<or>
     length ip = 16 \<and> ip ! 0 AND 0xfe = 0xfc"

definition ip_broadcast :: "bytes \<Rightarrow> bool" where
  "ip_broadcast ip \<longleftrightarrow> ip = replicate 4 255"

definition IsPublicIPStrict :: "bytes option \<Rightarrow> bool" where
  "IsPublicIPStrict ip0 =
     (case NormalizeIP ip0 of
        None \<Rightarrow> False
      | Some ip \<Rightarrow>
          if ip_broadcast ip \<or> ip_private ip \<or> ip_loopback ip \<or> ip_linklocal ip \<or> ip_multicast ip \<or> ip_unspecified ip
          then False
          else if length ip = 4 then
            \<not> (ip ! 0 = 100 \<and> 64 \<le> ip ! 1 \<and> ip ! 1 \<le> 127 \<or>
               ip ! 0 = 192 \<and> ip ! 1 = 0 \<and> ip ! 2 = 2 \<or>
               ip ! 0 = 198 \<and> ip ! 1 = 51 \<and> ip ! 2 = 100 \<or>
               ip ! 0 = 203 \<and> ip ! 1 = 0 \<and> ip ! 2 = 113 \<or>
               ip ! 0 = 198 \<and> (ip ! 1 = 18 \<or> ip ! 1 = 19) \<or>
               ip ! 0 = 192 \<and> ip ! 1 = 88 \<and> ip ! 2 = 99)
          else \<not> (ip ! 0 = 0x20 \<and> ip ! 1 = 1 \<and> ip ! 2 = 0x0d \<and> ip ! 3 = 0xb8))"

text \<open>The loop of \<open>PickBestV4V6FromLocalList\<close>: the best address of each family and whether it is public.\<close>

fun pick_best :: "string list \<Rightarrow> string \<times> bool \<Rightarrow> string \<times> bool \<Rightarrow> string \<times> string" where
  "pick_best [] v4 v6 = (fst v4, fst v6)"
| "pick_best (a # addrs) v4 v6 =
     (case ParseIPFromAddr a of
        None \<Rightarrow> pick_best addrs v4 v6
      | Some ip \<Rightarrow>
          (let pub = IsPublicIPStrict (Some ip)
           in if To4 ip \<noteq> None then
                pick_best addrs (if fst v4 = [] \<or> \<not> snd v4 \<and> pub then (a, pub) else v4) v6
              else pick_best addrs v4 (if fst v6 = [] \<or> \<not> snd v6 \<and> pub then (a, pub) else v6)))"

definition PickBestV4V6FromLocalList :: "string \<Rightarrow> string \<times> string \<times> string" where
  "PickBestV4V6FromLocalList localStr =
     (case SplitCommaAddrList localStr of
        [] \<Rightarrow> ([], [], [])
      | a # addrs \<Rightarrow> (let (v4, v6) = pick_best (a # addrs) ([], False) ([], False) in (v4, v6, a)))"

definition HasIPv6InLocalList :: "string \<Rightarrow> bool" where
  "HasIPv6InLocalList localStr \<longleftrightarrow> fst (snd (PickBestV4V6FromLocalList localStr)) \<noteq> []"

definition ChooseLocalAddrForPeer :: "string \<Rightarrow> string \<Rightarrow> string" where
  "ChooseLocalAddrForPeer selfLocal peerLocal =
     (case PickBestV4V6FromLocalList selfLocal of
        (selfV4, selfV6, selfFallback) \<Rightarrow>
          if selfV6 \<noteq> [] \<and> HasIPv6InLocalList peerLocal then selfV6
          else if selfV4 \<noteq> [] then selfV4
          else if selfV6 \<noteq> [] then selfV6 else selfFallback)"

subsection \<open>Port lists\<close>

lemma digit_not_space: "is_digit c \<Longrightarrow> \<not> is_space c"
  by (auto simp: is_digit_def is_space_def)

lemma TrimSpace_id:
  assumes "s = [] \<or> \<not> is_space (hd s) \<and> \<not> is_space (last s)"
  shows "TrimSpace s = s"
proof (cases "s = []")
  case False
  then have "dropWhile is_space s = s" "dropWhile is_space (rev s) = rev s"
    using assms by (simp_all add: dropWhile_eq_self_iff hd_rev)
  then show ?thesis by (simp add: TrimSpace_def)
qed simp

lemma TrimSpace_nonempty:
  assumes "s \<noteq> []" "\<not> is_space (hd s)"
  shows "TrimSpace s \<noteq> []"
proof -
  have "dropWhile is_space s = s"
    using assms by (simp add: dropWhile_eq_self_iff)
  moreover have "hd s \<in> set (rev s)"
    using assms(1) by simp
  ultimately show ?thesis
    using assms(2) by (auto simp: TrimSpace_def dropWhile_eq_Nil_conv simp del: set_rev)
qed

lemma digits_hd_last:
  assumes "list_all is_digit s" "s \<noteq> []"
  shows "is_digit (hd s)" "is_digit (last s)"
  using assms by (auto simp: list_all_iff)

lemma TrimSpace_digits: "list_all is_digit s \<Longrightarrow> TrimSpace s = s"
  using digits_hd_last digit_not_space by (intro TrimSpace_id) blast

lemma Atoi_Itoa: "int n \<le> 9223372036854775807 \<Longrightarrow> Atoi (Itoa_nat n) = Some (int n)"
proof -
  have i: "list_all is_digit (Itoa_nat n)" "Itoa_nat n \<noteq> []" "dec_value (Itoa_nat n) = n"
    using Itoa_digits [of n] by auto
  moreover have "is_digit (hd (Itoa_nat n))"
    using digits_hd_last(1) [OF i(1,2)] .
  then have "hd (Itoa_nat n) \<notin> {CHR ''-'', CHR ''+''}"
    by (auto simp: is_digit_def byte_of_def)
  ultimately show "int n \<le> 9223372036854775807 \<Longrightarrow> ?thesis"
    by (simp add: Atoi_def)
qed

lemma parsePort_Itoa:
  assumes "1 \<le> n" "n \<le> 65535"
  shows "parsePortString (Itoa_nat n) = Some (int n)"
  using assms Atoi_Itoa [of n] Itoa_digits [of n] by (simp add: parsePortString_def TrimSpace_digits)

text \<open>A port list as a user writes it: single ports and ranges, in either direction.\<close>

definition print_item :: "nat \<times> nat option \<Rightarrow> string" where
  "print_item r = (case r of (a, None) \<Rightarrow> Itoa_nat a | (a, Some b) \<Rightarrow> Itoa_nat a @ CHR ''-'' # Itoa_nat b)"

definition item_ports :: "nat \<times> nat option \<Rightarrow> int set" where
  "item_ports r = (case r of (a, None) \<Rightarrow> {int a} | (a, Some b) \<Rightarrow> {int (min a b)..int (max a b)})"

definition item_ok :: "nat \<times> nat option \<Rightarrow> bool" where
  "item_ok r = (1 \<le> fst r \<and> fst r \<le> 65535 \<and> (case snd r of None \<Rightarrow> True | Some b \<Rightarrow> 1 \<le> b \<and> b \<le> 65535))"

lemma char_in_Itoa: "c \<in> set (Itoa_nat n) \<Longrightarrow> is_digit c"
  using Itoa_digits [of n] by (auto simp: list_all_iff)

lemma not_in_Itoa [simp]: "CHR ''-'' \<notin> set (Itoa_nat n)" "CHR '','' \<notin> set (Itoa_nat n)"
  using char_in_Itoa by (fastforce simp: is_digit_def byte_of_def)+

lemma print_item_shape:
  "print_item r \<noteq> []" "TrimSpace (print_item r) = print_item r" "CHR '','' \<notin> set (print_item r)"
  "\<not> is_space (hd (print_item r))"
proof -
  obtain a ob where r: "r = (a, ob)" by fastforce
  have d: "\<not> is_space (hd (Itoa_nat n))" "\<not> is_space (last (Itoa_nat n))" "Itoa_nat n \<noteq> []" for n
    using Itoa_digits [of n] digits_hd_last digit_not_space by blast+
  show "print_item r \<noteq> []" "CHR '','' \<notin> set (print_item r)" "\<not> is_space (hd (print_item r))"
    using d by (auto simp: r print_item_def split: option.splits)
  show "TrimSpace (print_item r) = print_item r"
    using d by (intro TrimSpace_id) (auto simp: r print_item_def split: option.splits)
qed

lemma ports_item_print:
  assumes "item_ok r"
  shows "ports_item (print_item r) seen = seen \<union> item_ports r"
proof -
  obtain a ob where r: "r = (a, ob)" by fastforce
  have t: "TrimSpace (Itoa_nat n) = Itoa_nat n" for n
    using Itoa_digits [of n] by (simp add: TrimSpace_digits)
  show ?thesis
  proof (cases ob)
    case None
    then have "Cut (print_item r) CHR ''-'' = None"
      by (simp add: r print_item_def Cut_def IndexByte_def)
    with None show ?thesis
      using assms print_item_shape [of r] parsePort_Itoa [of a]
      by (simp add: ports_item_def r item_ok_def print_item_def item_ports_def)
  next
    case (Some b)
    then have "Cut (print_item r) CHR ''-'' = Some (Itoa_nat a, Itoa_nat b)"
      by (simp add: r print_item_def Cut_def IndexByte_append)
    with Some show ?thesis
      using assms print_item_shape [of r] parsePort_Itoa [of a] parsePort_Itoa [of b]
      by (simp add: ports_item_def r item_ok_def item_ports_def t of_nat_min of_nat_max)
  qed
qed

lemma fold_ports_print:
  "list_all item_ok rs \<Longrightarrow> fold ports_item (map print_item rs) seen = seen \<union> (\<Union>r \<in> set rs. item_ports r)"
  by (induction rs arbitrary: seen) (auto simp: ports_item_print)

text \<open>C30: A port list written as single ports and ranges, in any order, overlapping, ranges in either
  direction, is parsed (\<open>GetPorts\<close>) to exactly the ports it names, each once and in ascending order.\<close>

theorem ports_roundtrip:
  assumes "rs \<noteq> []" "list_all item_ok rs"
  shows "set (GetPorts (Join (map print_item rs) CHR '','')) = (\<Union>r \<in> set rs. item_ports r) \<and>
     sorted (GetPorts (Join (map print_item rs) CHR '','')) \<and> distinct (GetPorts (Join (map print_item rs) CHR '',''))"
proof -
  let ?s = "Join (map print_item rs) CHR '',''"
  have split: "Split ?s CHR '','' = map print_item rs"
    using assms(1) print_item_shape(3) by (intro Split_Join) auto
  obtain r rs' where rs: "rs = r # rs'" using assms(1) by (cases rs) auto
  have "hd ?s = hd (print_item r)" "?s \<noteq> []"
    using print_item_shape(1) [of r] by (cases rs'; simp add: rs)+
  then have "TrimSpace ?s \<noteq> []"
    using print_item_shape(4) [of r] by (intro TrimSpace_nonempty) simp_all
  then have g: "GetPorts ?s = sorted_list_of_set (\<Union>r \<in> set rs. item_ports r)"
    using fold_ports_print [OF assms(2)] by (simp add: GetPorts_def split)
  have "finite (\<Union>r \<in> set rs. item_ports r)"
    by (auto simp: item_ports_def split: option.splits prod.splits)
  then show ?thesis by (simp add: g)
qed

theorem ports_roundtrip_witness:
  "set (GetPorts (Join (map print_item [(8080, None), (22, Some 20)]) CHR '','')) =
     (\<Union>r \<in> set [(8080, None), (22, Some 20)]. item_ports r) \<and>
   sorted (GetPorts (Join (map print_item [(8080, None), (22, Some 20)]) CHR '','')) \<and>
   distinct (GetPorts (Join (map print_item [(8080, None), (22, Some 20)]) CHR '',''))"
  by (rule ports_roundtrip) (simp_all add: item_ok_def)

subsection \<open>The address offered to a peer\<close>

text \<open>Reference: the first public address of the family, or else the first one.\<close>

definition is_v4 :: "string \<Rightarrow> bool" where
  "is_v4 a = (case ParseIPFromAddr a of Some ip \<Rightarrow> To4 ip \<noteq> None | None \<Rightarrow> False)"

definition is_v6 :: "string \<Rightarrow> bool" where
  "is_v6 a = (case ParseIPFromAddr a of Some ip \<Rightarrow> To4 ip = None | None \<Rightarrow> False)"

definition is_public :: "string \<Rightarrow> bool" where
  "is_public a = IsPublicIPStrict (ParseIPFromAddr a)"

definition best_of :: "string list \<Rightarrow> string" where
  "best_of xs = (case find is_public xs of Some a \<Rightarrow> a | None \<Rightarrow> (case xs of [] \<Rightarrow> [] | a # _ \<Rightarrow> a))"

text \<open>The best address when \<open>c\<close> is the candidate so far.\<close>

definition best_from :: "string \<times> bool \<Rightarrow> string list \<Rightarrow> string" where
  "best_from c xs =
     (if fst c = [] then best_of xs else if snd c then fst c
      else case find is_public xs of Some a \<Rightarrow> a | None \<Rightarrow> fst c)"

lemma best_from_step:
  assumes "a \<noteq> []"
  shows "best_from (if fst c = [] \<or> \<not> snd c \<and> is_public a then (a, is_public a) else c) xs = best_from c (a # xs)"
  using assms by (auto simp: best_from_def best_of_def split: option.splits)

lemma pick_best_eq:
  "\<forall>a \<in> set addrs. a \<noteq> [] \<Longrightarrow>
   pick_best addrs v4 v6 = (best_from v4 (filter is_v4 addrs), best_from v6 (filter is_v6 addrs))"
proof (induction addrs v4 v6 rule: pick_best.induct)
  case (1 v4 v6)
  then show ?case by (simp add: best_from_def best_of_def)
next
  case (2 a addrs v4 v6)
  show ?case
  proof (cases "ParseIPFromAddr a")
    case None
    with 2 show ?thesis by (simp add: is_v4_def is_v6_def)
  next
    case (Some ip)
    have pub: "IsPublicIPStrict (Some ip) = is_public a"
      by (simp add: is_public_def Some)
    show ?thesis
    proof (cases "To4 ip = None")
      case True
      then have "is_v6 a" "\<not> is_v4 a" by (simp_all add: is_v4_def is_v6_def Some)
      with 2(3) [OF Some refl, unfolded pub] True 2(4) best_from_step [of a v6] show ?thesis
        by (simp add: Some pub Let_def)
    next
      case False
      then have "is_v4 a" "\<not> is_v6 a" by (simp_all add: is_v4_def is_v6_def Some)
      with 2(2) [OF Some refl, unfolded pub] False 2(4) best_from_step [of a v4] show ?thesis
        by (simp add: Some pub Let_def)
    qed
  qed
qed

lemma SplitCommaAddrList_nonempty: "a \<in> set (SplitCommaAddrList s) \<Longrightarrow> a \<noteq> []"
proof -
  define step where "step = (\<lambda>out p. let v = (if TrimSpace p = [] then [] else ValidateAddr (TrimSpace p))
                       in if v = [] \<or> v \<in> set out then out else out @ [v])"
  have step: "[] \<notin> set (step out p)" if "[] \<notin> set out" for out p
    using that by (simp add: step_def Let_def eq_commute [of "[]"])
  have "[] \<notin> set (foldl step out ps)" if "[] \<notin> set out" for ps out
    using that by (induction ps arbitrary: out) (simp_all add: step)
  then have "[] \<notin> set (foldl step [] (Split s CHR '',''))" by simp
  then have "[] \<notin> set (SplitCommaAddrList s)"
    unfolding step_def SplitCommaAddrList_def by (cases "s = []") simp_all
  then show "a \<in> set (SplitCommaAddrList s) \<Longrightarrow> a \<noteq> []" by blast
qed

text \<open>C29: The local address a side offers its peer (\<open>ChooseLocalAddrForPeer\<close>) is the documented one.
  With the valid addresses of both lists: an IPv6 address if both sides have one, else an IPv4 address,
  else an IPv6 address, and within the family the first public address, or else the first one.  The
  answer is an address of the own list, and it is empty only when that list has no valid address.\<close>

theorem choose_local_reference:
  "let own = SplitCommaAddrList selfLocal; peer = SplitCommaAddrList peerLocal;
       chosen = ChooseLocalAddrForPeer selfLocal peerLocal
   in chosen =
        (if filter is_v6 own \<noteq> [] \<and> filter is_v6 peer \<noteq> [] then best_of (filter is_v6 own)
         else if filter is_v4 own \<noteq> [] then best_of (filter is_v4 own)
         else if filter is_v6 own \<noteq> [] then best_of (filter is_v6 own)
         else if own \<noteq> [] then hd own else []) \<and>
      (chosen \<in> set own \<or> chosen = [] \<and> own = [])"
proof -
  define own where "own = SplitCommaAddrList selfLocal"
  define peer where "peer = SplitCommaAddrList peerLocal"
  have ne: "\<forall>a \<in> set own. a \<noteq> []" "\<forall>a \<in> set peer. a \<noteq> []"
    using SplitCommaAddrList_nonempty by (auto simp: own_def peer_def)
  have pick: "PickBestV4V6FromLocalList s =
      (best_of (filter is_v4 xs), best_of (filter is_v6 xs), if xs = [] then [] else hd xs)"
    if "SplitCommaAddrList s = xs" "\<forall>a \<in> set xs. a \<noteq> []" for s xs
    using that pick_best_eq [of xs "([], False)" "([], False)"]
    by (cases xs) (simp_all add: PickBestV4V6FromLocalList_def best_from_def best_of_def del: pick_best.simps)
  have best: "best_of xs \<in> set xs" if "xs \<noteq> []" for xs
    using that by (cases xs) (auto simp: best_of_def find_Some_iff split: option.splits)
  have nil: "best_of xs = [] \<longleftrightarrow> xs = []" if "\<forall>a \<in> set xs. a \<noteq> []" for xs
    using that best [of xs] by (cases "xs = []") (auto simp: best_of_def)
  have sub: "best_of (filter P own) \<in> set own" if "filter P own \<noteq> []" for P
    using best [OF that] by auto
  show ?thesis
    unfolding Let_def own_def [symmetric] peer_def [symmetric]
    using pick [OF own_def [symmetric] ne(1)] pick [OF peer_def [symmetric] ne(2)]
      nil [of "filter is_v4 own"] nil [of "filter is_v6 own"] nil [of "filter is_v6 peer"] nil [of "[]"] ne
      sub [of is_v4] sub [of is_v6] hd_in_set [of own]
    by (simp add: ChooseLocalAddrForPeer_def HasIPv6InLocalList_def)
qed

subsection \<open>The 17-byte form of an address\<close>

lemma To4_To16:
  assumes "To4 ip = Some v4"
  shows "To16 ip = Some (mapped_prefix @ v4)" "length v4 = 4"
proof -
  have "ip = mapped_prefix @ drop 12 ip" if "take 12 ip = mapped_prefix"
    using that by (metis append_take_drop_id)
  then show "To16 ip = Some (mapped_prefix @ v4)" "length v4 = 4"
    using assms by (auto simp: To4_def To16_def mapped_prefix_def split: if_splits)
qed

text \<open>The 17-byte encoding of an IP address round-trips: decoding what \<open>EncodeIP\<close> wrote, whatever
  follows it, gives the address in its 16-byte form; a missing address comes back as the unspecified
  IPv6 address.  A buffer that is too short and an unknown type byte give no address.\<close>

lemma ip_encoding_roundtrip:
  "DecodeIP (EncodeIP ip @ rest) = Some (case Option.bind ip To16 of Some b \<Rightarrow> b | None \<Rightarrow> replicate 16 0) \<and>
   length (EncodeIP ip) = 17 \<and>
   DecodeIP (take n (EncodeIP ip)) = (if n < 17 then None else DecodeIP (EncodeIP ip)) \<and>
   DecodeIP (t # rest) = (if length rest < 16 then None else if t = 1 then Some (mapped_prefix @ take 4 rest)
      else if t = 4 then Some (take 16 rest) else None)"
proof -
  have mp: "length mapped_prefix = 12" by (simp add: mapped_prefix_def)
  have len: "length (EncodeIP ip) = 17"
    using To4_To16 by (cases ip) (auto simp: EncodeIP_def To16_def mp split: option.splits if_splits)
  have dec: "DecodeIP (EncodeIP ip @ rest) = Some (case Option.bind ip To16 of Some b \<Rightarrow> b | None \<Rightarrow> replicate 16 0)"
  proof (cases "Option.bind ip To4")
    case (Some v4)
    then obtain b where b: "ip = Some b" "To4 b = Some v4" by (cases ip) auto
    from To4_To16 [OF b(2)] show ?thesis
      by (simp add: DecodeIP_def EncodeIP_def b Let_def)
  next
    case None
    have "length b = 16" if "Option.bind ip To16 = Some b" for b
      using that by (cases ip) (auto simp: To16_def mp split: if_splits)
    with None show ?thesis
      by (auto simp: DecodeIP_def EncodeIP_def Let_def split: option.split)
  qed
  show ?thesis
    using dec len by (auto simp: DecodeIP_def Let_def)
qed

end
