(* ===== verification/Policy_Host.thy ===== *)
theory Policy_Host
  imports Common_Addr
begin

text \<open>
  Host tokens and IPv4 wildcard rules of access policies (\<open>src/lib/policy/ip.go\<close>).  \<open>url_host\<close> is the
  host part of a parsed URL, as in \<open>Common_Addr\<close>.
\<close>

subsection \<open>Hosts\<close>

definition policy_normalizeHostFromAddr :: "(string \<Rightarrow> string option) \<Rightarrow> string \<Rightarrow> string" where
  "policy_normalizeHostFromAddr url_host input =
     (let host = TrimSpace (RemovePortFromHost (ExtractHost url_host (TrimSpace input)))
      in if host = [] then []
         else
           (let host = (if HasPrefix host ''['' \<and> HasSuffix host '']'' then drop 1 (take (length host - 1) host) else host);
                host = (case LastIndexByte host CHR ''%'' of Some i \<Rightarrow> take i host | None \<Rightarrow> host)
            in ToLower (TrimSuffix host ''.'')))"

definition policy_normalizeHostToken :: "(string \<Rightarrow> string option) \<Rightarrow> string \<Rightarrow> string option" where
  "policy_normalizeHostToken url_host input =
     (let host = policy_normalizeHostFromAddr url_host input
      in if host = [] \<or> ContainsAny host (''? '' @ [CHR 0x09, CHR 0x0D, CHR 0x0A] @ ''/#'') then None else Some host)"

subsection \<open>IPv4 wildcards\<close>

definition GetIntNoErrByStr :: "string \<Rightarrow> int" where
  "GetIntNoErrByStr str = (case Atoi (TrimSpace str) of Some i \<Rightarrow> i | None \<Rightarrow> 0)"

definition parseOctet :: "string \<Rightarrow> string option" where
  "parseOctet part0 =
     (if part0 = [] \<or> \<not> list_all is_digit part0 then None
      else
        (let part = (if 1 < length part0 \<and> hd part0 = CHR ''0''
                     then (let p = TrimLeft part0 CHR ''0'' in if p = [] then ''0'' else p) else part0)
         in if 3 < length part then None
            else
              (let v = GetIntNoErrByStr part in if v < 0 \<or> 255 < v then None else Some part)))"

text \<open>The loop over the four parts: octets, then only stars; the number counts the octets.\<close>

fun wildcard_parts :: "string list \<Rightarrow> (string list \<times> nat) option" where
  "wildcard_parts [] = Some ([], 0)"
| "wildcard_parts (p # ps) =
     (let part = TrimSpace p
      in if part = ''*'' then (if list_all (\<lambda>q. TrimSpace q = ''*'') ps then Some (p # ps, 0) else None)
         else
           (case parseOctet part of
              None \<Rightarrow> None
            | Some v \<Rightarrow> map_option (\<lambda>(qs, n). (v # qs, Suc n)) (wildcard_parts ps)))"

definition parseIPv4WildcardPrefix :: "string \<Rightarrow> Prefix option" where
  "parseIPv4WildcardPrefix token =
     (if \<not> Contains token ''*'' then None
      else if Contains token '':'' \<or> Contains token ''/'' then None
      else
        (let parts = Split token CHR ''.''
         in if length parts < 2 \<or> 4 < length parts then None
            else
              (case wildcard_parts (parts @ replicate (4 - length parts) ''*'') of
                 None \<Rightarrow> None
               | Some (ps, n) \<Rightarrow>
                   if n = 0 \<or> n = 4 then None
                   else
                     (case ParseAddr (ReplaceAll ''*'' ''0'' (Join ps CHR ''.'')) of
                        Some (IPv4 b) \<Rightarrow> map_option Masked (PrefixFrom (IPv4 b) (int n * 8))
                      | _ \<Rightarrow> None))))"

subsection \<open>What a wildcard rule matches\<close>

lemma mask_bytes_octets: "mask_bytes (8 * k) b = take k b @ replicate (length b - k) 0"
proof (induction b arbitrary: k)
  case (Cons x b)
  have z: "x AND NOT (mask 8) = 0"
    by (simp add: bit_eq_iff bit_simps)
  show ?case
  proof (cases k)
    case 0
    with Cons [of 0] z show ?thesis by simp
  next
    case (Suc j)
    with Cons [of j] show ?thesis by simp
  qed
qed simp

lemma Contains_char [simp]: "Contains s [c] \<longleftrightarrow> c \<in> set s"
  by (induction s) auto

lemma ReplaceAll_char: "ReplaceAll [c] [d] s = map (\<lambda>x. if x = c then d else x) s"
  by (induction s) (subst ReplaceAll.simps, auto)+

lemma map_Join: "map f (Join ps sep) = Join (map (map f) ps) (f sep)"
  by (induction ps sep rule: Join.induct) auto

lemma parseOctet_Itoa:
  assumes "n \<le> 255"
  shows "parseOctet (Itoa_nat n) = Some (Itoa_nat n)"
proof -
  have i: "list_all is_digit (Itoa_nat n)" "Itoa_nat n \<noteq> []"
    using Itoa_digits [of n] by auto
  have "length (Itoa_nat n) \<le> 3"
    using assms by (simp add: Itoa_nat.simps [of n] Itoa_nat.simps [of "n div 10"] Itoa_nat.simps [of "n div 10 div 10"])
  moreover have "\<not> (1 < length (Itoa_nat n) \<and> hd (Itoa_nat n) = CHR ''0'')"
    using Itoa_leading [of n] by (auto simp: byte_of_def)
  moreover have "GetIntNoErrByStr (Itoa_nat n) = int n"
    using assms i(1) by (simp add: GetIntNoErrByStr_def TrimSpace_digits Atoi_Itoa)
  ultimately show ?thesis
    using i assms by (auto simp: parseOctet_def Let_def)
qed

lemma star_trim: "TrimSpace ''*'' = ''*''"
  by (simp add: TrimSpace_def is_space_def byte_of_def)

lemma wildcard_parts_print:
  "\<forall>n \<in> set os. n \<le> 255 \<Longrightarrow> 0 < m \<Longrightarrow>
   wildcard_parts (map Itoa_nat os @ replicate m ''*'') = Some (map Itoa_nat os @ replicate m ''*'', length os)"
proof (induction os)
  case Nil
  then show ?case by (cases m) (simp_all add: star_trim list_all_iff Let_def)
next
  case (Cons n os)
  have "TrimSpace (Itoa_nat n) = Itoa_nat n"
    using Itoa_digits [of n] by (simp add: TrimSpace_digits)
  moreover have "Itoa_nat n \<noteq> ''*''"
    using not_digit_in_Itoa [of "CHR ''*''" n] by auto
  ultimately show ?case
    using Cons parseOctet_Itoa [of n] by simp
qed

lemma wildcard_text:
  assumes "os \<noteq> []" and "0 < j" and "parts = map Itoa_nat os @ replicate j ''*''"
  shows "Split (Join parts CHR ''.'') CHR ''.'' = parts" and "CHR ''*'' \<in> set (Join parts CHR ''.'')"
    and "CHR '':'' \<notin> set (Join parts CHR ''.'')" and "CHR ''/'' \<notin> set (Join parts CHR ''.'')"
proof -
  have sep: "CHR ''.'' \<notin> set p" if "p \<in> set parts" for p
    using that not_digit_in_Itoa by (auto simp: assms(3))
  show split: "Split (Join parts CHR ''.'') CHR ''.'' = parts"
    using sep assms(1) by (intro Split_Join) (auto simp: assms(3))
  have chars: "set (Join parts CHR ''.'') \<subseteq> insert CHR ''.'' (\<Union>p \<in> set parts. set p)"
    by (rule set_Join)
  have char_kinds: "is_digit c \<or> c = CHR ''*''" if "p \<in> set parts" "c \<in> set p" for c p
    using that Itoa_chars by (auto simp: assms(3))
  have "CHR ''*'' \<in> set (last (Split (Join parts CHR ''.'') CHR ''.''))"
    using assms(2) by (simp add: split) (simp add: assms(3))
  moreover have "set p \<subseteq> set (Join ps CHR ''.'')" if "p \<in> set ps" for p ps
    using that by (induction ps "CHR ''.''" rule: Join.induct) auto
  moreover have "last (Split (Join parts CHR ''.'') CHR ''.'') \<in> set parts"
    unfolding split using assms(1) by (intro last_in_set) (simp add: assms(3))
  ultimately show "CHR ''*'' \<in> set (Join parts CHR ''.'')" by blast
  show "CHR '':'' \<notin> set (Join parts CHR ''.'')" "CHR ''/'' \<notin> set (Join parts CHR ''.'')"
    using chars char_kinds by fastforce+
qed

lemma wildcard_address:
  assumes "length os \<le> 3" "\<forall>n \<in> set os. n \<le> 255"
  shows "ParseAddr (ReplaceAll ''*'' ''0'' (Join (map Itoa_nat os @ replicate (4 - length os) ''*'') CHR ''.'')) =
    Some (IPv4 (map word_of_nat (os @ replicate (4 - length os) 0)))"
proof -
  have zero: "Itoa_nat 0 = ''0''" by code_simp
  have "map (\<lambda>x. if x = CHR ''*'' then CHR ''0'' else x) (Itoa_nat n) = Itoa_nat n" for n
    using not_digit_in_Itoa [of "CHR ''*''" n] by (intro map_idI) auto
  then have "ReplaceAll ''*'' ''0'' (Join (map Itoa_nat os @ replicate (4 - length os) ''*'') CHR ''.'') =
      Join (map Itoa_nat (os @ replicate (4 - length os) 0)) CHR ''.''"
    by (simp add: ReplaceAll_char map_Join comp_def zero)
  moreover have "ParseAddr (Join (map Itoa_nat (os @ replicate (4 - length os) 0)) CHR ''.'') =
      Some (IPv4 (map word_of_nat (os @ replicate (4 - length os) 0)))"
    using assms by (intro ParseAddr_dotted) auto
  ultimately show ?thesis by simp
qed

text \<open>C33: A wildcard rule of an access policy, such as \<open>10.1.*\<close> or \<open>10.1.*.*\<close>, matches exactly the IPv4
  addresses that start with its octets, and no IPv6 address, whether the trailing stars are written out
  or not.\<close>

theorem wildcard_rule_matches:
  assumes "os \<noteq> []" "0 < j" "length os + j \<le> 4" "\<forall>n \<in> set os. n \<le> 255"
  shows "\<exists>p. parseIPv4WildcardPrefix (Join (map Itoa_nat os @ replicate j ''*'') CHR ''.'') = Some p \<and>
     (\<forall>b. length b = 4 \<longrightarrow> pf_Contains p (IPv4 b) = (take (length os) b = map word_of_nat os)) \<and>
     (\<forall>b z. \<not> pf_Contains p (IPv6 b z))"
proof -
  define parts where "parts = map Itoa_nat os @ replicate j ''*''"
  define k where "k = length os"
  define full where "full = os @ replicate (4 - k) 0"
  have k: "0 < k" "k < 4" "length os \<le> 3" using assms(1-3) by (auto simp: k_def)
  note shape = wildcard_text [OF assms(1,2) parts_def]
  have pad: "parts @ replicate (4 - length parts) ''*'' = map Itoa_nat os @ replicate (4 - k) ''*''"
    using assms(3) by (simp add: parts_def k_def flip: replicate_add)
  have len: "\<not> length parts < 2" "\<not> 4 < length parts"
    using assms(1-3) by (cases os; simp add: parts_def)+
  have "wildcard_parts (map Itoa_nat os @ replicate (4 - k) ''*'') =
      Some (map Itoa_nat os @ replicate (4 - k) ''*'', k)"
    using wildcard_parts_print [OF assms(4), of "4 - k"] k by (simp add: k_def)
  then have eq: "parseIPv4WildcardPrefix (Join parts CHR ''.'') =
      map_option Masked (PrefixFrom (IPv4 (map word_of_nat full)) (int k * 8))"
    using shape k len wildcard_address [OF k(3) assms(4)]
    by (simp add: parseIPv4WildcardPrefix_def pad full_def k_def [symmetric])
  define p where "p = Masked \<lparr>pf_addr = IPv4 (map word_of_nat full), pf_bits = int k * 8\<rparr>"
  have "parseIPv4WildcardPrefix (Join parts CHR ''.'') = Some p"
    using k by (simp add: eq PrefixFrom_def BitLen_def Is4_def WithoutZone_def p_def)
  moreover have bits: "nat (int (length os) * 8) = 8 * length os" by simp
  have "pf_Contains p (IPv4 b) = (take (length os) b = map word_of_nat os)" if "length b = 4" for b
    using that k
    by (simp add: p_def pf_Contains_def Masked_def map_addr_def Zone_def Is4_def bits mask_bytes_octets full_def
        k_def eq_commute [of "take _ _"])
  moreover have "\<not> pf_Contains p (IPv6 b z)" for b z
    by (simp add: p_def pf_Contains_def Masked_def map_addr_def Is4_def)
  ultimately show ?thesis by (auto simp: parts_def)
qed

theorem wildcard_rule_matches_witness:
  "\<exists>p. parseIPv4WildcardPrefix (Join (map Itoa_nat [10, 1] @ replicate 1 ''*'') CHR ''.'') = Some p \<and>
     (\<forall>b. length b = 4 \<longrightarrow> pf_Contains p (IPv4 b) = (take (length [10::nat, 1]) b = map word_of_nat [10, 1])) \<and>
     (\<forall>b z. \<not> pf_Contains p (IPv6 b z))"
  by (rule wildcard_rule_matches) simp_all

end
