(* ===== verification/Policy_Domain.thy ===== *)
theory Policy_Domain
  imports Policy_Host "HOL-Library.AList"
begin

text \<open>
  Domain rules of access policies (\<open>src/lib/policy/domain.go\<close>): the label tree, the rule compiler and the matcher, and that the compiled matcher accepts a host exactly
  when one of the rules does.

  Outside the program and arguments here: \<open>url_host\<close> as before, the regular expression engine
  (\<open>re_compile\<close>, \<open>re_match\<close>) and the domains of a geosite rule (\<open>geo\<close>: \<open>None\<close> if the token is no such rule,
  \<open>Some None\<close> if loading failed).
\<close>

subsection \<open>Tokens\<close>

definition normalizeDomainToken :: "(string \<Rightarrow> string option) \<Rightarrow> string \<Rightarrow> string option" where
  "normalizeDomainToken url_host input =
     (case policy_normalizeHostToken url_host input of
        None \<Rightarrow> None
      | Some host \<Rightarrow> if ParseAddr host \<noteq> None then None else Some host)"

definition normalizeDomainKeywordToken :: "string \<Rightarrow> string" where
  "normalizeDomainKeywordToken input0 =
     (let input = ToLower (TrimSpace input0)
      in if input = [] \<or> ContainsAny input (''? '' @ [CHR 0x09, CHR 0x0D, CHR 0x0A] @ ''/#'') then []
         else TrimSuffix input ''.'')"

subsection \<open>The label tree\<close>

datatype domainNode = DomainNode "(string \<times> domainNode) list" bool bool

definition emptyNode :: domainNode where
  "emptyNode = DomainNode [] False False"

definition reverseDomainLabels :: "string \<Rightarrow> string list" where
  "reverseDomainLabels domain = rev (Split domain CHR ''.'')"

fun node_add :: "string list \<Rightarrow> bool \<Rightarrow> bool \<Rightarrow> domainNode \<Rightarrow> domainNode" where
  "node_add [] includeSelf subOnly (DomainNode ch s b) = DomainNode ch (s \<or> includeSelf) (b \<or> subOnly)"
| "node_add (l # ls) includeSelf subOnly (DomainNode ch s b) =
     DomainNode
       (AList.update l
          (node_add ls includeSelf subOnly (case map_of ch l of None \<Rightarrow> emptyNode | Some n \<Rightarrow> n)) ch)
       s b"

definition domainTree_add :: "string \<Rightarrow> bool \<Rightarrow> bool \<Rightarrow> domainNode option \<Rightarrow> domainNode option" where
  "domainTree_add domain includeSelf subOnly t =
     (if domain = [] then t
      else
        Some (node_add (reverseDomainLabels domain) includeSelf subOnly
               (case t of None \<Rightarrow> emptyNode | Some n \<Rightarrow> n)))"

fun node_match :: "string list \<Rightarrow> domainNode \<Rightarrow> bool" where
  "node_match [] n = False"
| "node_match (l # ls) (DomainNode ch s b) =
     (case map_of ch l of
        None \<Rightarrow> False
      | Some (DomainNode ch' s' b') \<Rightarrow> s' \<or> b' \<and> ls \<noteq> [] \<or> node_match ls (DomainNode ch' s' b'))"

definition domainTree_match :: "string \<Rightarrow> domainNode option \<Rightarrow> bool" where
  "domainTree_match domain t =
     (case t of None \<Rightarrow> False | Some n \<Rightarrow> domain \<noteq> [] \<and> node_match (reverseDomainLabels domain) n)"

subsection \<open>The matcher\<close>

record 're DomainMatcher =
  dm_exact :: "string list"
  dm_tree :: "domainNode option"
  dm_keywords :: "string list"
  dm_regexps :: "'re list"
  dm_dotless :: "string list"
  dm_dotlessAny :: bool

definition emptyMatcher :: "'re DomainMatcher" where
  "emptyMatcher = \<lparr>dm_exact = [], dm_tree = None, dm_keywords = [], dm_regexps = [], dm_dotless = [], dm_dotlessAny = False\<rparr>"

definition dm_Contains ::
    "(string \<Rightarrow> string option) \<Rightarrow> ('re \<Rightarrow> string \<Rightarrow> bool) \<Rightarrow> string \<Rightarrow> 're DomainMatcher \<Rightarrow> bool" where
  "dm_Contains url_host re_match input m =
     (let host = policy_normalizeHostFromAddr url_host input
      in if host = [] \<or> ParseAddr host \<noteq> None then False
         else
           host \<in> set (dm_exact m) \<or> domainTree_match host (dm_tree m) \<or>
           list_ex (Contains host) (dm_keywords m) \<or> list_ex (\<lambda>re. re_match re host) (dm_regexps m) \<or>
           \<not> Contains host ''.'' \<and> (dm_dotlessAny m \<or> list_ex (Contains host) (dm_dotless m)))"

definition add_exact :: "string \<Rightarrow> 're DomainMatcher \<Rightarrow> 're DomainMatcher" where
  "add_exact host m = m\<lparr>dm_exact := host # dm_exact m\<rparr>"

definition add_tree :: "string \<Rightarrow> bool \<Rightarrow> bool \<Rightarrow> 're DomainMatcher \<Rightarrow> 're DomainMatcher" where
  "add_tree host includeSelf subOnly m = m\<lparr>dm_tree := domainTree_add host includeSelf subOnly (dm_tree m)\<rparr>"

definition add_keyword :: "string \<Rightarrow> 're DomainMatcher \<Rightarrow> 're DomainMatcher" where
  "add_keyword p m = m\<lparr>dm_keywords := dm_keywords m @ [p]\<rparr>"

definition add_regexp :: "'re \<Rightarrow> 're DomainMatcher \<Rightarrow> 're DomainMatcher" where
  "add_regexp re m = m\<lparr>dm_regexps := dm_regexps m @ [re]\<rparr>"

text \<open>The result is \<open>handled\<close>, \<open>valid\<close> and the matcher.\<close>

definition compileStructuredDomainRule ::
    "(string \<Rightarrow> string option) \<Rightarrow> (string \<Rightarrow> 're option) \<Rightarrow> string \<Rightarrow> 're DomainMatcher \<Rightarrow> bool \<times> bool \<times> 're DomainMatcher" where
  "compileStructuredDomainRule url_host re_compile token m =
     (let lower = ToLower token
      in if HasPrefix lower ''full:'' then
           (case normalizeDomainToken url_host (drop 5 token) of
              None \<Rightarrow> (True, False, m)
            | Some host \<Rightarrow> (True, True, add_exact host m))
         else if HasPrefix lower ''domain:'' then
           (case normalizeDomainToken url_host (drop 7 token) of
              None \<Rightarrow> (True, False, m)
            | Some host \<Rightarrow> (True, True, add_tree host True False m))
         else if HasPrefix lower ''keyword:'' then
           (let pattern = normalizeDomainKeywordToken (drop 8 token)
            in if pattern = [] then (True, False, m) else (True, True, add_keyword pattern m))
         else if HasPrefix lower ''regexp:'' then
           (let pattern = TrimSpace (drop 7 token)
            in if pattern = [] then (True, False, m)
               else
                 (case re_compile (''(?i)'' @ pattern) of
                    None \<Rightarrow> (True, False, m)
                  | Some re \<Rightarrow> (True, True, add_regexp re m)))
         else if HasPrefix lower ''dotless:'' then
           (let raw = TrimSpace (drop 8 token)
            in if raw = [] then (True, True, m\<lparr>dm_dotlessAny := True\<rparr>)
               else if Contains raw ''.'' then (True, False, m)
               else
                 (let pattern = normalizeDomainKeywordToken raw
                  in if pattern = [] then (True, False, m)
                     else (True, True, m\<lparr>dm_dotless := dm_dotless m @ [pattern]\<rparr>)))
         else (False, False, m))"

text \<open>The domains of a geosite rule, by type: keyword, regular expression, domain, full name.\<close>

datatype geoSiteType = GeoPlain | GeoRegex | GeoDomain | GeoFull

definition addGeoSiteDomain ::
    "(string \<Rightarrow> 're option) \<Rightarrow> geoSiteType \<times> string \<Rightarrow> 're DomainMatcher \<Rightarrow> 're DomainMatcher" where
  "addGeoSiteDomain re_compile d m =
     (case d of
        (GeoFull, v) \<Rightarrow> add_exact v m
      | (GeoDomain, v) \<Rightarrow> add_tree v True False m
      | (GeoPlain, v) \<Rightarrow> add_keyword v m
      | (GeoRegex, v) \<Rightarrow> (case re_compile v of Some re \<Rightarrow> add_regexp re m | None \<Rightarrow> m))"

definition addGeoSiteDomains ::
    "(string \<Rightarrow> 're option) \<Rightarrow> (geoSiteType \<times> string) list \<Rightarrow> 're DomainMatcher \<Rightarrow> 're DomainMatcher" where
  "addGeoSiteDomains re_compile ds m = fold (addGeoSiteDomain re_compile) ds m"

subsection \<open>The compiler\<close>

text \<open>A token of a rule list: the full-width colon is read as a colon; empty tokens and comments are skipped.\<close>

definition policy_token :: "string \<Rightarrow> string" where
  "policy_token entry = TrimSpace (ReplaceAll [CHR 0xEF, CHR 0xBC, CHR 0x9A] '':'' entry)"

definition active_entry :: "string \<Rightarrow> bool" where
  "active_entry entry \<longleftrightarrow>
     (let token = policy_token entry in token \<noteq> [] \<and> \<not> HasPrefix token ''#'' \<and> \<not> HasPrefix token '';'')"

definition compileDomainToken ::
    "(string \<Rightarrow> string option) \<Rightarrow> (string \<Rightarrow> 're option) \<Rightarrow> (string \<Rightarrow> (geoSiteType \<times> string) list option option) \<Rightarrow>
     string \<Rightarrow> 're DomainMatcher \<Rightarrow> 're DomainMatcher" where
  "compileDomainToken url_host re_compile geo token m =
     (case compileStructuredDomainRule url_host re_compile token m of
        (True, _, m') \<Rightarrow> m'
      | (False, _, _) \<Rightarrow>
          (case geo token of
             Some (Some ds) \<Rightarrow> addGeoSiteDomains re_compile ds m
           | Some None \<Rightarrow> m
           | None \<Rightarrow>
               if HasPrefix (ToLower token) ''geoip:'' then m
               else if parseIPv4WildcardPrefix token \<noteq> None then m
               else if Contains token ''/'' then m
               else if Contains token ''*'' \<and> \<not> HasPrefix token ''*'' then m
               else if HasPrefix token ''*'' then
                 (let subOnly = HasPrefix token ''*.'';
                      suffixRaw = (if subOnly then TrimPrefix token ''*.'' else TrimPrefix token ''*'')
                  in case normalizeDomainToken url_host suffixRaw of
                       None \<Rightarrow> m
                     | Some suf \<Rightarrow> add_tree suf (\<not> subOnly) subOnly m)
               else
                 (case normalizeDomainToken url_host token of
                    None \<Rightarrow> m
                  | Some ihost \<Rightarrow>
                      (let pattern = normalizeDomainKeywordToken ihost
                       in if pattern = [] then m else add_keyword pattern m))))"

definition matcher_empty :: "'re DomainMatcher \<Rightarrow> bool" where
  "matcher_empty m \<longleftrightarrow>
     dm_exact m = [] \<and> dm_tree m = None \<and> dm_keywords m = [] \<and> dm_regexps m = [] \<and> dm_dotless m = [] \<and> \<not> dm_dotlessAny m"

text \<open>The matcher (\<open>None\<close> if it has no rule) and whether there was any entry.\<close>

definition compileDomainMatcher ::
    "(string \<Rightarrow> string option) \<Rightarrow> (string \<Rightarrow> 're option) \<Rightarrow> (string \<Rightarrow> (geoSiteType \<times> string) list option option) \<Rightarrow>
     string list \<Rightarrow> 're DomainMatcher option \<times> bool" where
  "compileDomainMatcher url_host re_compile geo entries =
     (let active = filter active_entry entries;
          m = fold (\<lambda>e. compileDomainToken url_host re_compile geo (policy_token e)) active emptyMatcher
      in (if matcher_empty m then None else Some m, active \<noteq> []))"

subsection \<open>The meaning of the rules\<close>

text \<open>Reference: what a rule says about a normalised host name.\<close>

datatype 're domain_rule =
    RuleFull string
  | RuleDomain string
  | RuleSub string
  | RuleKeyword string
  | RuleRegexp 're
  | RuleDotlessAny
  | RuleDotless string

fun rule_matches :: "('re \<Rightarrow> string \<Rightarrow> bool) \<Rightarrow> string \<Rightarrow> 're domain_rule \<Rightarrow> bool" where
  "rule_matches re_match host (RuleFull h) = (host = h)"
| "rule_matches re_match host (RuleDomain h) = (h \<noteq> [] \<and> (host = h \<or> HasSuffix host (CHR ''.'' # h)))"
| "rule_matches re_match host (RuleSub h) = (h \<noteq> [] \<and> HasSuffix host (CHR ''.'' # h))"
| "rule_matches re_match host (RuleKeyword p) = Contains host p"
| "rule_matches re_match host (RuleRegexp re) = re_match re host"
| "rule_matches re_match host RuleDotlessAny = (CHR ''.'' \<notin> set host)"
| "rule_matches re_match host (RuleDotless p) = (CHR ''.'' \<notin> set host \<and> Contains host p)"

definition of_option :: "'a option \<Rightarrow> 'a list" where
  "of_option x = (case x of None \<Rightarrow> [] | Some y \<Rightarrow> [y])"

definition keyword_rule :: "(string \<Rightarrow> 're domain_rule) \<Rightarrow> string \<Rightarrow> 're domain_rule list" where
  "keyword_rule rule s = (let p = normalizeDomainKeywordToken s in if p = [] then [] else [rule p])"

definition geo_rule :: "(string \<Rightarrow> 're option) \<Rightarrow> geoSiteType \<times> string \<Rightarrow> 're domain_rule list" where
  "geo_rule re_compile d =
     (case d of
        (GeoFull, v) \<Rightarrow> [RuleFull v]
      | (GeoDomain, v) \<Rightarrow> [RuleDomain v]
      | (GeoPlain, v) \<Rightarrow> [RuleKeyword v]
      | (GeoRegex, v) \<Rightarrow> map RuleRegexp (of_option (re_compile v)))"

text \<open>The rules a token stands for, by its prefix.\<close>

definition token_rules ::
    "(string \<Rightarrow> string option) \<Rightarrow> (string \<Rightarrow> 're option) \<Rightarrow> (string \<Rightarrow> (geoSiteType \<times> string) list option option) \<Rightarrow>
     string \<Rightarrow> 're domain_rule list" where
  "token_rules url_host re_compile geo token =
     (let lower = ToLower token; domain = normalizeDomainToken url_host
      in if HasPrefix lower ''full:'' then map RuleFull (of_option (domain (drop 5 token)))
         else if HasPrefix lower ''domain:'' then map RuleDomain (of_option (domain (drop 7 token)))
         else if HasPrefix lower ''keyword:'' then keyword_rule RuleKeyword (drop 8 token)
         else if HasPrefix lower ''regexp:'' then
           (let p = TrimSpace (drop 7 token)
            in if p = [] then [] else map RuleRegexp (of_option (re_compile (''(?i)'' @ p))))
         else if HasPrefix lower ''dotless:'' then
           (let raw = TrimSpace (drop 8 token)
            in if raw = [] then [RuleDotlessAny] else if CHR ''.'' \<in> set raw then [] else keyword_rule RuleDotless raw)
         else if geo token \<noteq> None then
           concat (map (geo_rule re_compile) (case geo token of Some (Some ds) \<Rightarrow> ds | _ \<Rightarrow> []))
         else if HasPrefix lower ''geoip:'' \<or> parseIPv4WildcardPrefix token \<noteq> None \<or> CHR ''/'' \<in> set token then []
         else if HasPrefix token ''*.'' then map RuleSub (of_option (domain (drop 2 token)))
         else if HasPrefix token ''*'' then map RuleDomain (of_option (domain (drop 1 token)))
         else if CHR ''*'' \<in> set token then []
         else concat (map (keyword_rule RuleKeyword) (of_option (domain token))))"

subsection \<open>The label tree\<close>

lemma node_match_empty [simp]: "\<not> node_match ls emptyNode"
  by (cases ls) (simp_all add: emptyNode_def)

lemma map_of_update [simp]: "map_of (AList.update k v xs) k' = (if k' = k then Some v else map_of xs k')"
  by (simp add: update_conv')

lemma node_match_add:
  "node_match ls (node_add path i s n) \<longleftrightarrow>
   node_match ls n \<or> path \<noteq> [] \<and> prefix path ls \<and> (i \<or> s \<and> path \<noteq> ls)"
proof (induction path i s n arbitrary: ls rule: node_add.induct)
  case (1 i s ch s0 b0)
  then show ?case by (cases ls) simp_all
next
  case (2 l ps i s ch s0 b0)
  show ?case
  proof (cases ls)
    case (Cons l' ls')
    define c where "c = (case map_of ch l of None \<Rightarrow> emptyNode | Some n \<Rightarrow> n)"
    obtain cc cs cb where c: "c = DomainNode cc cs cb" by (cases c)
    obtain ac as ab where a: "node_add ps i s c = DomainNode ac as ab" by (cases "node_add ps i s c")
    have fl: "as = (cs \<or> ps = [] \<and> i)" "ab = (cb \<or> ps = [] \<and> s)"
      using a c by (cases ps; simp)+
    have old: "node_match (l # ls') (DomainNode ch s0 b0) \<longleftrightarrow> cs \<or> cb \<and> ls' \<noteq> [] \<or> node_match ls' c"
      using c node_match_empty [of ls'] by (cases "map_of ch l") (auto simp: c_def emptyNode_def)
    have IH: "node_match ls' (DomainNode ac as ab) \<longleftrightarrow>
        node_match ls' c \<or> ps \<noteq> [] \<and> prefix ps ls' \<and> (i \<or> s \<and> ps \<noteq> ls')"
      using 2 [of ls'] a by (simp add: c_def)
    show ?thesis
    proof (cases "l' = l")
      case True
      have "node_match ls (node_add (l # ps) i s (DomainNode ch s0 b0)) \<longleftrightarrow>
          as \<or> ab \<and> ls' \<noteq> [] \<or> node_match ls' (DomainNode ac as ab)"
        using a by (simp add: Cons True flip: c_def)
      then show ?thesis
        using old fl IH Cons True by auto
    next
      case False
      then show ?thesis by (simp add: Cons)
    qed
  qed simp
qed

lemma suffix_Split:
  "suffix (Split h sep) (Split d sep) \<longleftrightarrow> d = h \<or> suffix (sep # h) d"
proof
  assume "suffix (Split h sep) (Split d sep)"
  then obtain xs where xs: "Split d sep = xs @ Split h sep" by (auto simp: suffix_def)
  show "d = h \<or> suffix (sep # h) d"
  proof (cases "xs = []")
    case True
    with xs Split_inject show ?thesis by simp
  next
    case False
    have "Split (Join xs sep) sep = xs"
      using False xs Split_parts_no_sep by (intro Split_Join) (metis Un_iff set_append)+
    then have "Split d sep = Split (Join xs sep @ sep # h) sep"
      by (simp add: xs Split_append)
    then show ?thesis by (auto simp: Split_inject suffix_def)
  qed
qed (auto simp: suffix_def Split_append)

lemma domainTree_match_add:
  assumes "host \<noteq> []"
  shows "domainTree_match host (domainTree_add d i s t) \<longleftrightarrow>
     domainTree_match host t \<or> d \<noteq> [] \<and> (i \<and> host = d \<or> (i \<or> s) \<and> HasSuffix host (CHR ''.'' # d))"
proof (cases "d = []")
  case False
  have "prefix (reverseDomainLabels d) (reverseDomainLabels host) \<longleftrightarrow> host = d \<or> HasSuffix host (CHR ''.'' # d)"
    by (simp add: reverseDomainLabels_def suffix_to_prefix [symmetric] suffix_Split HasSuffix_def)
  moreover have "reverseDomainLabels d = reverseDomainLabels host \<longleftrightarrow> d = host"
    by (simp add: reverseDomainLabels_def Split_inject)
  moreover have "\<not> HasSuffix d (CHR ''.'' # d)"
    by (auto simp: HasSuffix_def dest: suffix_length_le)
  moreover have "reverseDomainLabels d \<noteq> []"
    by (simp add: reverseDomainLabels_def)
  ultimately show ?thesis
    using assms False
    by (cases t) (auto simp: domainTree_match_def domainTree_add_def node_match_add)
qed (simp add: domainTree_add_def)

subsection \<open>The compiled matcher says what the rules say\<close>

definition dm_matches :: "('re \<Rightarrow> string \<Rightarrow> bool) \<Rightarrow> string \<Rightarrow> 're DomainMatcher \<Rightarrow> bool" where
  "dm_matches re_match host m \<longleftrightarrow>
     host \<in> set (dm_exact m) \<or> domainTree_match host (dm_tree m) \<or>
     list_ex (Contains host) (dm_keywords m) \<or> list_ex (\<lambda>re. re_match re host) (dm_regexps m) \<or>
     CHR ''.'' \<notin> set host \<and> (dm_dotlessAny m \<or> list_ex (Contains host) (dm_dotless m))"

lemma dm_matches_empty: "matcher_empty m \<Longrightarrow> \<not> dm_matches re_match host m"
  by (simp add: matcher_empty_def dm_matches_def domainTree_match_def)

lemma dm_matches_add:
  "dm_matches re_match host (add_exact h m) \<longleftrightarrow> dm_matches re_match host m \<or> rule_matches re_match host (RuleFull h)"
  "host \<noteq> [] \<Longrightarrow> dm_matches re_match host (add_tree h True False m) \<longleftrightarrow>
     dm_matches re_match host m \<or> rule_matches re_match host (RuleDomain h)"
  "host \<noteq> [] \<Longrightarrow> dm_matches re_match host (add_tree h False True m) \<longleftrightarrow>
     dm_matches re_match host m \<or> rule_matches re_match host (RuleSub h)"
  "dm_matches re_match host (add_keyword p m) \<longleftrightarrow> dm_matches re_match host m \<or> rule_matches re_match host (RuleKeyword p)"
  "dm_matches re_match host (add_regexp re m) \<longleftrightarrow> dm_matches re_match host m \<or> rule_matches re_match host (RuleRegexp re)"
  "dm_matches re_match host (m\<lparr>dm_dotlessAny := True\<rparr>) \<longleftrightarrow>
     dm_matches re_match host m \<or> rule_matches re_match host RuleDotlessAny"
  "dm_matches re_match host (m\<lparr>dm_dotless := dm_dotless m @ [p]\<rparr>) \<longleftrightarrow>
     dm_matches re_match host m \<or> rule_matches re_match host (RuleDotless p)"
  by (auto simp: dm_matches_def add_exact_def add_tree_def add_keyword_def add_regexp_def domainTree_match_add)

text \<open>Every way to add rules extends the matched hosts by those of the rules.\<close>

definition extends ::
    "('re \<Rightarrow> string \<Rightarrow> bool) \<Rightarrow> string \<Rightarrow> 're DomainMatcher \<Rightarrow> 're domain_rule list \<Rightarrow> 're DomainMatcher \<Rightarrow> bool" where
  "extends re_match host m rules m' \<longleftrightarrow>
     (dm_matches re_match host m' \<longleftrightarrow> dm_matches re_match host m \<or> (\<exists>r \<in> set rules. rule_matches re_match host r))"

lemma extends_nil [simp]: "extends re_match host m [] m"
  by (simp add: extends_def)

lemma extends_trans:
  "extends re_match host m rs m1 \<Longrightarrow> extends re_match host m1 rs' m2 \<Longrightarrow> extends re_match host m (rs @ rs') m2"
  by (auto simp: extends_def)

lemma extends_geo:
  assumes "host \<noteq> []"
  shows "extends re_match host m (concat (map (geo_rule re_compile) ds)) (addGeoSiteDomains re_compile ds m)"
  unfolding addGeoSiteDomains_def
proof (induction ds arbitrary: m)
  case (Cons d ds)
  obtain t v where d: "d = (t, v)" by fastforce
  have "extends re_match host m (geo_rule re_compile d) (addGeoSiteDomain re_compile d m)"
    using assms unfolding extends_def
    by (cases t) (auto simp: d geo_rule_def addGeoSiteDomain_def dm_matches_add of_option_def split: option.split)
  from extends_trans [OF this Cons.IH] show ?case by simp
qed simp

lemma compileStructured_cases:
  assumes "host \<noteq> []" "compileStructuredDomainRule url_host re_compile token m = (h, v, m')"
  shows "if h then extends re_match host m (token_rules url_host re_compile geo token) m'
     else \<not> (\<exists>p \<in> {''full:'', ''domain:'', ''keyword:'', ''regexp:'', ''dotless:''}. HasPrefix (ToLower token) p)"
proof -
  let ?P = "HasPrefix (ToLower token)"
  consider "?P ''full:''" | "\<not> ?P ''full:''" "?P ''domain:''"
    | "\<not> ?P ''full:''" "\<not> ?P ''domain:''" "?P ''keyword:''"
    | "\<not> ?P ''full:''" "\<not> ?P ''domain:''" "\<not> ?P ''keyword:''" "?P ''regexp:''"
    | "\<not> ?P ''full:''" "\<not> ?P ''domain:''" "\<not> ?P ''keyword:''" "\<not> ?P ''regexp:''" "?P ''dotless:''"
    | "\<not> ?P ''full:''" "\<not> ?P ''domain:''" "\<not> ?P ''keyword:''" "\<not> ?P ''regexp:''" "\<not> ?P ''dotless:''"
    by blast
  then show ?thesis
    using assms
    by cases (auto simp: compileStructuredDomainRule_def token_rules_def Let_def extends_def dm_matches_add of_option_def
        keyword_rule_def split: option.splits if_splits)
qed

lemma HasPrefix_star: "HasPrefix token ''*.'' \<Longrightarrow> HasPrefix token ''*''" "HasPrefix token ''*'' \<Longrightarrow> CHR ''*'' \<in> set token"
  by (auto simp: HasPrefix_def prefix_def)

lemma extends_token:
  assumes "host \<noteq> []"
  shows "extends re_match host m (token_rules url_host re_compile geo token)
     (compileDomainToken url_host re_compile geo token m)"
proof -
  obtain handled v m' where c: "compileStructuredDomainRule url_host re_compile token m = (handled, v, m')"
    by (metis prod_cases3)
  note cs = compileStructured_cases [OF assms c, of re_match geo]
  show ?thesis
  proof (cases handled)
    case True
    with cs c show ?thesis by (simp add: compileDomainToken_def)
  next
    case False
    with cs have no: "\<not> HasPrefix (ToLower token) ''full:''" "\<not> HasPrefix (ToLower token) ''domain:''"
      "\<not> HasPrefix (ToLower token) ''keyword:''" "\<not> HasPrefix (ToLower token) ''regexp:''"
      "\<not> HasPrefix (ToLower token) ''dotless:''" by auto
    show ?thesis
    proof (cases "geo token")
      case (Some g)
      then show ?thesis
        using c False no extends_geo [OF assms]
        by (cases g) (simp_all add: compileDomainToken_def token_rules_def Let_def)
    next
      case None
      have tp: "TrimPrefix token ''*'' = drop 1 token" if "HasPrefix token ''*''"
        using that by (simp add: TrimPrefix_def)
      have tp2: "TrimPrefix token ''*.'' = drop 2 token" if "HasPrefix token ''*.''"
        using that by (simp add: TrimPrefix_def numeral_2_eq_2)
      show ?thesis
        using c False no None assms HasPrefix_star [of token] tp tp2
        by (auto simp: compileDomainToken_def token_rules_def Let_def extends_def dm_matches_add of_option_def
            keyword_rule_def split: option.splits)
    qed
  qed
qed

lemma extends_fold:
  assumes "host \<noteq> []"
  shows "extends re_match host m (concat (map (\<lambda>e. token_rules url_host re_compile geo (policy_token e)) es))
     (fold (\<lambda>e. compileDomainToken url_host re_compile geo (policy_token e)) es m)"
proof (induction es arbitrary: m)
  case (Cons e es)
  from extends_trans [OF extends_token [OF assms] Cons.IH] show ?case by simp
qed simp

text \<open>The compiled matcher accepts exactly the hosts of its rules.\<close>

lemma domain_rules_reference:
  "let (matcher, hasEntries) = compileDomainMatcher url_host re_compile geo entries;
       host = policy_normalizeHostFromAddr url_host addr
   in (case matcher of None \<Rightarrow> False | Some m \<Rightarrow> dm_Contains url_host re_match addr m) =
        (host \<noteq> [] \<and> ParseAddr host = None \<and>
         (\<exists>e \<in> set entries. active_entry e \<and>
            (\<exists>r \<in> set (token_rules url_host re_compile geo (policy_token e)). rule_matches re_match host r))) \<and>
      hasEntries = (\<exists>e \<in> set entries. active_entry e)"
proof -
  define host where "host = policy_normalizeHostFromAddr url_host addr"
  define es where "es = filter active_entry entries"
  define m where "m = fold (\<lambda>e. compileDomainToken url_host re_compile geo (policy_token e)) es (emptyMatcher :: 'a DomainMatcher)"
  have "matcher_empty (emptyMatcher :: 'a DomainMatcher)"
    by (simp add: matcher_empty_def emptyMatcher_def)
  then have "\<not> dm_matches re_match host (emptyMatcher :: 'a DomainMatcher)"
    by (rule dm_matches_empty)
  then have rules: "dm_matches re_match host m \<longleftrightarrow>
      (\<exists>e \<in> set es. \<exists>r \<in> set (token_rules url_host re_compile geo (policy_token e)). rule_matches re_match host r)"
    if "host \<noteq> []"
    using extends_fold [OF that, of re_match emptyMatcher url_host re_compile geo es] by (auto simp: extends_def m_def)
  have "dm_Contains url_host re_match addr m \<longleftrightarrow> host \<noteq> [] \<and> ParseAddr host = None \<and> dm_matches re_match host m"
    by (simp add: dm_Contains_def dm_matches_def flip: host_def)
  then show ?thesis
    unfolding compileDomainMatcher_def Let_def es_def [symmetric] m_def [symmetric] host_def [symmetric]
    using rules dm_matches_empty [of m re_match host]
    by (auto simp: es_def filter_empty_conv)
qed

end
