(* ===== verification/Policy_IP.thy ===== *)
theory Policy_IP
  imports Policy_Domain
begin

text \<open>
  IP rules of access policies (\<open>src/lib/policy/ip.go\<close>) and the policies themselves (\<open>policy.go\<close>).

  Outside the program and arguments here: the sets of the package \<open>netipx\<close> (\<open>ipset\<close> builds a set from
  prefixes, \<open>set_has\<close> asks it), with their documented meaning as the hypothesis \<open>ipset_spec\<close>, and the geoip
  data (\<open>geo_env\<close>: the default path, the path of an external file, the prefixes of a code).
\<close>

subsection \<open>Geoip rules\<close>

record geo_env =
  ge_default :: string
  ge_external :: "string \<Rightarrow> string"
  ge_load :: "string \<Rightarrow> string \<Rightarrow> Prefix list option"

definition splitExternalGeoDataRule :: "string \<Rightarrow> (string \<times> string) option" where
  "splitExternalGeoDataRule value0 =
     (let v = TrimSpace value0
      in if v = [] then None
         else
           (case Cut v CHR '':'' of
              None \<Rightarrow> None
            | Some (file, code) \<Rightarrow>
                (let file = TrimSpace file; code = TrimSpace code
                 in if file = [] \<or> code = [] then None else Some (file, code))))"

text \<open>\<open>None\<close>: not a geoip rule; \<open>Some None\<close>: an invalid one.\<close>

definition parseGeoIPRule :: "geo_env \<Rightarrow> string \<Rightarrow> (string \<times> string) option option" where
  "parseGeoIPRule env token =
     (let lower = ToLower token;
          ext = (\<lambda>n. Some (map_option (\<lambda>(file, code). (ge_external env file, code))
                      (splitExternalGeoDataRule (drop n token))))
      in if HasPrefix lower ''geoip:'' then Some (Some (ge_default env, TrimSpace (drop 6 token)))
         else if HasPrefix lower ''ext-ip:'' then ext 7
         else if HasPrefix lower ''ext:'' then ext 4
         else None)"

subsection \<open>The IP matcher\<close>

record 's IPMatcher =
  im_exact :: "Addr list"
  im_set :: "'s option"
  im_negative :: "'s list"

definition im_Contains :: "('s \<Rightarrow> Addr \<Rightarrow> bool) \<Rightarrow> Addr \<Rightarrow> 's IPMatcher \<Rightarrow> bool" where
  "im_Contains set_has addr0 m =
     (let addr = Unmap addr0
      in addr \<in> set (im_exact m) \<or> (case im_set m of Some s \<Rightarrow> set_has s addr | None \<Rightarrow> False) \<or>
         list_ex (\<lambda>s. \<not> set_has s addr) (im_negative m))"

text \<open>The variables of \<open>compileIPMatcher\<close>: the prefixes given to the builder, the negated sets, the addresses.\<close>

record 's ip_build =
  ib_prefixes :: "Prefix list"
  ib_negative :: "'s list"
  ib_exact :: "Addr list"

definition compileGeoIPToken ::
    "geo_env \<Rightarrow> (Prefix list \<Rightarrow> 's option) \<Rightarrow> string \<Rightarrow> 's ip_build \<Rightarrow> 's ip_build option" where
  "compileGeoIPToken env ipset token st =
     (case parseGeoIPRule env token of
        None \<Rightarrow> None
      | Some None \<Rightarrow> Some st
      | Some (Some (path, code0)) \<Rightarrow>
          (let reverse = HasPrefix code0 ''!''; code = (if reverse then TrimSpace (drop 1 code0) else code0)
           in if code = [] then Some st
              else
                (case ge_load env path code of
                   None \<Rightarrow> Some st
                 | Some pfs \<Rightarrow>
                     if reverse then
                       (case ipset pfs of
                          None \<Rightarrow> Some st
                        | Some s \<Rightarrow> Some (st\<lparr>ib_negative := ib_negative st @ [s]\<rparr>))
                     else Some (st\<lparr>ib_prefixes := ib_prefixes st @ pfs\<rparr>))))"

definition compileIPToken ::
    "(string \<Rightarrow> string option) \<Rightarrow> geo_env \<Rightarrow> (Prefix list \<Rightarrow> 's option) \<Rightarrow> string \<Rightarrow> 's ip_build \<Rightarrow> 's ip_build" where
  "compileIPToken url_host env ipset token st =
     (case compileGeoIPToken env ipset token st of
        Some st' \<Rightarrow> st'
      | None \<Rightarrow>
          (case parseIPv4WildcardPrefix token of
             Some p \<Rightarrow> st\<lparr>ib_prefixes := ib_prefixes st @ [p]\<rparr>
           | None \<Rightarrow>
               if Contains token ''*'' then st
               else if Contains token ''/'' then
                 (case ParsePrefix token of
                    None \<Rightarrow> st
                  | Some p \<Rightarrow> st\<lparr>ib_prefixes := ib_prefixes st @ [Masked p]\<rparr>)
               else
                 (case Option.bind (policy_normalizeHostToken url_host token) ParseAddr of
                    None \<Rightarrow> st
                  | Some a \<Rightarrow> st\<lparr>ib_exact := Unmap a # ib_exact st\<rparr>)))"

text \<open>The matcher (\<open>None\<close> if it has no rule) and whether there was any entry.\<close>

definition compileIPMatcher ::
    "(string \<Rightarrow> string option) \<Rightarrow> geo_env \<Rightarrow> (Prefix list \<Rightarrow> 's option) \<Rightarrow> string list \<Rightarrow> 's IPMatcher option \<times> bool" where
  "compileIPMatcher url_host env ipset entries =
     (let active = filter active_entry entries;
          st = fold (\<lambda>e. compileIPToken url_host env ipset (policy_token e)) active
                 \<lparr>ib_prefixes = [], ib_negative = [], ib_exact = []\<rparr>;
          s = (if ib_prefixes st \<noteq> [] then ipset (ib_prefixes st) else None)
      in (if ib_exact st = [] \<and> s = None \<and> ib_negative st = [] then None
          else Some \<lparr>im_exact = ib_exact st, im_set = s, im_negative = ib_negative st\<rparr>,
          active \<noteq> []))"

definition policy_parseAddr :: "string \<Rightarrow> Addr option" where
  "policy_parseAddr addr =
     map_option Unmap (Option.bind (ParseIPFromAddr (TrimSpace addr)) AddrFromSlice)"

subsection \<open>Policies\<close>

datatype Mode = ModeOff | ModeWhitelist | ModeBlacklist

definition NormalizeMode :: "int64 \<Rightarrow> Mode" where
  "NormalizeMode mode = (if mode = 1 then ModeWhitelist else if mode = 2 then ModeBlacklist else ModeOff)"

fun policy_allows :: "Mode \<Rightarrow> bool \<Rightarrow> bool \<Rightarrow> bool" where
  "policy_allows ModeWhitelist hasEntries matched = (if \<not> hasEntries then False else matched)"
| "policy_allows ModeBlacklist hasEntries matched = (if \<not> hasEntries then True else \<not> matched)"
| "policy_allows ModeOff hasEntries matched = True"

record 's SourceIPPolicy =
  sp_mode :: Mode
  sp_hasEntries :: bool
  sp_matcher :: "'s IPMatcher option"

definition CompileSourceIPPolicy ::
    "(string \<Rightarrow> string option) \<Rightarrow> geo_env \<Rightarrow> (Prefix list \<Rightarrow> 's option) \<Rightarrow> Mode \<Rightarrow> string list \<Rightarrow> 's SourceIPPolicy" where
  "CompileSourceIPPolicy url_host env ipset mode entries =
     (let (matcher, hasEntries) = compileIPMatcher url_host env ipset entries
      in \<lparr>sp_mode = mode, sp_hasEntries = hasEntries, sp_matcher = matcher\<rparr>)"

definition sp_AllowsAddr :: "('s \<Rightarrow> Addr \<Rightarrow> bool) \<Rightarrow> string \<Rightarrow> 's SourceIPPolicy option \<Rightarrow> bool" where
  "sp_AllowsAddr set_has addr p0 =
     (case p0 of
        None \<Rightarrow> True
      | Some p \<Rightarrow>
          (case policy_parseAddr addr of
             None \<Rightarrow> policy_allows (sp_mode p) (sp_hasEntries p) False
           | Some a \<Rightarrow>
               policy_allows (sp_mode p) (sp_hasEntries p)
                 (case sp_matcher p of None \<Rightarrow> False | Some m \<Rightarrow> im_Contains set_has a m)))"

definition sp_BlocksAddr :: "('s \<Rightarrow> Addr \<Rightarrow> bool) \<Rightarrow> string \<Rightarrow> 's SourceIPPolicy option \<Rightarrow> bool" where
  "sp_BlocksAddr set_has addr p = (\<not> sp_AllowsAddr set_has addr p)"

record ('s, 're) DestinationPolicy =
  dp_mode :: Mode
  dp_hasEntries :: bool
  dp_ipMatcher :: "'s IPMatcher option"
  dp_domainMatcher :: "'re DomainMatcher option"

definition splitRules :: "string \<Rightarrow> string list" where
  "splitRules raw =
     filter (\<lambda>p. p \<noteq> []) (map TrimSpace (Split (ReplaceAll [CHR 0x0D, CHR 0x0A] [CHR 0x0A] raw) CHR 0x0A))"

definition CompileDestinationPolicy ::
    "(string \<Rightarrow> string option) \<Rightarrow> (string \<Rightarrow> 're option) \<Rightarrow> (string \<Rightarrow> (geoSiteType \<times> string) list option option) \<Rightarrow>
     geo_env \<Rightarrow> (Prefix list \<Rightarrow> 's option) \<Rightarrow> Mode \<Rightarrow> string \<Rightarrow> ('s, 're) DestinationPolicy" where
  "CompileDestinationPolicy url_host re_compile geo env ipset mode raw =
     (let entries = splitRules raw;
          (ipMatcher, ipEntries) = compileIPMatcher url_host env ipset entries;
          (domainMatcher, domainEntries) = compileDomainMatcher url_host re_compile geo entries
      in \<lparr>dp_mode = mode, dp_hasEntries = (ipEntries \<or> domainEntries), dp_ipMatcher = ipMatcher,
          dp_domainMatcher = domainMatcher\<rparr>)"

definition dp_AllowsAddr ::
    "(string \<Rightarrow> string option) \<Rightarrow> ('re \<Rightarrow> string \<Rightarrow> bool) \<Rightarrow> ('s \<Rightarrow> Addr \<Rightarrow> bool) \<Rightarrow> string \<Rightarrow>
     ('s, 're) DestinationPolicy option \<Rightarrow> bool" where
  "dp_AllowsAddr url_host re_match set_has addr p0 =
     (case p0 of
        None \<Rightarrow> True
      | Some p \<Rightarrow>
          policy_allows (dp_mode p) (dp_hasEntries p)
            (case policy_parseAddr addr of
               Some a \<Rightarrow> (case dp_ipMatcher p of None \<Rightarrow> False | Some m \<Rightarrow> im_Contains set_has a m)
             | None \<Rightarrow>
                 (let host = policy_normalizeHostFromAddr url_host addr
                  in if host = [] then False
                     else (case dp_domainMatcher p of None \<Rightarrow> False | Some m \<Rightarrow> dm_Contains url_host re_match host m))))"

subsection \<open>Well-formed addresses and prefixes\<close>

definition prefix_ok :: "Prefix \<Rightarrow> bool" where
  "prefix_ok p \<longleftrightarrow>
     addr_ok (pf_addr p) \<and> Zone (pf_addr p) = [] \<and> 0 \<le> pf_bits p \<and> pf_bits p \<le> int (BitLen (pf_addr p))"

lemma length_parseIPv4Fields: "parseIPv4Fields s = Some b \<Longrightarrow> length b = 4"
  by (auto simp: parseIPv4Fields_def Let_def split: if_splits)

lemma v6_groups_length:
  "v6_groups n s ip el = Some (ip', el', r) \<Longrightarrow> length ip + 2 * n \<le> 16 \<Longrightarrow> (\<forall>e. el = Some e \<longrightarrow> e \<le> length ip) \<Longrightarrow>
   length ip' \<le> 16 \<and> (\<forall>e. el' = Some e \<longrightarrow> e \<le> length ip')"
proof (induction n arbitrary: s ip el)
  case (Suc n)
  define h where "h = takeWhile is_hex s"
  define t where "t = dropWhile is_hex s"
  define jp where "jp = ip @ [word_of_nat (hex_value h div 256), word_of_nat (hex_value h mod 256) :: 8 word]"
  have j: "length jp = length ip + 2" by (simp add: jp_def)
  have IH: "v6_groups n u jp el2 = Some (ip', el', r) \<Longrightarrow> (\<forall>e. el2 = Some e \<longrightarrow> e \<le> length ip + 2) \<Longrightarrow>
      length ip' \<le> 16 \<and> (\<forall>e. el' = Some e \<longrightarrow> e \<le> length ip')" for u el2
    using Suc.IH [of u jp el2] Suc.prems(2) by (simp add: j)
  have le: "\<forall>e. el = Some e \<longrightarrow> e \<le> length ip + 2"
    using Suc.prems(3) by auto
  have n: "length ip + 2 \<le> 16" using Suc.prems(2) by simp
  show ?case
    using Suc.prems(1)
    unfolding v6_groups.simps Let_def h_def [symmetric] t_def [symmetric] jp_def [symmetric]
    using j n le IH [of "tl t" el] IH [of "tl (tl t)" "Some (length jp)"] length_parseIPv4Fields [of s] Suc.prems(3)
    by (auto split: if_splits)
qed auto

lemma v6_expand_length:
  "v6_expand (ip, el, r) = Some b \<Longrightarrow> length ip \<le> 16 \<Longrightarrow> (\<forall>e. el = Some e \<longrightarrow> e \<le> length ip) \<Longrightarrow> length b = 16"
  by (auto simp: v6_expand_def split: if_splits)

lemma v6_length:
  assumes "Option.bind (v6_groups 8 s [] el) v6_expand = Some b" "el = None \<or> el = Some 0"
  shows "length b = 16"
proof -
  obtain ip el' r where g: "v6_groups 8 s [] el = Some (ip, el', r)" and e: "v6_expand (ip, el', r) = Some b"
    using assms(1) by (auto simp: bind_eq_Some_conv)
  from v6_groups_length [OF g] assms(2) have "length ip \<le> 16 \<and> (\<forall>e. el' = Some e \<longrightarrow> e \<le> length ip)"
    by auto
  with v6_expand_length [OF e] show ?thesis by blast
qed

lemma parseIPv6_ok: "parseIPv6 s = Some a \<Longrightarrow> addr_ok a"
  unfolding parseIPv6_def Let_def
  by (auto split: if_splits simp: addr_ok_def dest!: v6_length)

lemma ParseAddr_ok: "ParseAddr s = Some a \<Longrightarrow> addr_ok a"
  unfolding ParseAddr_def
  by (auto split: option.splits if_splits simp: addr_ok_def dest: length_parseIPv4Fields parseIPv6_ok [unfolded addr_ok_def])

lemma map_addr_simps [simp]:
  "Is4 (map_addr f a) = Is4 a" "Zone (map_addr f a) = Zone a" "BitLen (map_addr f a) = BitLen a"
  by (simp_all add: map_addr_def Is4_def Zone_def BitLen_def split: Addr.split)

lemma length_mask_bytes [simp]: "length (mask_bytes n bs) = length bs"
  by (induction n bs rule: mask_bytes.induct) auto

lemma prefix_ok_Masked: "prefix_ok p \<Longrightarrow> prefix_ok (Masked p)"
  by (auto simp: prefix_ok_def Masked_def addr_ok_def map_addr_def BitLen_def Is4_def Zone_def split: Addr.splits)

lemma prefix_ok_ParsePrefix: "ParsePrefix s = Some p \<Longrightarrow> prefix_ok p"
  using ParseAddr_ok by (auto simp: ParsePrefix_def prefix_ok_def Let_def split: option.splits if_splits)

lemma prefix_ok_PrefixFrom: "PrefixFrom a n = Some p \<Longrightarrow> addr_ok a \<Longrightarrow> prefix_ok p"
  by (auto simp: PrefixFrom_def prefix_ok_def addr_ok_def WithoutZone_def BitLen_def Is4_def Zone_def
      split: if_splits Addr.splits)

lemma prefix_ok_wildcard: "parseIPv4WildcardPrefix s = Some p \<Longrightarrow> prefix_ok p"
  unfolding parseIPv4WildcardPrefix_def Let_def
  by (auto split: option.splits if_splits Addr.splits
      dest!: ParseAddr_ok intro: prefix_ok_Masked [OF prefix_ok_PrefixFrom])

lemma Unmap_ok: "addr_ok a \<Longrightarrow> addr_ok (Unmap a)" "Zone a = [] \<Longrightarrow> Zone (Unmap a) = []"
  by (auto simp: addr_ok_def Unmap_def Zone_def split: Addr.split)

lemma Unmap_Unmap [simp]: "Unmap (Unmap a) = Unmap a"
  by (cases a) (simp_all add: Unmap_def Is4In6_def)

lemma policy_parseAddr_ok:
  assumes "policy_parseAddr s = Some a"
  shows "addr_ok a" "Zone a = []" "Unmap a = a"
proof -
  obtain b a0 where "AddrFromSlice b = Some a0" "a = Unmap a0"
    using assms by (auto simp: policy_parseAddr_def bind_eq_Some_conv)
  then show "addr_ok a" "Zone a = []" "Unmap a = a"
    using Unmap_ok [of a0] by (auto simp: AddrFromSlice_def addr_ok_def Zone_def split: if_splits)
qed

subsection \<open>The meaning of the rules\<close>

text \<open>What the code relies on: an address set holds what its prefixes hold; geoip data are valid prefixes.\<close>

definition ipset_spec :: "(Prefix list \<Rightarrow> 's option) \<Rightarrow> ('s \<Rightarrow> Addr \<Rightarrow> bool) \<Rightarrow> bool" where
  "ipset_spec ipset set_has \<longleftrightarrow>
     (\<forall>ps. list_all prefix_ok ps \<longrightarrow>
        (\<exists>s. ipset ps = Some s \<and>
             (\<forall>a. addr_ok a \<and> Zone a = [] \<longrightarrow> set_has s a = list_ex (\<lambda>p. pf_Contains p a) ps)))"

definition geo_env_ok :: "geo_env \<Rightarrow> bool" where
  "geo_env_ok env \<longleftrightarrow> (\<forall>path code ps. ge_load env path code = Some ps \<longrightarrow> list_all prefix_ok ps)"

text \<open>Reference: what a rule says about an address.\<close>

datatype ip_rule = RuleAddr Addr | RuleIn "Prefix list" | RuleNotIn "Prefix list"

fun ip_rule_matches :: "Addr \<Rightarrow> ip_rule \<Rightarrow> bool" where
  "ip_rule_matches a (RuleAddr b) = (a = b)"
| "ip_rule_matches a (RuleIn ps) = list_ex (\<lambda>p. pf_Contains p a) ps"
| "ip_rule_matches a (RuleNotIn ps) = (\<not> list_ex (\<lambda>p. pf_Contains p a) ps)"

definition geoip_rule :: "geo_env \<Rightarrow> string \<Rightarrow> string \<Rightarrow> ip_rule option" where
  "geoip_rule env path code =
     (if HasPrefix code ''!''
      then (let c = TrimSpace (tl code) in if c = [] then None else map_option RuleNotIn (ge_load env path c))
      else if code = [] then None else map_option RuleIn (ge_load env path code))"

definition ip_token_rule :: "(string \<Rightarrow> string option) \<Rightarrow> geo_env \<Rightarrow> string \<Rightarrow> ip_rule option" where
  "ip_token_rule url_host env token =
     (case parseGeoIPRule env token of
        Some r \<Rightarrow> Option.bind r (\<lambda>(path, code). geoip_rule env path code)
      | None \<Rightarrow>
          (case parseIPv4WildcardPrefix token of
             Some p \<Rightarrow> Some (RuleIn [p])
           | None \<Rightarrow>
               if CHR ''*'' \<in> set token then None
               else if CHR ''/'' \<in> set token then map_option (\<lambda>p. RuleIn [Masked p]) (ParsePrefix token)
               else map_option (\<lambda>a. RuleAddr (Unmap a)) (Option.bind (policy_normalizeHostToken url_host token) ParseAddr)))"

definition ib_ok :: "'s ip_build \<Rightarrow> bool" where
  "ib_ok st \<longleftrightarrow> list_all prefix_ok (ib_prefixes st)"

definition ib_matches :: "('s \<Rightarrow> Addr \<Rightarrow> bool) \<Rightarrow> Addr \<Rightarrow> 's ip_build \<Rightarrow> bool" where
  "ib_matches set_has a st \<longleftrightarrow>
     a \<in> set (ib_exact st) \<or> list_ex (\<lambda>p. pf_Contains p a) (ib_prefixes st) \<or>
     list_ex (\<lambda>s. \<not> set_has s a) (ib_negative st)"

definition rule_opt_matches :: "Addr \<Rightarrow> ip_rule option \<Rightarrow> bool" where
  "rule_opt_matches a r = (case r of None \<Rightarrow> False | Some r \<Rightarrow> ip_rule_matches a r)"

lemma rule_opt_matches_simps [simp]:
  "rule_opt_matches a None = False" "rule_opt_matches a (Some r) = ip_rule_matches a r"
  by (simp_all add: rule_opt_matches_def)

lemma ipset_specE:
  assumes "ipset_spec ipset set_has" "list_all prefix_ok ps"
  obtains s where "ipset ps = Some s"
    "\<And>a. addr_ok a \<Longrightarrow> Zone a = [] \<Longrightarrow> set_has s a = list_ex (\<lambda>p. pf_Contains p a) ps"
  using assms unfolding ipset_spec_def by blast

lemma geoip_token_step:
  assumes spec: "ipset_spec ipset set_has" and env: "geo_env_ok env" and a: "addr_ok a" "Zone a = []" and ok: "ib_ok st"
    and r: "compileGeoIPToken env ipset token st = Some st'"
  shows "ib_ok st' \<and> ib_matches set_has a st' = (ib_matches set_has a st \<or> rule_opt_matches a (ip_token_rule url_host env token))"
proof -
  from r obtain p where p: "parseGeoIPRule env token = Some p"
    by (cases "parseGeoIPRule env token") (auto simp: compileGeoIPToken_def)
  show ?thesis
  proof (cases p)
    case None
    with p r ok show ?thesis by (simp add: compileGeoIPToken_def ip_token_rule_def)
  next
    case (Some pc)
    obtain path code where pc: "pc = (path, code)" by fastforce
    define rv where "rv = HasPrefix code ''!''"
    define c where "c = (if rv then TrimSpace (tl code) else code)"
    have g: "geoip_rule env path code = (if c = [] then None else map_option (if rv then RuleNotIn else RuleIn) (ge_load env path c))"
      by (simp add: geoip_rule_def c_def rv_def Let_def)
    have t: "ip_token_rule url_host env token = geoip_rule env path code"
      by (simp add: ip_token_rule_def p Some pc)
    have cc: "(if HasPrefix code ''!'' then TrimSpace (drop 1 code) else code) = c"
      by (simp add: c_def rv_def drop_Suc)
    show ?thesis
    proof (cases "c = [] \<or> ge_load env path c = None")
      case True
      then have "st' = st"
        using r unfolding compileGeoIPToken_def p Some pc Let_def option.case prod.case cc by (auto split: if_splits)
      with True ok show ?thesis by (auto simp: t g)
    next
      case False
      then obtain ps where ps: "c \<noteq> []" "ge_load env path c = Some ps" by auto
      with env have pok: "list_all prefix_ok ps" by (auto simp: geo_env_ok_def)
      obtain s where s: "ipset ps = Some s"
        "\<And>a. addr_ok a \<Longrightarrow> Zone a = [] \<Longrightarrow> set_has s a = list_ex (\<lambda>p. pf_Contains p a) ps"
        using ipset_specE [OF spec pok] by blast
      have "st' = (if rv then st\<lparr>ib_negative := ib_negative st @ [s]\<rparr> else st\<lparr>ib_prefixes := ib_prefixes st @ ps\<rparr>)"
        using r ps s(1) unfolding compileGeoIPToken_def p Some pc Let_def option.case prod.case cc
        unfolding rv_def [symmetric] by (simp split: if_splits)
      then show ?thesis
        using ok pok s(2) [OF a] by (auto simp: t g ps ib_ok_def ib_matches_def)
    qed
  qed
qed

lemma ip_token_step:
  assumes "ipset_spec ipset set_has" "geo_env_ok env" "addr_ok a" "Zone a = []" "ib_ok st"
  shows "ib_ok (compileIPToken url_host env ipset token st) \<and>
         ib_matches set_has a (compileIPToken url_host env ipset token st) =
           (ib_matches set_has a st \<or> rule_opt_matches a (ip_token_rule url_host env token))"
proof (cases "compileGeoIPToken env ipset token st")
  case (Some st')
  with geoip_token_step [OF assms Some] show ?thesis by (simp add: compileIPToken_def)
next
  case None
  then have p: "parseGeoIPRule env token = None"
    by (auto simp: compileGeoIPToken_def Let_def split: option.splits if_splits)
  show ?thesis
    using assms(5) prefix_ok_wildcard [of token] prefix_ok_Masked prefix_ok_ParsePrefix [of token]
    by (auto simp: compileIPToken_def None ip_token_rule_def p ib_ok_def ib_matches_def split: option.splits)
qed

lemma ip_fold_step:
  assumes "ipset_spec ipset set_has" "geo_env_ok env" "addr_ok a" "Zone a = []" "ib_ok st"
  shows "ib_ok (fold (\<lambda>e. compileIPToken url_host env ipset (policy_token e)) es st) \<and>
         ib_matches set_has a (fold (\<lambda>e. compileIPToken url_host env ipset (policy_token e)) es st) =
           (ib_matches set_has a st \<or> (\<exists>e \<in> set es. rule_opt_matches a (ip_token_rule url_host env (policy_token e))))"
  using assms(5)
proof (induction es arbitrary: st)
  case (Cons e es)
  from ip_token_step [OF assms(1-4) Cons.prems]
  have "ib_ok (compileIPToken url_host env ipset (policy_token e) st)" by blast
  from Cons.IH [OF this] ip_token_step [OF assms(1-4) Cons.prems] show ?case by auto
qed simp

text \<open>The compiled matcher accepts exactly the addresses of its rules.\<close>

lemma ip_rules_reference:
  assumes spec: "ipset_spec ipset set_has" and env: "geo_env_ok env" and a: "addr_ok a" "Zone a = []" "Unmap a = a"
  shows "(case fst (compileIPMatcher url_host env ipset entries) of None \<Rightarrow> False | Some m \<Rightarrow> im_Contains set_has a m) =
      (\<exists>e \<in> set entries. active_entry e \<and> rule_opt_matches a (ip_token_rule url_host env (policy_token e)))"
proof -
  define es where "es = filter active_entry entries"
  define st0 :: "'a ip_build" where "st0 = \<lparr>ib_prefixes = [], ib_negative = [], ib_exact = []\<rparr>"
  define st where "st = fold (\<lambda>e. compileIPToken url_host env ipset (policy_token e)) es st0"
  define s where "s = (if ib_prefixes st \<noteq> [] then ipset (ib_prefixes st) else None)"
  have st: "ib_ok st \<and> ib_matches set_has a st =
      (\<exists>e \<in> set es. rule_opt_matches a (ip_token_rule url_host env (policy_token e)))"
    using ip_fold_step [OF spec env a(1,2), of st0 url_host es]
    by (simp add: st_def st0_def ib_ok_def ib_matches_def)
  have s: "(case s of Some s \<Rightarrow> set_has s a | None \<Rightarrow> False) = list_ex (\<lambda>p. pf_Contains p a) (ib_prefixes st)"
  proof -
    obtain u where "ipset (ib_prefixes st) = Some u"
      "\<And>a. addr_ok a \<Longrightarrow> Zone a = [] \<Longrightarrow> set_has u a = list_ex (\<lambda>p. pf_Contains p a) (ib_prefixes st)"
      using ipset_specE [OF spec st [unfolded ib_ok_def, THEN conjunct1]] by blast
    then show ?thesis using a by (simp add: s_def)
  qed
  have "(case fst (compileIPMatcher url_host env ipset entries) of None \<Rightarrow> False | Some m \<Rightarrow> im_Contains set_has a m) =
      ib_matches set_has a st"
    unfolding compileIPMatcher_def Let_def es_def [symmetric] st0_def [symmetric] st_def [symmetric] s_def [symmetric]
    using s by (auto simp: im_Contains_def a(3) ib_matches_def Let_def)
  with st show ?thesis by (auto simp: es_def)
qed

subsection \<open>Decisions\<close>

lemma active_none:
  "snd (compileIPMatcher url_host env ipset entries) = (\<exists>e \<in> set entries. active_entry e)"
  by (auto simp: compileIPMatcher_def Let_def filter_empty_conv)

text \<open>What a mode makes of the answer whether some rule matches.\<close>

fun mode_decision :: "Mode \<Rightarrow> bool \<Rightarrow> bool" where
  "mode_decision ModeOff matched = True"
| "mode_decision ModeWhitelist matched = matched"
| "mode_decision ModeBlacklist matched = (\<not> matched)"

lemma allows_decision: "(matched \<Longrightarrow> hasEntries) \<Longrightarrow> policy_allows mode hasEntries matched = mode_decision mode matched"
  by (cases mode) auto

text \<open>Whether an entry of the list matches an address, by IP rules or by domain rules.\<close>

definition ip_listed :: "(string \<Rightarrow> string option) \<Rightarrow> geo_env \<Rightarrow> string list \<Rightarrow> Addr \<Rightarrow> bool" where
  "ip_listed url_host env entries a \<longleftrightarrow>
     (\<exists>e \<in> set entries. active_entry e \<and> rule_opt_matches a (ip_token_rule url_host env (policy_token e)))"

definition domain_listed ::
    "(string \<Rightarrow> string option) \<Rightarrow> (string \<Rightarrow> 're option) \<Rightarrow> ('re \<Rightarrow> string \<Rightarrow> bool) \<Rightarrow>
     (string \<Rightarrow> (geoSiteType \<times> string) list option option) \<Rightarrow> string list \<Rightarrow> string \<Rightarrow> bool" where
  "domain_listed url_host re_compile re_match geo entries host \<longleftrightarrow>
     host \<noteq> [] \<and> ParseAddr host = None \<and>
     (\<exists>e \<in> set entries. active_entry e \<and>
        (\<exists>r \<in> set (token_rules url_host re_compile geo (policy_token e)). rule_matches re_match host r))"

lemma ip_listed_matcher:
  assumes "ipset_spec ipset set_has" "geo_env_ok env" "policy_parseAddr addr = Some a"
  shows "(case fst (compileIPMatcher url_host env ipset entries) of None \<Rightarrow> False | Some m \<Rightarrow> im_Contains set_has a m) =
      ip_listed url_host env entries a"
  using ip_rules_reference [OF assms(1,2) policy_parseAddr_ok [OF assms(3)]] by (simp add: ip_listed_def)

lemma domain_listed_matcher:
  "(case fst (compileDomainMatcher url_host re_compile geo entries) of
      None \<Rightarrow> False | Some m \<Rightarrow> dm_Contains url_host re_match addr m) =
    domain_listed url_host re_compile re_match geo entries (policy_normalizeHostFromAddr url_host addr)"
  using domain_rules_reference
    [where url_host = url_host and re_compile = re_compile and geo = geo and entries = entries and addr = addr
      and re_match = re_match]
  by (auto simp: domain_listed_def Let_def split: prod.splits)

lemma domain_entries:
  "snd (compileDomainMatcher url_host re_compile geo entries) = (\<exists>e \<in> set entries. active_entry e)"
  by (auto simp: compileDomainMatcher_def Let_def filter_empty_conv)

lemma listed_active:
  "ip_listed url_host env entries a \<Longrightarrow> \<exists>e \<in> set entries. active_entry e"
  "domain_listed url_host re_compile re_match geo entries host \<Longrightarrow> \<exists>e \<in> set entries. active_entry e"
  by (auto simp: ip_listed_def domain_listed_def)

lemma source_decision:
  assumes "ipset_spec ipset set_has" "geo_env_ok env"
  shows "sp_AllowsAddr set_has addr (Some (CompileSourceIPPolicy url_host env ipset mode entries)) =
    mode_decision mode (case policy_parseAddr addr of None \<Rightarrow> False | Some a \<Rightarrow> ip_listed url_host env entries a)"
proof -
  obtain m h where c: "compileIPMatcher url_host env ipset entries = (m, h)" by fastforce
  have h: "h = (\<exists>e \<in> set entries. active_entry e)"
    using active_none [of url_host env ipset entries] c by simp
  show ?thesis
  proof (cases "policy_parseAddr addr")
    case None
    then show ?thesis by (simp add: sp_AllowsAddr_def CompileSourceIPPolicy_def c allows_decision)
  next
    case (Some a)
    from ip_listed_matcher [OF assms Some, of url_host entries] listed_active(1) [of url_host env entries a] h
    show ?thesis by (simp add: sp_AllowsAddr_def CompileSourceIPPolicy_def c Some allows_decision)
  qed
qed

lemma destination_decision:
  assumes "ipset_spec ipset set_has" "geo_env_ok env"
  shows "dp_AllowsAddr url_host re_match set_has addr
      (Some (CompileDestinationPolicy url_host re_compile geo env ipset mode raw)) =
    mode_decision mode
      (case policy_parseAddr addr of
         Some a \<Rightarrow> ip_listed url_host env (splitRules raw) a
       | None \<Rightarrow>
           (let host = policy_normalizeHostFromAddr url_host addr
            in host \<noteq> [] \<and>
               domain_listed url_host re_compile re_match geo (splitRules raw) (policy_normalizeHostFromAddr url_host host)))"
proof -
  obtain m h where c: "compileIPMatcher url_host env ipset (splitRules raw) = (m, h)" by fastforce
  obtain d k where d: "compileDomainMatcher url_host re_compile geo (splitRules raw) = (d, k)" by fastforce
  have h: "h = (\<exists>e \<in> set (splitRules raw). active_entry e)" "k = h"
    using active_none [of url_host env ipset "splitRules raw"] c
      domain_entries [of url_host re_compile geo "splitRules raw"] d by simp_all
  show ?thesis
  proof (cases "policy_parseAddr addr")
    case None
    define host where "host = policy_normalizeHostFromAddr url_host addr"
    from domain_listed_matcher [where url_host = url_host and re_compile = re_compile and geo = geo
        and entries = "splitRules raw" and re_match = re_match and addr = host]
      listed_active(2) [of url_host re_compile re_match geo "splitRules raw" "policy_normalizeHostFromAddr url_host host"] h
    show ?thesis
      by (auto simp: dp_AllowsAddr_def CompileDestinationPolicy_def c d None Let_def allows_decision simp flip: host_def)
  next
    case (Some a)
    from ip_listed_matcher [OF assms Some, of url_host "splitRules raw"]
      listed_active(1) [of url_host env "splitRules raw" a] h
    show ?thesis by (simp add: dp_AllowsAddr_def CompileDestinationPolicy_def c d Some allows_decision)
  qed
qed

end
