(* ===== verification/Policy_Geo.thy ===== *)
theory Policy_Geo
  imports Policy_IP
begin

text \<open>
  Geo data of access policies (\<open>src/lib/policy/geoip.go\<close>, \<open>geosite.go\<close>): the search for a record in a framed file,
  the decoding of records, the caches, and the rules that name them.

  A file is the bytes it holds (\<open>files\<close>, \<open>None\<close> if it cannot be opened); reading ends with the end of the file.
  The package \<open>protowire\<close> is outside the program and a record of functions here; a negative length of the code is
  \<open>None\<close>.  What the code relies on is \<open>protowire_ok\<close>: a tag takes at least one byte and not more than there are.
  Paths are those of a Unix system.
\<close>

subsection \<open>Strings, bytes and paths\<close>

definition upper_char :: "char \<Rightarrow> char" where
  "upper_char c = (if 97 \<le> byte_of c \<and> byte_of c \<le> 122 then char_of (byte_of c - 32) else c)"

definition ToUpper :: "string \<Rightarrow> string" where
  "ToUpper s = map upper_char s"

definition string_bytes :: "string \<Rightarrow> bytes" where
  "string_bytes s = map (\<lambda>c. word_of_nat (byte_of c)) s"

definition bytes_string :: "bytes \<Rightarrow> string" where
  "bytes_string b = map (\<lambda>w. char_of (unat w)) b"

definition path_IsAbs :: "string \<Rightarrow> bool" where
  "path_IsAbs p = HasPrefix p ''/''"

fun clean_parts :: "bool \<Rightarrow> string list \<Rightarrow> string list \<Rightarrow> string list" where
  "clean_parts rooted [] out = rev out"
| "clean_parts rooted (p # ps) out =
     (if p = [] \<or> p = ''.'' then clean_parts rooted ps out
      else if p = ''..'' then
        (if out \<noteq> [] \<and> hd out \<noteq> ''..'' then clean_parts rooted ps (tl out)
         else if rooted then clean_parts rooted ps out
         else clean_parts rooted ps (p # out))
      else clean_parts rooted ps (p # out))"

definition path_Clean :: "string \<Rightarrow> string" where
  "path_Clean p =
     (let rooted = path_IsAbs p; s = Join (clean_parts rooted (Split p CHR ''/'') []) CHR ''/''
      in if rooted then CHR ''/'' # s else if s = [] then ''.'' else s)"

definition path_Join :: "string list \<Rightarrow> string" where
  "path_Join ps =
     (let qs = filter (\<lambda>p. p \<noteq> []) ps in if qs = [] then [] else path_Clean (Join qs CHR ''/''))"

definition path_Dir :: "string \<Rightarrow> string" where
  "path_Dir p = path_Clean (case LastIndexByte p CHR ''/'' of None \<Rightarrow> [] | Some i \<Rightarrow> take (Suc i) p)"

definition ResolvePath :: "string \<Rightarrow> string \<Rightarrow> string" where
  "ResolvePath run_path path = (if path_IsAbs path then path else path_Join [run_path, path])"

text \<open>\<open>ResolveGeoIPPath\<close> and \<open>ResolveGeoSitePath\<close> differ in the name of the file.\<close>

definition ResolveGeoPath :: "string \<Rightarrow> string \<Rightarrow> string \<Rightarrow> string \<Rightarrow> string" where
  "ResolveGeoPath name run_path configPath configuredPath =
     (let path = TrimSpace configuredPath
      in if path \<noteq> [] then
           (if path_IsAbs path then path
            else if configPath \<noteq> [] then path_Join [path_Dir configPath, path]
            else ResolvePath run_path path)
         else if configPath \<noteq> [] then path_Join [path_Dir configPath, name]
         else path_Join [run_path, ''conf'', name])"

definition ResolveGeoIPPath :: "string \<Rightarrow> string \<Rightarrow> string \<Rightarrow> string" where
  "ResolveGeoIPPath = ResolveGeoPath ''geoip.dat''"

definition ResolveGeoSitePath :: "string \<Rightarrow> string \<Rightarrow> string \<Rightarrow> string" where
  "ResolveGeoSitePath = ResolveGeoPath ''geosite.dat''"

text \<open>The configured path, the default set at start-up, or the one beside the program.\<close>

definition resolveGeoIPPath :: "string \<Rightarrow> string \<Rightarrow> string \<Rightarrow> string" where
  "resolveGeoIPPath run_path default_path opt_path =
     (if TrimSpace opt_path \<noteq> [] then ResolveGeoIPPath run_path [] (TrimSpace opt_path)
      else if default_path \<noteq> [] then default_path
      else path_Join [run_path, ''conf'', ''geoip.dat''])"

definition resolveGeoSitePath :: "string \<Rightarrow> string \<Rightarrow> string \<Rightarrow> string" where
  "resolveGeoSitePath run_path default_path opt_path =
     (if TrimSpace opt_path \<noteq> [] then ResolveGeoSitePath run_path [] (TrimSpace opt_path)
      else if default_path \<noteq> [] then default_path
      else path_Join [run_path, ''conf'', ''geosite.dat''])"

definition SetDefaultGeoIPPath :: "string \<Rightarrow> string" where
  "SetDefaultGeoIPPath path = TrimSpace path"

definition SetDefaultGeoSitePath :: "string \<Rightarrow> string" where
  "SetDefaultGeoSitePath path = TrimSpace path"

definition resolveGeoDataExternalPath :: "string \<Rightarrow> string \<Rightarrow> string \<Rightarrow> string" where
  "resolveGeoDataExternalPath run_path defaultPath file0 =
     (let file = TrimSpace file0
      in if file = [] then []
         else if path_IsAbs file then file
         else if defaultPath \<noteq> [] then path_Join [path_Dir defaultPath, file]
         else ResolvePath run_path file)"

subsection \<open>The framed file\<close>

datatype geo_error =
    EmptyCode
  | CodeNotFound
  | ReadError
  | VarintOverflow
  | InvalidLength
  | WireError
  | NoEntries
  | OpenError
  | NotReturned

fun decodeVarint_loop :: "uint64 \<Rightarrow> nat \<Rightarrow> bytes \<Rightarrow> geo_error + (uint64 \<times> bytes)" where
  "decodeVarint_loop value0 shift r =
     (if shift < 64 then
        (case r of
           [] \<Rightarrow> Inl ReadError
         | b # bs \<Rightarrow>
             (let v = value0 OR push_bit shift (ucast b AND 0x7F)
              in if b AND 0x80 = 0 then Inr (v, bs) else decodeVarint_loop v (shift + 7) bs))
      else Inl VarintOverflow)"

definition decodeVarint :: "bytes \<Rightarrow> geo_error + (uint64 \<times> bytes)" where
  "decodeVarint r = decodeVarint_loop 0 0 r"

declare decodeVarint_loop.simps [simp del]

lemma decodeVarint_loop_shorter: "decodeVarint_loop v s r = Inr (x, r') \<Longrightarrow> length r' < length r"
proof (induction v s r rule: decodeVarint_loop.induct)
  case (1 v s r)
  show ?case
    using 1(2) 1(1) [OF _ _ refl] by (subst (asm) decodeVarint_loop.simps) (fastforce split: list.splits if_splits simp: Let_def)
qed

text \<open>A record is a tag byte, the length of the body as a varint, and the body, which begins with its code.\<close>

definition frame_matches :: "bytes \<Rightarrow> bytes \<Rightarrow> bool" where
  "frame_matches code pre \<longleftrightarrow>
     unat (pre ! 1) = length code \<and> take (length code) (drop 2 pre) = code"

function findFramed_loop :: "bytes \<Rightarrow> bytes \<Rightarrow> geo_error + bytes" where
  "findFramed_loop code r =
     (case r of
        [] \<Rightarrow> Inl CodeNotFound
      | _ # r1 \<Rightarrow>
          (case decodeVarint r1 of
             Inl e \<Rightarrow> Inl e
           | Inr (sz, r2) \<Rightarrow>
               if sint sz \<le> 0 then Inl InvalidLength
               else
                 (let bodyLen = nat (sint sz); need = 2 + length code; prefixLen = min bodyLen need
                  in if length r2 < prefixLen then Inl ReadError
                     else
                       (let pre = take prefixLen r2; r3 = drop prefixLen r2; remain = bodyLen - prefixLen
                        in if need \<le> bodyLen \<and> frame_matches code pre then
                             (if length r3 < remain then Inl ReadError else Inr (pre @ take remain r3))
                           else if length r3 < remain then Inl ReadError
                           else findFramed_loop code (drop remain r3)))))"
  by pat_completeness auto
termination
  by (relation "measure (length \<circ> snd)") (auto simp: decodeVarint_def intro: le_less_trans [OF diff_le_self]
      dest!: decodeVarint_loop_shorter)

declare findFramed_loop.simps [simp del]

definition findFramedCodeRecord :: "bytes \<Rightarrow> bytes \<Rightarrow> geo_error + bytes" where
  "findFramedCodeRecord r code = (if code = [] then Inl EmptyCode else findFramed_loop code r)"

subsection \<open>Searching a well-formed file\<close>

text \<open>How such a file is written: the varint of a number, a record, the records one after the other.\<close>

fun varint :: "nat \<Rightarrow> bytes" where
  "varint n = (if n < 128 then [word_of_nat n] else word_of_nat (n mod 128 + 128) # varint (n div 128))"

declare varint.simps [simp del]

definition geo_frame :: "uint8 \<times> bytes \<Rightarrow> bytes" where
  "geo_frame tr = (case tr of (tag, body) \<Rightarrow> tag # varint (length body) @ body)"

lemma or_push_bit:
  assumes "m < 2 ^ s"
  shows "(word_of_nat m :: uint64) OR push_bit s (word_of_nat d) = word_of_nat (m + d * 2 ^ s)"
proof -
  have "take_bit s m AND push_bit s d = 0"
    by (intro bit_eqI) (auto simp: bit_and_iff bit_push_bit_iff bit_take_bit_iff)
  moreover have "take_bit s m = m"
    using assms by (simp add: take_bit_nat_eq_self)
  ultimately have "m AND push_bit s d = 0" by simp
  then have "m + push_bit s d = m OR push_bit s d" by (rule disjunctive_add_eq_or)
  then have "word_of_nat (m + push_bit s d) = (word_of_nat m :: uint64) OR word_of_nat (push_bit s d)"
    by (simp only: of_nat_or_eq)
  then show ?thesis by (simp add: push_bit_eq_mult)
qed

lemma high_bit_clear: "n < 256 \<Longrightarrow> (word_of_nat n :: uint8) AND 0x80 = 0 \<longleftrightarrow> n < 128"
proof -
  assume n: "n < 256"
  have "(word_of_nat n :: uint8) AND 0x80 = 0 \<longleftrightarrow> \<not> bit (word_of_nat n :: uint8) 7"
    using and_exp_eq_0_iff_not_bit [of "word_of_nat n :: uint8" 7] by simp
  also have "\<dots> \<longleftrightarrow> even (n div 128)"
    by (simp only: bit_of_nat_iff) (simp add: bit_iff_odd)
  also have "\<dots> \<longleftrightarrow> n < 128"
    using n by (cases "n < 128") (simp_all add: div_if [of n 128])
  finally show ?thesis .
qed

lemma low_bits: "n < 256 \<Longrightarrow> (ucast (word_of_nat n :: uint8) :: uint64) AND 0x7F = word_of_nat (n mod 128)"
proof -
  assume n: "n < 256"
  have "(0x7F :: uint64) = mask 7" by (simp add: mask_eq_exp_minus_1)
  moreover have "ucast (word_of_nat n :: uint8) = (word_of_nat n :: uint64)"
    using n by (simp add: unsigned_of_nat take_bit_nat_eq_self)
  ultimately have "(ucast (word_of_nat n :: uint8) :: uint64) AND 0x7F = take_bit 7 (word_of_nat n)"
    by (simp add: take_bit_eq_mask)
  also have "\<dots> = word_of_nat (n mod 128)"
    by (simp only: take_bit_of_nat) (simp add: take_bit_eq_mod)
  finally show ?thesis .
qed

lemma decodeVarint_varint:
  "m < 2 ^ s \<Longrightarrow> s < 64 \<Longrightarrow> n < 2 ^ (64 - s) \<Longrightarrow>
   decodeVarint_loop (word_of_nat m) s (varint n @ r) = Inr (word_of_nat (m + n * 2 ^ s), r)"
proof (induction n arbitrary: m s rule: varint.induct)
  case (1 n)
  show ?case
  proof (cases "n < 128")
    case True
    then show ?thesis
      using 1(2,3) by (simp add: varint.simps [of n] decodeVarint_loop.simps high_bit_clear low_bits or_push_bit)
  next
    case False
    define d where "d = n mod 128"
    have d: "d < 128" "n = d + 128 * (n div 128)" by (simp_all add: d_def)
    have "(2 :: nat) ^ 7 < 2 ^ (64 - s)"
      using False 1(4) by (intro le_less_trans [of "2 ^ 7" n]) simp_all
    then have s: "7 < 64 - s" by (rule power_less_imp_less_exp [rotated]) simp
    have e: "7 + (64 - (s + 7)) = 64 - s" using s by simp
    have "(2 :: nat) ^ (64 - s) = 128 * 2 ^ (64 - (s + 7))"
      by (subst e [symmetric], subst power_add) simp
    then have n: "n div 128 < 2 ^ (64 - (s + 7))" using 1(4) by (simp add: less_mult_imp_div_less mult.commute)
    have "m + d * 2 ^ s < 2 ^ s + 127 * 2 ^ s"
      using 1(2) d(1) by (intro add_less_le_mono mult_right_mono) auto
    then have m: "m + d * 2 ^ s < 2 ^ (s + 7)" by (simp add: power_add)
    have "decodeVarint_loop (word_of_nat (m + d * 2 ^ s)) (s + 7) (varint (n div 128) @ r) =
        Inr (word_of_nat (m + d * 2 ^ s + n div 128 * 2 ^ (s + 7)), r)"
      using False m s n by (intro 1(1)) auto
    moreover have "m + d * 2 ^ s + n div 128 * 2 ^ (s + 7) = m + n * 2 ^ s"
      by (subst (2) d(2)) (simp add: power_add algebra_simps)
    ultimately have next_byte: "decodeVarint_loop (word_of_nat (m + d * 2 ^ s)) (s + 7) (varint (n div 128) @ r) =
        Inr (word_of_nat (m + n * 2 ^ s), r)" by (simp only:)
    define b :: uint8 where "b = word_of_nat (d + 128)"
    have v: "varint n = b # varint (n div 128)"
      using False by (simp add: varint.simps [of n] b_def d_def)
    have "(b AND 0x80 = 0) = False" "ucast b AND 0x7F = (word_of_nat d :: uint64)"
      using d(1) high_bit_clear [of "d + 128"] low_bits [of "d + 128"] by (simp_all add: b_def)
    then show ?thesis
      unfolding v append_Cons decodeVarint_loop.simps [of _ s "_ # _"] list.case Let_def
      using 1(3) by (simp only: if_False if_True or_push_bit [OF 1(2)] next_byte)
  qed
qed

definition body_matches :: "bytes \<Rightarrow> bytes \<Rightarrow> bool" where
  "body_matches code body \<longleftrightarrow> 2 + length code \<le> length body \<and> frame_matches code body"

lemma frame_matches_take:
  "2 + length code \<le> n \<Longrightarrow> 2 + length code \<le> length body \<Longrightarrow> frame_matches code (take n body @ r) = frame_matches code (take n body)"
  "2 + length code \<le> n \<Longrightarrow> frame_matches code (take n body) = frame_matches code body"
  by (auto simp: frame_matches_def nth_append min_def drop_take)

lemma sint_word_of_nat: "n < 2 ^ 63 \<Longrightarrow> sint (word_of_nat n :: uint64) = int n"
  by (simp add: signed_of_nat signed_take_bit_int_eq_self)

lemma findFramed_frame:
  assumes "body \<noteq> []" "length body < 2 ^ 63"
  shows "findFramed_loop code (geo_frame (tag, body) @ r) =
      (if body_matches code body then Inr body else findFramed_loop code r)"
proof -
  have "decodeVarint_loop (word_of_nat 0) 0 (varint (length body) @ body @ r) =
      Inr (word_of_nat (0 + length body * 2 ^ 0), body @ r)"
    using assms(2) by (intro decodeVarint_varint) simp_all
  then have v: "decodeVarint (varint (length body) @ body @ r) = Inr (word_of_nat (length body), body @ r)"
    by (simp add: decodeVarint_def)
  have s: "nat (sint (word_of_nat (length body) :: uint64)) = length body" "\<not> sint (word_of_nat (length body) :: uint64) \<le> 0"
    using assms by (simp_all add: sint_word_of_nat)
  define pl where "pl = min (length body) (2 + length code)"
  have pl: "pl \<le> length body" by (simp add: pl_def)
  have m: "(2 + length code \<le> length body \<and> frame_matches code (take pl body)) = body_matches code body"
    using frame_matches_take(2) [of code pl body] by (auto simp: body_matches_def pl_def)
  have t: "take pl (body @ r) = take pl body" "drop pl (body @ r) = drop pl body @ r"
    using pl by simp_all
  show ?thesis
    unfolding geo_frame_def prod.case append_Cons append_assoc findFramed_loop.simps [of _ "_ # _"]
      list.case v sum.case s(1) Let_def pl_def [symmetric] t m
    using s(2) pl by (auto simp: not_less diff_le_mono)
qed

lemma findFramed_frames:
  assumes "\<forall>tr \<in> set frames. snd tr \<noteq> [] \<and> length (snd tr) < 2 ^ 63"
  shows "findFramed_loop code (concat (map geo_frame frames)) =
    (case find (body_matches code) (map snd frames) of None \<Rightarrow> Inl CodeNotFound | Some body \<Rightarrow> Inr body)"
  using assms
proof (induction frames)
  case Nil
  show ?case by (subst findFramed_loop.simps) simp
next
  case (Cons tr frames)
  obtain tag body where tr: "tr = (tag, body)" by fastforce
  with Cons findFramed_frame [of body code tag "concat (map geo_frame frames)"] show ?case by simp
qed

subsection \<open>Decoding records\<close>

text \<open>The functions of \<open>protowire\<close>: tag (number, type, length), byte string, varint, length of a field.\<close>

record protowire =
  pw_tag :: "bytes \<Rightarrow> (int \<times> int \<times> nat) option"
  pw_bytes :: "bytes \<Rightarrow> (bytes \<times> nat) option"
  pw_varint :: "bytes \<Rightarrow> (uint64 \<times> nat) option"
  pw_skip :: "int \<Rightarrow> int \<Rightarrow> bytes \<Rightarrow> nat option"

definition protowire_ok :: "protowire \<Rightarrow> bool" where
  "protowire_ok pw \<longleftrightarrow> (\<forall>r num typ n. pw_tag pw r = Some (num, typ, n) \<longrightarrow> 0 < n \<and> n \<le> length r)"

definition BytesType :: int where
  "BytesType = 2"

definition skipFieldValue :: "protowire \<Rightarrow> int \<Rightarrow> int \<Rightarrow> bytes \<Rightarrow> geo_error + nat" where
  "skipFieldValue pw num typ record0 = (case pw_skip pw num typ record0 of None \<Rightarrow> Inl WireError | Some n \<Rightarrow> Inr n)"

text \<open>
  The loop over the fields of a record: \<open>field\<close> handles one field, given its number, its type and the rest after the
  tag, and gives the new state with the rest after the field.  Every round consumes a tag, so that as many rounds as
  the record has bytes are enough.
\<close>

fun decode_fields ::
    "protowire \<Rightarrow> (int \<Rightarrow> int \<Rightarrow> bytes \<Rightarrow> 'a \<Rightarrow> geo_error + ('a \<times> bytes)) \<Rightarrow> nat \<Rightarrow> bytes \<Rightarrow> 'a \<Rightarrow> geo_error + 'a" where
  "decode_fields pw field fuel [] acc = Inr acc"
| "decode_fields pw field 0 r acc = Inl NotReturned"
| "decode_fields pw field (Suc fuel) r acc =
     (case pw_tag pw r of
        None \<Rightarrow> Inl WireError
      | Some (num, typ, n) \<Rightarrow>
          (case field num typ (drop n r) acc of
             Inl e \<Rightarrow> Inl e
           | Inr (acc', r') \<Rightarrow> decode_fields pw field fuel r' acc'))"

definition skip_field :: "protowire \<Rightarrow> int \<Rightarrow> int \<Rightarrow> bytes \<Rightarrow> 'a \<Rightarrow> geo_error + ('a \<times> bytes)" where
  "skip_field pw num typ r acc =
     (case skipFieldValue pw num typ r of Inl e \<Rightarrow> Inl e | Inr n \<Rightarrow> Inr (acc, drop n r))"

definition cidr_field :: "protowire \<Rightarrow> int \<Rightarrow> int \<Rightarrow> bytes \<Rightarrow> bytes \<times> int64 \<Rightarrow> geo_error + ((bytes \<times> int64) \<times> bytes)" where
  "cidr_field pw num typ r acc =
     (if num = 1 then
        (case pw_bytes pw r of None \<Rightarrow> Inl WireError | Some (v, m) \<Rightarrow> Inr ((v, snd acc), drop m r))
      else if num = 2 then
        (case pw_varint pw r of None \<Rightarrow> Inl WireError | Some (v, m) \<Rightarrow> Inr ((fst acc, sint v), drop m r))
      else skip_field pw num typ r acc)"

definition decodeCIDRRecord :: "protowire \<Rightarrow> bytes \<Rightarrow> geo_error + Prefix option" where
  "decodeCIDRRecord pw r =
     (case decode_fields pw (cidr_field pw) (length r) r ([], 0) of
        Inl e \<Rightarrow> Inl e
      | Inr (ipBytes, bits) \<Rightarrow>
          Inr (case AddrFromSlice ipBytes of
                 None \<Rightarrow> None
               | Some addr \<Rightarrow> map_option Masked (PrefixFrom (Unmap addr) bits)))"

definition geoip_field :: "protowire \<Rightarrow> int \<Rightarrow> int \<Rightarrow> bytes \<Rightarrow> Prefix list \<Rightarrow> geo_error + (Prefix list \<times> bytes)" where
  "geoip_field pw num typ r acc =
     (if num = 2 \<and> typ = BytesType then
        (case pw_bytes pw r of
           None \<Rightarrow> Inl WireError
         | Some (v, m) \<Rightarrow>
             (case decodeCIDRRecord pw v of
                Inl e \<Rightarrow> Inl e
              | Inr None \<Rightarrow> Inr (acc, drop m r)
              | Inr (Some p) \<Rightarrow> Inr (acc @ [p], drop m r)))
      else skip_field pw num typ r acc)"

definition decodeGeoIPRecord :: "protowire \<Rightarrow> bytes \<Rightarrow> geo_error + Prefix list" where
  "decodeGeoIPRecord pw r = decode_fields pw (geoip_field pw) (length r) r []"

record geoSiteDomain =
  gd_typ :: int64
  gd_value :: string
  gd_attrs :: "string list"

text \<open>The key of an attribute: the first one that is not blank ends the loop of the code.\<close>

definition attr_field :: "protowire \<Rightarrow> int \<Rightarrow> int \<Rightarrow> bytes \<Rightarrow> string option \<Rightarrow> geo_error + (string option \<times> bytes)" where
  "attr_field pw num typ r acc =
     (if num = 1 then
        (case pw_bytes pw r of
           None \<Rightarrow> Inl WireError
         | Some (v, m) \<Rightarrow>
             (let key = TrimSpace (ToLower (bytes_string v))
              in if key \<noteq> [] then Inr (Some key, []) else Inr (acc, drop m r)))
      else skip_field pw num typ r acc)"

definition decodeGeoSiteAttrKey :: "protowire \<Rightarrow> bytes \<Rightarrow> geo_error + string option" where
  "decodeGeoSiteAttrKey pw r = decode_fields pw (attr_field pw) (length r) r None"

definition domain_field :: "protowire \<Rightarrow> int \<Rightarrow> int \<Rightarrow> bytes \<Rightarrow> geoSiteDomain \<Rightarrow> geo_error + (geoSiteDomain \<times> bytes)" where
  "domain_field pw num typ r d =
     (if num = 1 then
        (case pw_varint pw r of None \<Rightarrow> Inl WireError | Some (v, m) \<Rightarrow> Inr (d\<lparr>gd_typ := sint v\<rparr>, drop m r))
      else if num = 2 then
        (case pw_bytes pw r of
           None \<Rightarrow> Inl WireError
         | Some (v, m) \<Rightarrow> Inr (d\<lparr>gd_value := TrimSpace (ToLower (bytes_string v))\<rparr>, drop m r))
      else if num = 3 then
        (case pw_bytes pw r of
           None \<Rightarrow> Inl WireError
         | Some (v, m) \<Rightarrow>
             (case decodeGeoSiteAttrKey pw v of
                Inl e \<Rightarrow> Inl e
              | Inr None \<Rightarrow> Inr (d, drop m r)
              | Inr (Some key) \<Rightarrow> Inr (d\<lparr>gd_attrs := key # gd_attrs d\<rparr>, drop m r)))
      else skip_field pw num typ r d)"

definition decodeGeoSiteDomain :: "protowire \<Rightarrow> bytes \<Rightarrow> geo_error + geoSiteDomain option" where
  "decodeGeoSiteDomain pw r =
     (case decode_fields pw (domain_field pw) (length r) r \<lparr>gd_typ = 0, gd_value = [], gd_attrs = []\<rparr> of
        Inl e \<Rightarrow> Inl e
      | Inr d \<Rightarrow> Inr (if gd_value d = [] then None else if gd_typ d \<in> {0, 1, 2, 3} then Some d else None))"

definition geosite_field ::
    "protowire \<Rightarrow> int \<Rightarrow> int \<Rightarrow> bytes \<Rightarrow> geoSiteDomain list \<Rightarrow> geo_error + (geoSiteDomain list \<times> bytes)" where
  "geosite_field pw num typ r acc =
     (if num = 2 \<and> typ = BytesType then
        (case pw_bytes pw r of
           None \<Rightarrow> Inl WireError
         | Some (v, m) \<Rightarrow>
             (case decodeGeoSiteDomain pw v of
                Inl e \<Rightarrow> Inl e
              | Inr None \<Rightarrow> Inr (acc, drop m r)
              | Inr (Some d) \<Rightarrow> Inr (acc @ [d], drop m r)))
      else skip_field pw num typ r acc)"

definition decodeGeoSiteRecord :: "protowire \<Rightarrow> bytes \<Rightarrow> geo_error + geoSiteDomain list" where
  "decodeGeoSiteRecord pw r = decode_fields pw (geosite_field pw) (length r) r []"

subsection \<open>Files and caches\<close>

definition readGeoIPPrefixes :: "protowire \<Rightarrow> (string \<Rightarrow> bytes option) \<Rightarrow> string \<Rightarrow> string \<Rightarrow> geo_error + Prefix list" where
  "readGeoIPPrefixes pw files path code =
     (case files path of
        None \<Rightarrow> Inl OpenError
      | Some file \<Rightarrow>
          (case findFramedCodeRecord file (string_bytes code) of
             Inl e \<Rightarrow> Inl e
           | Inr r \<Rightarrow>
               (case decodeGeoIPRecord pw r of
                  Inl e \<Rightarrow> Inl e
                | Inr ps \<Rightarrow> if ps = [] then Inl NoEntries else Inr ps)))"

definition readGeoSiteDomains :: "protowire \<Rightarrow> (string \<Rightarrow> bytes option) \<Rightarrow> string \<Rightarrow> string \<Rightarrow> geo_error + geoSiteDomain list" where
  "readGeoSiteDomains pw files path code =
     (case files path of
        None \<Rightarrow> Inl OpenError
      | Some file \<Rightarrow>
          (case findFramedCodeRecord file (string_bytes code) of
             Inl e \<Rightarrow> Inl e
           | Inr r \<Rightarrow>
               (case decodeGeoSiteRecord pw r of
                  Inl e \<Rightarrow> Inl e
                | Inr ds \<Rightarrow> if ds = [] then Inl NoEntries else Inr ds)))"

definition builtinGeoIPPrefixes :: "string \<Rightarrow> Prefix list option" where
  "builtinGeoIPPrefixes code =
     (if code \<noteq> ''PRIVATE'' then None
      else
        Some (map Masked (concat (map (\<lambda>v. of_option (ParsePrefix v))
          [''10.0.0.0/8'', ''172.16.0.0/12'', ''192.168.0.0/16'', ''100.64.0.0/10'', ''169.254.0.0/16'',
           ''127.0.0.0/8'', ''::1/128'', ''fc00::/7'', ''fe80::/10'']))))"

text \<open>Both caches: the entries by path, a zero byte and code; only what was read successfully is kept.\<close>

definition cache_key :: "string \<Rightarrow> string \<Rightarrow> string" where
  "cache_key path code = path @ [CHR 0x00] @ code"

definition cached_read ::
    "(string \<Rightarrow> string \<Rightarrow> geo_error + 'a) \<Rightarrow> (string \<rightharpoonup> 'a) \<Rightarrow> string \<Rightarrow> string \<Rightarrow> (geo_error + 'a) \<times> (string \<rightharpoonup> 'a)" where
  "cached_read rd cache path code =
     (case cache (cache_key path code) of
        Some x \<Rightarrow> (Inr x, cache)
      | None \<Rightarrow>
          (case rd path code of
             Inl e \<Rightarrow> (Inl e, cache)
           | Inr x \<Rightarrow> (Inr x, cache(cache_key path code \<mapsto> x))))"

definition loadGeoIPPrefixes ::
    "protowire \<Rightarrow> (string \<Rightarrow> bytes option) \<Rightarrow> string \<Rightarrow> (string \<rightharpoonup> Prefix list) \<Rightarrow> string \<Rightarrow> string \<Rightarrow>
     (geo_error + Prefix list) \<times> (string \<rightharpoonup> Prefix list)" where
  "loadGeoIPPrefixes pw files resolved cache path code0 =
     (let code = ToUpper (TrimSpace code0)
      in if code = [] then (Inl EmptyCode, cache)
         else
           (case builtinGeoIPPrefixes code of
              Some ps \<Rightarrow> (Inr ps, cache)
            | None \<Rightarrow> cached_read (readGeoIPPrefixes pw files) cache (if path = [] then resolved else path) code))"

definition loadGeoSiteDomains ::
    "protowire \<Rightarrow> (string \<Rightarrow> bytes option) \<Rightarrow> string \<Rightarrow> (string \<rightharpoonup> geoSiteDomain list) \<Rightarrow> string \<Rightarrow> string \<Rightarrow>
     (geo_error + geoSiteDomain list) \<times> (string \<rightharpoonup> geoSiteDomain list)" where
  "loadGeoSiteDomains pw files resolved cache path code0 =
     (let code = ToUpper (TrimSpace code0)
      in if code = [] then (Inl EmptyCode, cache)
         else cached_read (readGeoSiteDomains pw files) cache (if path = [] then resolved else path) code)"

definition ResetGeoIPCache :: "(string \<rightharpoonup> Prefix list) \<Rightarrow> (string \<rightharpoonup> Prefix list)" where
  "ResetGeoIPCache cache = Map.empty"

definition ResetGeoSiteCache :: "(string \<rightharpoonup> geoSiteDomain list) \<Rightarrow> (string \<rightharpoonup> geoSiteDomain list)" where
  "ResetGeoSiteCache cache = Map.empty"

definition matchGeoSiteAttrs :: "geoSiteDomain \<Rightarrow> string list \<Rightarrow> bool" where
  "matchGeoSiteAttrs d attrs =
     (if attrs = [] then True
      else if gd_attrs d = [] then False
      else list_all (\<lambda>a. a \<in> set (gd_attrs d)) attrs)"

definition loadGeoSiteDomainsWithAttr ::
    "protowire \<Rightarrow> (string \<Rightarrow> bytes option) \<Rightarrow> string \<Rightarrow> (string \<rightharpoonup> geoSiteDomain list) \<Rightarrow> string \<Rightarrow> string \<Rightarrow>
     (geo_error + geoSiteDomain list) \<times> (string \<rightharpoonup> geoSiteDomain list)" where
  "loadGeoSiteDomainsWithAttr pw files resolved cache path siteWithAttr =
     (let parts = Split siteWithAttr CHR ''@''; code = ToUpper (TrimSpace (hd parts))
      in if code = [] then (Inl EmptyCode, cache)
         else
           (case loadGeoSiteDomains pw files resolved cache path code of
              (Inl e, cache) \<Rightarrow> (Inl e, cache)
            | (Inr ds, cache) \<Rightarrow>
                (let attrs = filter (\<lambda>a. a \<noteq> []) (map (\<lambda>p. TrimSpace (ToLower p)) (tl parts))
                 in if attrs = [] then (Inr ds, cache)
                    else (Inr (filter (\<lambda>d. matchGeoSiteAttrs d attrs) ds), cache))))"

definition geo_type :: "int64 \<Rightarrow> geoSiteType" where
  "geo_type typ = (if typ = 0 then GeoPlain else if typ = 1 then GeoRegex else if typ = 2 then GeoDomain else GeoFull)"

text \<open>The domains a token adds to the matcher: \<open>None\<close> if it is no geosite rule, \<open>Some None\<close> if that failed.\<close>

definition compileGeoSiteToken ::
    "protowire \<Rightarrow> (string \<Rightarrow> bytes option) \<Rightarrow> string \<Rightarrow> string \<Rightarrow> (string \<rightharpoonup> geoSiteDomain list) \<Rightarrow> string \<Rightarrow>
     (geoSiteType \<times> string) list option option \<times> (string \<rightharpoonup> geoSiteDomain list)" where
  "compileGeoSiteToken pw files run_path resolved cache token =
     (let lower = ToLower token;
          load = (\<lambda>path site.
            (case loadGeoSiteDomainsWithAttr pw files resolved cache path site of
               (Inl e, cache) \<Rightarrow> (Some None, cache)
             | (Inr ds, cache) \<Rightarrow> (Some (Some (map (\<lambda>d. (geo_type (gd_typ d), gd_value d)) ds)), cache)));
          ext = (\<lambda>n.
            (case splitExternalGeoDataRule (drop n token) of
               None \<Rightarrow> (Some None, cache)
             | Some (file, site) \<Rightarrow> load (resolveGeoDataExternalPath run_path resolved file) site))
      in if HasPrefix lower ''geosite:'' then load resolved (TrimSpace (drop 8 token))
         else if HasPrefix lower ''ext-domain:'' then ext 11
         else if HasPrefix lower ''ext:'' then ext 4
         else (None, cache))"

subsection \<open>Decoding ends, and gives valid prefixes\<close>

lemma decode_fields_inv:
  assumes "\<And>num typ r acc acc' r'. field num typ r acc = Inr (acc', r') \<Longrightarrow> P acc \<Longrightarrow> P acc'"
  shows "decode_fields pw field fuel r acc = Inr acc' \<Longrightarrow> P acc \<Longrightarrow> P acc'"
proof (induction fuel arbitrary: r acc)
  case 0
  then show ?case by (cases r) simp_all
next
  case (Suc fuel)
  have step: "P acc'" if "decode_fields pw field fuel r1 acc1 = Inr acc'" "field num tp r2 acc = Inr (acc1, r1)"
    for num tp r1 r2 acc1
    using Suc.IH [OF that(1) assms [OF that(2) Suc.prems(2)]] .
  show ?case
    using Suc.prems by (cases r) (auto split: option.splits sum.splits intro: step)
qed

definition field_ok :: "(int \<Rightarrow> int \<Rightarrow> bytes \<Rightarrow> 'a \<Rightarrow> geo_error + ('a \<times> bytes)) \<Rightarrow> bool" where
  "field_ok field \<longleftrightarrow>
     (\<forall>num typ r acc. field num typ r acc \<noteq> Inl NotReturned \<and>
        (\<forall>acc' r'. field num typ r acc = Inr (acc', r') \<longrightarrow> length r' \<le> length r))"

lemma decode_fields_returns:
  assumes pw: "protowire_ok pw" and f: "field_ok field"
  shows "length r \<le> fuel \<Longrightarrow> decode_fields pw field fuel r acc \<noteq> Inl NotReturned"
proof (induction fuel arbitrary: r acc)
  case (Suc fuel)
  show ?case
  proof (cases r)
    case (Cons b bs)
    have shorter: "length r' \<le> fuel" if "pw_tag pw r = Some (num, tp, n)" "field num tp (drop n r) acc = Inr (acc', r')"
      for num tp n acc' r'
    proof -
      have "0 < n" using pw that(1) by (auto simp: protowire_ok_def)
      moreover have "length r' \<le> length (drop n r)" using f that(2) unfolding field_ok_def by blast
      ultimately show ?thesis using Suc.prems by simp
    qed
    have "field num tp (drop n r) acc \<noteq> Inl NotReturned" for num tp n
      using f by (simp add: field_ok_def)
    then show ?thesis
      using Suc.IH shorter by (auto simp: Cons split: option.splits sum.splits)
  qed simp
qed simp

lemma skip_field_ok: "field_ok (skip_field pw)"
  by (auto simp: field_ok_def skip_field_def skipFieldValue_def split: option.splits sum.splits)

lemmas field_defs = field_ok_def skip_field_def skipFieldValue_def

lemma cidr_field_ok: "field_ok (cidr_field pw)"
  by (auto simp: cidr_field_def field_defs split: option.splits sum.splits if_splits)

lemma attr_field_ok: "field_ok (attr_field pw)"
  by (auto simp: attr_field_def field_defs Let_def split: option.splits sum.splits if_splits)

lemma decodeCIDRRecord_returns: "protowire_ok pw \<Longrightarrow> decodeCIDRRecord pw r \<noteq> Inl NotReturned"
  using decode_fields_returns [OF _ cidr_field_ok] by (fastforce simp: decodeCIDRRecord_def split: sum.splits)

lemma decodeGeoSiteAttrKey_returns: "protowire_ok pw \<Longrightarrow> decodeGeoSiteAttrKey pw r \<noteq> Inl NotReturned"
  using decode_fields_returns [OF _ attr_field_ok] by (simp add: decodeGeoSiteAttrKey_def)

lemma geoip_field_ok: "protowire_ok pw \<Longrightarrow> field_ok (geoip_field pw)"
  using decodeCIDRRecord_returns [of pw]
  by (auto simp: geoip_field_def field_defs split: option.splits sum.splits if_splits)

lemma domain_field_ok: "protowire_ok pw \<Longrightarrow> field_ok (domain_field pw)"
  using decodeGeoSiteAttrKey_returns [of pw]
  by (auto simp: domain_field_def field_defs split: option.splits sum.splits if_splits)

lemma decodeGeoSiteDomain_returns: "protowire_ok pw \<Longrightarrow> decodeGeoSiteDomain pw r \<noteq> Inl NotReturned"
  using decode_fields_returns [OF _ domain_field_ok] by (fastforce simp: decodeGeoSiteDomain_def split: sum.splits)

lemma geosite_field_ok: "protowire_ok pw \<Longrightarrow> field_ok (geosite_field pw)"
  using decodeGeoSiteDomain_returns [of pw]
  by (auto simp: geosite_field_def field_defs split: option.splits sum.splits if_splits)

lemma decodeVarint_loop_returns: "decodeVarint_loop v s r \<noteq> Inl NotReturned"
proof (induction v s r rule: decodeVarint_loop.induct)
  case (1 v s r)
  show ?case using 1 [OF _ _ refl] by (subst decodeVarint_loop.simps) (auto split: list.split simp: Let_def)
qed

lemma findFramed_loop_returns: "findFramed_loop code r \<noteq> Inl NotReturned"
proof (induction "length r" arbitrary: r rule: less_induct)
  case less
  show ?case
  proof (cases r)
    case (Cons b r1)
    show ?thesis
    proof (cases "decodeVarint r1")
      case (Inl e)
      with decodeVarint_loop_returns [of 0 0 r1] show ?thesis
        by (subst findFramed_loop.simps) (simp add: Cons decodeVarint_def)
    next
      case (Inr p)
      obtain sz r2 where p: "p = (sz, r2)" by fastforce
      have "length r2 < length r1"
        using Inr p decodeVarint_loop_shorter by (auto simp: decodeVarint_def)
      then have IH: "findFramed_loop code (drop m r2) \<noteq> Inl NotReturned" for m
        by (intro less) (simp add: Cons)
      show ?thesis
        unfolding Cons findFramed_loop.simps [of _ "_ # _"] list.case Inr p sum.case prod.case Let_def drop_drop
        using IH by simp
    qed
  qed (simp add: findFramed_loop.simps)
qed

lemma findFramedCodeRecord_returns: "findFramedCodeRecord file code \<noteq> Inl NotReturned"
  by (simp add: findFramedCodeRecord_def findFramed_loop_returns)

lemma readGeoIPPrefixes_returns: "protowire_ok pw \<Longrightarrow> readGeoIPPrefixes pw files path code \<noteq> Inl NotReturned"
proof -
  assume pw: "protowire_ok pw"
  have "decodeGeoIPRecord pw r \<noteq> Inl NotReturned" for r
    unfolding decodeGeoIPRecord_def by (intro decode_fields_returns geoip_field_ok pw order_refl)
  then show ?thesis
    using findFramedCodeRecord_returns
    by (auto simp: readGeoIPPrefixes_def split: option.splits sum.splits)
qed

lemma readGeoSiteDomains_returns: "protowire_ok pw \<Longrightarrow> readGeoSiteDomains pw files path code \<noteq> Inl NotReturned"
proof -
  assume pw: "protowire_ok pw"
  have "decodeGeoSiteRecord pw r \<noteq> Inl NotReturned" for r
    unfolding decodeGeoSiteRecord_def by (intro decode_fields_returns geosite_field_ok pw order_refl)
  then show ?thesis
    using findFramedCodeRecord_returns
    by (auto simp: readGeoSiteDomains_def split: option.splits sum.splits)
qed

lemma decodeCIDRRecord_ok: "decodeCIDRRecord pw r = Inr (Some p) \<Longrightarrow> prefix_ok p"
proof -
  assume "decodeCIDRRecord pw r = Inr (Some p)"
  then obtain b a n q where "AddrFromSlice b = Some a" "PrefixFrom (Unmap a) n = Some q" "p = Masked q"
    by (auto simp: decodeCIDRRecord_def split: sum.splits option.splits)
  moreover from this(1) have "addr_ok (Unmap a)"
    by (intro Unmap_ok) (auto simp: AddrFromSlice_def addr_ok_def split: if_splits)
  ultimately show "prefix_ok p" by (auto intro: prefix_ok_Masked [OF prefix_ok_PrefixFrom])
qed

lemma readGeoIPPrefixes_ok: "readGeoIPPrefixes pw files path code = Inr ps \<Longrightarrow> list_all prefix_ok ps"
proof -
  assume "readGeoIPPrefixes pw files path code = Inr ps"
  then obtain r where "decode_fields pw (geoip_field pw) (length r) r [] = Inr ps"
    by (auto simp: readGeoIPPrefixes_def decodeGeoIPRecord_def split: option.splits sum.splits if_splits)
  moreover have "list_all prefix_ok acc'" if "geoip_field pw num tp r0 acc = Inr (acc', r')" "list_all prefix_ok acc"
    for num tp r0 acc acc' r'
    using that
    by (auto simp: geoip_field_def skip_field_def split: if_splits option.splits sum.splits) (erule decodeCIDRRecord_ok)
  ultimately show "list_all prefix_ok ps"
    using decode_fields_inv [of "geoip_field pw" "list_all prefix_ok"] by simp
qed

lemma builtinGeoIPPrefixes_ok: "builtinGeoIPPrefixes code = Some ps \<Longrightarrow> list_all prefix_ok ps"
proof -
  have "list_all prefix_ok (map Masked (concat (map (\<lambda>v. of_option (ParsePrefix v)) vs)))" for vs
    by (induction vs) (auto simp: of_option_def split: option.split intro: prefix_ok_Masked [OF prefix_ok_ParsePrefix])
  moreover assume "builtinGeoIPPrefixes code = Some ps"
  ultimately show "list_all prefix_ok ps"
    unfolding builtinGeoIPPrefixes_def by (metis option.discI option.inject)
qed

subsection \<open>The caches\<close>

text \<open>Every entry is what reading its file gives; a path holds no zero byte.\<close>

definition geo_cache_ok :: "(string \<Rightarrow> string \<Rightarrow> geo_error + 'a) \<Rightarrow> (string \<rightharpoonup> 'a) \<Rightarrow> bool" where
  "geo_cache_ok rd cache \<longleftrightarrow>
     (\<forall>k x. cache k = Some x \<longrightarrow> (\<exists>path code. CHR 0x00 \<notin> set path \<and> k = cache_key path code \<and> rd path code = Inr x))"

lemma cache_key_inject:
  assumes "CHR 0x00 \<notin> set path" "CHR 0x00 \<notin> set path'"
  shows "cache_key path code = cache_key path' code' \<longleftrightarrow> path = path' \<and> code = code'"
proof
  assume "cache_key path code = cache_key path' code'"
  then have e: "path @ CHR 0x00 # code = path' @ CHR 0x00 # code'" by (simp add: cache_key_def)
  have "takeWhile (\<lambda>c. c \<noteq> CHR 0x00) (p @ CHR 0x00 # c) = p" if "CHR 0x00 \<notin> set p" for p c
    using that by (subst takeWhile_append2) auto
  with e assms have "path = path'" by metis
  with e show "path = path' \<and> code = code'" by simp
qed simp

lemma cached_read_transparent:
  assumes ok: "geo_cache_ok rd cache" and path: "CHR 0x00 \<notin> set path"
  shows "fst (cached_read rd cache path code) = rd path code \<and> geo_cache_ok rd (snd (cached_read rd cache path code))"
proof (cases "cache (cache_key path code)")
  case (Some x)
  from ok Some obtain path' code' where r: "CHR 0x00 \<notin> set path'" "cache_key path code = cache_key path' code'"
      "rd path' code' = Inr x"
    unfolding geo_cache_ok_def by blast
  have "path = path' \<and> code = code'"
    using r(2) by (rule cache_key_inject [OF path r(1), THEN iffD1])
  with r(3) have "rd path code = Inr x" by simp
  with ok Some show ?thesis by (simp add: cached_read_def)
next
  case None
  have "geo_cache_ok rd (cache(cache_key path code \<mapsto> x))" if "rd path code = Inr x" for x
    using ok path that by (auto simp: geo_cache_ok_def split: if_splits)
  with ok None show ?thesis by (simp add: cached_read_def split: sum.split)
qed

subsection \<open>Properties\<close>

text \<open>
  C23: The search in a geo data file.  In a file that is a sequence of records, each a tag byte, the length of its body as
  a varint and a body that is not empty (shorter than \<open>2 ^ 63\<close> bytes), the search for a code gives the body of the first
  record that begins with this code, and the error \<open>code not found\<close> if there is none; it never stops at another error.
\<close>

theorem geo_record_search:
  assumes "code \<noteq> []" "\<forall>tr \<in> set frames. snd tr \<noteq> [] \<and> length (snd tr) < 2 ^ 63"
  shows "findFramedCodeRecord (concat (map geo_frame frames)) code =
    (case find (body_matches code) (map snd frames) of None \<Rightarrow> Inl CodeNotFound | Some body \<Rightarrow> Inr body)"
  using assms(1) findFramed_frames [OF assms(2)] by (simp add: findFramedCodeRecord_def)

theorem geo_record_search_witness:
  "findFramedCodeRecord (concat (map geo_frame [(10, [10, 2, 67, 78, 1]), (10, [10, 2, 85, 83, 7])])) [85, 83] =
     Inr [10, 2, 85, 83, 7]"
  using geo_record_search [of "[85, 83]" "[(10, [10, 2, 67, 78, 1]), (10, [10, 2, 85, 83, 7])]"]
  by (simp add: body_matches_def frame_matches_def)


definition small_wire :: protowire where
  "small_wire =
     \<lparr>pw_tag = (\<lambda>r. case r of [] \<Rightarrow> None | b # _ \<Rightarrow> Some (uint (drop_bit 3 b), uint (b AND 7), 1)),
      pw_bytes = (\<lambda>r. case r of [] \<Rightarrow> None | b # bs \<Rightarrow> if unat b \<le> length bs then Some (take (unat b) bs, Suc (unat b)) else None),
      pw_varint = (\<lambda>r. case r of [] \<Rightarrow> None | b # bs \<Rightarrow> Some (ucast b, 1)),
      pw_skip = (\<lambda>_ _ r. case r of [] \<Rightarrow> None | b # _ \<Rightarrow> Some (Suc (unat b)))\<rparr>"

definition small_file :: "string \<Rightarrow> bytes option" where
  "small_file path =
     (if path = ''/geoip.dat'' then Some [10, 14, 10, 2, 85, 83, 18, 8, 10, 4, 8, 8, 8, 0, 16, 24] else None)"

lemma small_load:
  "fst (loadGeoIPPrefixes small_wire small_file ''/geoip.dat'' Map.empty [] ''us'') =
     Inr [\<lparr>pf_addr = IPv4 [8, 8, 8, 0], pf_bits = 24\<rparr>]"
proof -
  have u: "ToUpper (TrimSpace ''us'') = ''US''" by code_simp
  define body :: bytes where "body = [10, 2, 85, 83, 18, 8, 10, 4, 8, 8, 8, 0, 16, 24]"
  have "string_bytes ''US'' = [85, 83]" by (simp add: string_bytes_def byte_of_def)
  moreover have "small_file ''/geoip.dat'' = Some (concat (map geo_frame [(10, body)]))"
    by (simp add: small_file_def geo_frame_def varint.simps body_def)
  moreover have "findFramed_loop [85, 83] (concat (map geo_frame [(10, body)])) = Inr body"
    using findFramed_frames [of "[(10, body)]" "[85, 83]"] by (simp add: body_matches_def frame_matches_def body_def)
  ultimately have f: "findFramedCodeRecord (the (small_file ''/geoip.dat'')) (string_bytes ''US'') = Inr body"
    by (simp add: findFramedCodeRecord_def)
  have d: "decodeGeoIPRecord small_wire body =
      Inr [\<lparr>pf_addr = IPv4 [8, 8, 8, 0], pf_bits = 24\<rparr>]"
    by (simp add: decodeGeoIPRecord_def geoip_field_def decodeCIDRRecord_def cidr_field_def skip_field_def skipFieldValue_def
        small_wire_def BytesType_def AddrFromSlice_def Unmap_def PrefixFrom_def BitLen_def Is4_def WithoutZone_def
        Masked_def map_addr_def body_def)
  show ?thesis
    using f d by (simp add: loadGeoIPPrefixes_def Let_def u builtinGeoIPPrefixes_def cached_read_def readGeoIPPrefixes_def small_file_def)
qed


subsection \<open>Policies over geo data\<close>

text \<open>The geoip and geosite data of a policy that is compiled over the given files.\<close>

definition geoip_env :: "protowire \<Rightarrow> (string \<Rightarrow> bytes option) \<Rightarrow> string \<Rightarrow> string \<Rightarrow> geo_env" where
  "geoip_env pw files run_path resolved =
     \<lparr>ge_default = resolved, ge_external = resolveGeoDataExternalPath run_path resolved,
      ge_load = (\<lambda>path code.
        case fst (loadGeoIPPrefixes pw files resolved Map.empty path code) of Inl _ \<Rightarrow> None | Inr ps \<Rightarrow> Some ps)\<rparr>"

definition geosite_env :: "protowire \<Rightarrow> (string \<Rightarrow> bytes option) \<Rightarrow> string \<Rightarrow> string \<Rightarrow> string \<Rightarrow> (geoSiteType \<times> string) list option option" where
  "geosite_env pw files run_path resolved token = fst (compileGeoSiteToken pw files run_path resolved Map.empty token)"

lemma geoip_env_ok: "geo_env_ok (geoip_env pw files run_path resolved)"
  using builtinGeoIPPrefixes_ok readGeoIPPrefixes_ok [of pw files]
  by (auto simp: geo_env_ok_def geoip_env_def loadGeoIPPrefixes_def cached_read_def Let_def
      split: sum.splits if_splits option.splits)

text \<open>
  C11: The decisions of access policies.  Given address sets that hold what their prefixes hold, a compiled source policy
  decides by its mode on whether an active entry of the list matches the address, read as an IP address; a compiled
  destination policy decides on whether an active line of the rule text matches it, by IP rules if the destination is
  an IP address, by domain rules on the normalised host otherwise.  The rules are those of the text and of the geo data
  in the files.  A whitelist therefore allows nothing that no rule matches (entries that are invalid, files that cannot
  be read or an unreadable address never open it), a blacklist blocks only what some rule matches, and a policy that is
  off allows everything.
\<close>

theorem policy_decisions:
  assumes "ipset_spec ipset set_has"
  shows "let env = geoip_env pw files run_path geoip_path; geo = geosite_env pw files run_path geosite_path
    in sp_AllowsAddr set_has addr (Some (CompileSourceIPPolicy url_host env ipset mode entries)) =
         mode_decision mode (case policy_parseAddr addr of None \<Rightarrow> False | Some a \<Rightarrow> ip_listed url_host env entries a) \<and>
       dp_AllowsAddr url_host re_match set_has addr
           (Some (CompileDestinationPolicy url_host re_compile geo env ipset mode raw)) =
         mode_decision mode
           (case policy_parseAddr addr of
              Some a \<Rightarrow> ip_listed url_host env (splitRules raw) a
            | None \<Rightarrow>
                (let host = policy_normalizeHostFromAddr url_host addr
                 in host \<noteq> [] \<and>
                    domain_listed url_host re_compile re_match geo (splitRules raw)
                      (policy_normalizeHostFromAddr url_host host)))"
  using source_decision [OF assms geoip_env_ok] destination_decision [OF assms geoip_env_ok]
  unfolding Let_def by blast

lemma prefix_lists_are_ipsets: "ipset_spec Some (\<lambda>ps a. list_ex (\<lambda>p. pf_Contains p a) ps)"
  by (simp add: ipset_spec_def)

definition no_files :: geo_env where
  "no_files = geoip_env small_wire (\<lambda>_. None) ''/'' ''/geoip.dat''"

lemma listed_example: "ip_listed (\<lambda>_. None) no_files [''10.1.*''] (IPv4 [10, 1, 2, 3])"
proof -
  have "parseGeoIPRule no_files ''10.1.*'' = None" "active_entry ''10.1.*''" "policy_token ''10.1.*'' = ''10.1.*''"
    by code_simp+
  moreover have "parseIPv4WildcardPrefix ''10.1.*'' = Some \<lparr>pf_addr = IPv4 [10, 1, 0, 0], pf_bits = 16\<rparr>"
    "pf_Contains \<lparr>pf_addr = IPv4 [10, 1, 0, 0], pf_bits = 16\<rparr> (IPv4 [10, 1, 2, 3])"
    by code_simp+
  ultimately show ?thesis by (simp add: ip_listed_def ip_token_rule_def)
qed

theorem policy_decisions_witness:
  "\<not> sp_AllowsAddr (\<lambda>ps a. list_ex (\<lambda>p. pf_Contains p a) ps) ''10.1.2.3:80''
      (Some (CompileSourceIPPolicy (\<lambda>_. None) no_files Some ModeBlacklist [''10.1.*''])) \<and>
   \<not> dp_AllowsAddr (\<lambda>_. None) (\<lambda>(_ :: unit) _. False) (\<lambda>ps a. list_ex (\<lambda>p. pf_Contains p a) ps) ''10.1.2.3:80''
      (Some (CompileDestinationPolicy (\<lambda>_. None) (\<lambda>_. None) (geosite_env small_wire (\<lambda>_. None) ''/'' ''/geosite.dat'')
        no_files Some ModeBlacklist ''10.1.*''))"
proof -
  have "policy_parseAddr ''10.1.2.3:80'' = Some (IPv4 [10, 1, 2, 3])" "splitRules ''10.1.*'' = [''10.1.*'']"
    by code_simp+
  with policy_decisions [OF prefix_lists_are_ipsets, where addr = "''10.1.2.3:80''" and url_host = "\<lambda>_. None"
      and mode = ModeBlacklist and entries = "[''10.1.*'']" and raw = "''10.1.*''" and pw = small_wire
      and files = "\<lambda>_. None" and run_path = "''/''" and geoip_path = "''/geoip.dat''" and geosite_path = "''/geosite.dat''"
      and re_match = "\<lambda>(_ :: unit) _. False" and re_compile = "\<lambda>_. None"] listed_example
  show ?thesis by (simp add: Let_def no_files_def)
qed

end
