(* ===== verification/P2P_Replay.thy ===== *)
theory P2P_Replay
  imports Common_Addr "HOL-Library.List_Lexorder" "HOL-Library.Char_ord" "HOL-Library.Product_Lexorder"
begin

text \<open>
  The replay window of peer-to-peer packets (\<open>ReplayWindow\<close> of \<open>src/lib/p2p/runtime_session.go\<close>).

  The map of observed nonces is an association list with distinct keys; the code sorts it before it depends on an
  order.  Clock readings and timestamps are milliseconds, far below the bounds of 64-bit integers.
\<close>

subsection \<open>The window\<close>

record ReplayWindow =
  rp_maxAge :: int64
  rp_maxEntries :: int64
  rp_observed :: "(string \<times> int64) list"

definition defaultReplayWindow :: int64 where
  "defaultReplayWindow = 30000000000"

definition defaultReplayWindowMaxEntries :: int64 where
  "defaultReplayWindowMaxEntries = 512"

definition newReplayWindow :: "int64 \<Rightarrow> int64 \<Rightarrow> ReplayWindow" where
  "newReplayWindow maxAge maxEntries =
     \<lparr>rp_maxAge = (if maxAge \<le> 0 then defaultReplayWindow else maxAge),
      rp_maxEntries = (if maxEntries \<le> 0 then defaultReplayWindowMaxEntries else maxEntries),
      rp_observed = []\<rparr>"

definition NewReplayWindow :: "int64 \<Rightarrow> ReplayWindow" where
  "NewReplayWindow maxAge = newReplayWindow maxAge defaultReplayWindowMaxEntries"

text \<open>\<open>pruneOverflowLocked\<close> makes room for one entry: the oldest go, equal timestamps by nonce.\<close>

definition pruneOverflowLocked :: "ReplayWindow \<Rightarrow> ReplayWindow" where
  "pruneOverflowLocked w =
     (if rp_maxEntries w \<le> 0 \<or> int (length (rp_observed w)) < rp_maxEntries w then w
      else
        (let overflow = length (rp_observed w) - nat (rp_maxEntries w) + 1;
             oldest = sort (map (\<lambda>(n, t). (t, n)) (rp_observed w));
             gone = map snd (take overflow oldest)
         in w\<lparr>rp_observed := filter (\<lambda>(n, t). n \<notin> set gone) (rp_observed w)\<rparr>))"

definition window_ms :: "ReplayWindow \<Rightarrow> int64" where
  "window_ms w = quot (rp_maxAge w) 1000000"

definition expire_before :: "int64 \<Rightarrow> ReplayWindow \<Rightarrow> ReplayWindow" where
  "expire_before t0 w = w\<lparr>rp_observed := filter (\<lambda>(n, t). \<not> t < t0) (rp_observed w)\<rparr>"

definition rp_Accept :: "int64 \<Rightarrow> int64 \<Rightarrow> string \<Rightarrow> ReplayWindow \<Rightarrow> bool \<times> ReplayWindow" where
  "rp_Accept now timestampMs nonce w =
     (if nonce = [] \<or> timestampMs \<le> 0 then (False, w)
      else if timestampMs < now - window_ms w \<or> now + window_ms w < timestampMs then (False, w)
      else
        (let w = pruneOverflowLocked (expire_before (now - window_ms w) w)
         in if nonce \<in> fst ` set (rp_observed w) then (False, w)
            else (True, w\<lparr>rp_observed := (nonce, timestampMs) # rp_observed w\<rparr>)))"

subsection \<open>Runs\<close>

text \<open>Packets as they arrive (clock, timestamp, nonce), the packets accepted so far, and the window.\<close>

fun rp_run :: "ReplayWindow \<Rightarrow> (int64 \<times> int64 \<times> string) list \<Rightarrow> (int64 \<times> string) list \<times> ReplayWindow" where
  "rp_run w [] = ([], w)"
| "rp_run w ((now, ts, nonce) # es) =
     (let (ok, w') = rp_Accept now ts nonce w; (acc, w'') = rp_run w' es
      in (if ok then (ts, nonce) # acc else acc, w''))"

definition accepted :: "ReplayWindow \<Rightarrow> (int64 \<times> int64 \<times> string) list \<Rightarrow> (int64 \<times> string) list" where
  "accepted w es = fst (rp_run w es)"

text \<open>The clock does not go back, and when a packet arrives fewer than \<open>maxEntries\<close> accepted ones are young enough.\<close>

definition clock_ok :: "(int64 \<times> int64 \<times> string) list \<Rightarrow> bool" where
  "clock_ok es = sorted (map fst es)"

definition uncrowded :: "ReplayWindow \<Rightarrow> (int64 \<times> int64 \<times> string) list \<Rightarrow> bool" where
  "uncrowded w es \<longleftrightarrow>
     (\<forall>k < length es.
        int (length (filter (\<lambda>(ts, _). fst (es ! k) - window_ms w \<le> ts) (accepted w (take k es)))) < rp_maxEntries w)"

lemma rp_run_snoc:
  "rp_run w (es @ [(now, ts, nonce)]) =
     (let (acc, w') = rp_run w es; (ok, w'') = rp_Accept now ts nonce w'
      in (if ok then acc @ [(ts, nonce)] else acc, w''))"
  by (induction w es rule: rp_run.induct) (auto simp: Let_def split: prod.splits)

lemma rp_parameters [simp]:
  "rp_maxAge (pruneOverflowLocked w) = rp_maxAge w" "rp_maxEntries (pruneOverflowLocked w) = rp_maxEntries w"
  "rp_maxAge (expire_before t w) = rp_maxAge w" "rp_maxEntries (expire_before t w) = rp_maxEntries w"
  "rp_maxAge (snd (rp_Accept now ts n w)) = rp_maxAge w" "rp_maxEntries (snd (rp_Accept now ts n w)) = rp_maxEntries w"
  by (simp_all add: pruneOverflowLocked_def expire_before_def rp_Accept_def Let_def)

lemma window_ms_Accept [simp]: "window_ms (snd (rp_Accept now ts n w)) = window_ms w"
  by (simp add: window_ms_def)

lemma rp_run_parameters:
  "window_ms (snd (rp_run w es)) = window_ms w \<and> rp_maxEntries (snd (rp_run w es)) = rp_maxEntries w"
proof (induction w es rule: rp_run.induct)
  case (2 w now ts n es)
  obtain ok w' where a: "rp_Accept now ts n w = (ok, w')" by fastforce
  then have "window_ms w' = window_ms w" "rp_maxEntries w' = rp_maxEntries w"
    using window_ms_Accept [of now ts n w] rp_parameters(6) [of now ts n w] by simp_all
  with 2 [OF a [symmetric] refl] show ?case by (simp add: a Let_def case_prod_beta)
qed simp

lemma length_accepted: "length (accepted w es) \<le> length es"
  unfolding accepted_def by (induction es arbitrary: w) (auto simp: Let_def case_prod_beta le_SucI)

text \<open>What the window knows: only accepted packets, one per nonce, and every accepted one that is still young.\<close>

definition rp_ok :: "int64 \<Rightarrow> (int64 \<times> string) list \<Rightarrow> ReplayWindow \<Rightarrow> bool" where
  "rp_ok t0 acc w \<longleftrightarrow>
     (\<forall>(n, t) \<in> set (rp_observed w). (t, n) \<in> set acc) \<and> distinct (map fst (rp_observed w)) \<and>
     (\<forall>(t, n) \<in> set acc. t0 \<le> t \<longrightarrow> (n, t) \<in> set (rp_observed w))"

lemma rp_ok_mono: "rp_ok t0 acc w \<Longrightarrow> t0 \<le> t1 \<Longrightarrow> rp_ok t1 acc w"
  unfolding rp_ok_def by fastforce

lemma rp_ok_expire: "rp_ok t0 acc w \<Longrightarrow> rp_ok t0 acc (expire_before t0 w)"
  by (fastforce simp: rp_ok_def expire_before_def distinct_map intro: inj_on_subset)

lemma expire_length:
  assumes "rp_ok t0 acc w"
  shows "length (rp_observed (expire_before t0 w)) \<le> length (filter (\<lambda>(t, _). t0 \<le> t) acc)"
proof -
  define os where "os = rp_observed (expire_before t0 w)"
  have "distinct os"
    using rp_ok_expire [OF assms] by (auto simp: rp_ok_def os_def distinct_map)
  then have "length os = card ((\<lambda>(n, t). (t, n)) ` set os)"
    by (subst card_image) (auto simp: distinct_card inj_on_def)
  also have "\<dots> \<le> card (set (filter (\<lambda>(t, _). t0 \<le> t) acc))"
    using assms by (intro card_mono) (auto simp: os_def expire_before_def rp_ok_def)
  also have "\<dots> \<le> length (filter (\<lambda>(t, _). t0 \<le> t) acc)"
    by (rule card_length)
  finally show ?thesis by (simp add: os_def)
qed

lemma rp_Accept_step:
  assumes ok: "rp_ok (now - window_ms w) acc w"
    and room: "int (length (filter (\<lambda>(t, _). now - window_ms w \<le> t) acc)) < rp_maxEntries w"
    and a: "rp_Accept now ts nonce w = (b, w')"
  shows "rp_ok (now - window_ms w) (if b then acc @ [(ts, nonce)] else acc) w' \<and> (b \<longrightarrow> (ts, nonce) \<notin> set acc)"
proof -
  define t0 where "t0 = now - window_ms w"
  define v where "v = expire_before t0 w"
  have v: "rp_ok t0 acc v"
    using rp_ok_expire ok by (simp add: v_def t0_def)
  have "int (length (rp_observed v)) < rp_maxEntries v"
    using expire_length [OF ok] room by (simp add: v_def t0_def)
  then have p: "pruneOverflowLocked v = v"
    by (simp add: pruneOverflowLocked_def)
  consider "w' = w" "\<not> b" | "w' = v" "\<not> b"
    | "b" "t0 \<le> ts" "nonce \<notin> fst ` set (rp_observed v)" "w' = v\<lparr>rp_observed := (nonce, ts) # rp_observed v\<rparr>"
    using a p unfolding rp_Accept_def Let_def t0_def [symmetric] v_def [symmetric]
    by (auto split: if_splits)
  then show ?thesis
  proof cases
    case 3
    have "(ts, nonce) \<notin> set acc"
      using v 3(2,3) by (force simp: rp_ok_def)
    moreover have "rp_ok t0 (acc @ [(ts, nonce)]) w'"
      using v 3(3,4) by (auto simp: rp_ok_def)
    ultimately show ?thesis using 3(1) by (simp add: t0_def)
  qed (use ok v in \<open>simp_all add: t0_def\<close>)
qed

lemma uncrowded_snoc:
  "uncrowded w (es @ [e]) \<longleftrightarrow>
     uncrowded w es \<and> int (length (filter (\<lambda>(ts, _). fst e - window_ms w \<le> ts) (accepted w es))) < rp_maxEntries w"
  unfolding uncrowded_def by (auto simp: less_Suc_eq nth_append)

lemma run_once:
  assumes "rp_observed w = []"
  shows "clock_ok es \<Longrightarrow> uncrowded w es \<Longrightarrow> \<forall>e \<in> set es. fst e \<le> now \<Longrightarrow>
    rp_ok (now - window_ms w) (accepted w es) (snd (rp_run w es)) \<and> distinct (accepted w es)"
proof (induction es arbitrary: now rule: rev_induct)
  case Nil
  then show ?case using assms by (simp add: rp_ok_def accepted_def)
next
  case (snoc e es)
  obtain t ts n where e: "e = (t, ts, n)" by (rule prod_cases3)
  obtain acc v where r: "rp_run w es = (acc, v)" by fastforce
  obtain b v' where a: "rp_Accept t ts n v = (b, v')" by fastforce
  have par: "window_ms v = window_ms w" "rp_maxEntries v = rp_maxEntries w"
    using rp_run_parameters [of w es] r by simp_all
  have "clock_ok es" "\<forall>x \<in> set es. fst x \<le> t" "uncrowded w es"
    using snoc.prems(1,2) by (auto simp: clock_ok_def sorted_append e uncrowded_snoc)
  then have IH: "rp_ok (t - window_ms v) acc v" "distinct acc"
    using snoc.IH [of t] r par by (simp_all add: accepted_def)
  have room: "int (length (filter (\<lambda>(x, _). t - window_ms v \<le> x) acc)) < rp_maxEntries v"
    using snoc.prems(2) r par by (simp add: uncrowded_snoc e accepted_def)
  have acc: "accepted w (es @ [e]) = (if b then acc @ [(ts, n)] else acc)" "snd (rp_run w (es @ [e])) = v'"
    by (simp_all add: accepted_def e rp_run_snoc r a)
  from rp_Accept_step [OF IH(1) room a] IH(2)
  have "rp_ok (t - window_ms v) (accepted w (es @ [e])) v'" "distinct (accepted w (es @ [e]))"
    by (auto simp: acc)
  moreover have "t \<le> now" using snoc.prems(3) by (simp add: e)
  ultimately show ?case using rp_ok_mono by (simp add: acc(2) par)
qed

text \<open>
  C14: No packet is accepted twice.  While the clock does not go back and fewer than \<open>maxEntries\<close> accepted packets are
  young enough to be in the window whenever a packet arrives, a new replay window accepts every packet (timestamp and
  nonce) at most once, in whatever order and however often packets arrive.
\<close>

theorem replay_once:
  assumes "clock_ok es" "uncrowded (newReplayWindow maxAge maxEntries) es"
  shows "distinct (accepted (newReplayWindow maxAge maxEntries) es)"
proof -
  define now where "now = Max (insert 0 (fst ` set es))"
  have "rp_observed (newReplayWindow maxAge maxEntries) = []" by (simp add: newReplayWindow_def)
  moreover have "\<forall>e \<in> set es. fst e \<le> now" by (simp add: now_def)
  ultimately show ?thesis using run_once assms by blast
qed

definition rp_example :: "(string \<times> int64) list \<Rightarrow> ReplayWindow" where
  "rp_example os = \<lparr>rp_maxAge = 30000000000, rp_maxEntries = 512, rp_observed = os\<rparr>"

lemma rp_example_steps:
  "newReplayWindow 0 0 = rp_example []"
  "rp_Accept 100000 100000 ''a'' (rp_example []) = (True, rp_example [(''a'', 100000)])"
  "rp_Accept 100001 100000 ''a'' (rp_example [(''a'', 100000)]) = (False, rp_example [(''a'', 100000)])"
  "rp_Accept 100002 100002 ''b'' (rp_example [(''a'', 100000)]) = (True, rp_example [(''b'', 100002), (''a'', 100000)])"
  by (simp_all add: rp_example_def newReplayWindow_def defaultReplayWindow_def defaultReplayWindowMaxEntries_def
      rp_Accept_def expire_before_def pruneOverflowLocked_def window_ms_def quot_def)

theorem replay_once_witness:
  "accepted (newReplayWindow 0 0) [(100000, 100000, ''a''), (100001, 100000, ''a''), (100002, 100002, ''b'')] =
     [(100000, ''a''), (100002, ''b'')] \<and>
   distinct (accepted (newReplayWindow 0 0) [(100000, 100000, ''a''), (100001, 100000, ''a''), (100002, 100002, ''b'')])"
proof -
  let ?es = "[(100000, 100000, ''a''), (100001, 100000, ''a''), (100002, 100002, ''b'')]"
  have a: "accepted (newReplayWindow 0 0) ?es = [(100000, ''a''), (100002, ''b'')]"
    by (simp add: accepted_def rp_example_steps)
  have "uncrowded (newReplayWindow 0 0) ?es"
    unfolding uncrowded_def
  proof (intro allI impI)
    fix k assume k: "k < length ?es"
    have "length (filter P (accepted (newReplayWindow 0 0) (take k ?es))) \<le> k" for P
      by (rule order_trans [OF length_filter_le order_trans [OF length_accepted]]) simp
    then show "int (length (filter (\<lambda>(ts, _). fst (?es ! k) - window_ms (newReplayWindow 0 0) \<le> ts)
        (accepted (newReplayWindow 0 0) (take k ?es)))) < rp_maxEntries (newReplayWindow 0 0)" (is "int (length (filter ?P ?a)) < _")
    proof -
      assume "\<And>P. length (filter P ?a) \<le> k"
      then have "length (filter ?P ?a) \<le> k" .
      moreover have "rp_maxEntries (newReplayWindow 0 0) = 512" by (simp add: rp_example_steps rp_example_def)
      moreover have "k < 3" using k by simp
      ultimately show ?thesis by linarith
    qed
  qed
  then show ?thesis
    using replay_once [of ?es 0 0] a by (simp add: clock_ok_def)
qed

subsection \<open>A full window\<close>

lemma prune_oldest:
  assumes "0 < rp_maxEntries w" "length (rp_observed w) = nat (rp_maxEntries w)" "(n0, t0) \<in> set (rp_observed w)"
    "\<forall>(n, t) \<in> set (rp_observed w). (t0, n0) \<le> (t, n)"
  shows "n0 \<notin> fst ` set (rp_observed (pruneOverflowLocked w))"
proof -
  let ?l = "map (\<lambda>(n, t). (t, n)) (rp_observed w)"
  have ne: "sort ?l \<noteq> []" using assms(3) by (metis length_greater_0_conv length_map length_pos_if_in_set length_sort)
  have in_l: "(t0, n0) \<in> set ?l" using assms(3) by force
  have "hd (sort ?l) \<in> set ?l" using ne by (metis hd_in_set set_sort)
  then have "(t0, n0) \<le> hd (sort ?l)" using assms(4) by auto
  moreover have "hd (sort ?l) \<le> (t0, n0)"
    using in_l ne by (metis list.collapse set_ConsD set_sort sorted_sort sorted_simps(2) order_refl)
  ultimately have "hd (sort ?l) = (t0, n0)" by simp
  then have "take 1 (sort ?l) = [(t0, n0)]" using ne by (cases "sort ?l") auto
  moreover have "\<not> int (length (rp_observed w)) < rp_maxEntries w" "length (rp_observed w) - nat (rp_maxEntries w) + 1 = 1"
    using assms(1,2) by simp_all
  ultimately show ?thesis
    using assms(1) by (auto simp: pruneOverflowLocked_def Let_def)
qed

lemma prune_subset: "set (rp_observed (pruneOverflowLocked w)) \<subseteq> set (rp_observed w)"
  by (auto simp: pruneOverflowLocked_def Let_def)

text \<open>
  C39: A full window accepts replays.  When \<open>maxEntries\<close> packets (512 in the program) are in the window, all of them young
  enough, the next new packet drives out the oldest one, and a replay of that oldest packet is accepted at once,
  although its timestamp is still in the window.
\<close>

theorem replay_overflow:
  assumes full: "0 < rp_maxEntries w" "length (rp_observed w) = nat (rp_maxEntries w)"
    and young: "\<forall>(n, t) \<in> set (rp_observed w). now - window_ms w \<le> t"
    and oldest: "(n0, t0) \<in> set (rp_observed w)" "\<forall>(n, t) \<in> set (rp_observed w). (t0, n0) \<le> (t, n)"
      "n0 \<noteq> []" "0 < t0" "t0 \<le> now + window_ms w"
    and new: "n \<noteq> []" "n \<notin> fst ` set (rp_observed w)" "0 < ts" "now - window_ms w \<le> ts" "ts \<le> now + window_ms w"
  shows "let (ok1, w1) = rp_Accept now ts n w; (ok2, w2) = rp_Accept now t0 n0 w1 in ok1 \<and> ok2"
proof -
  define v where "v = pruneOverflowLocked w"
  have e: "expire_before (now - window_ms w) w = w"
    using young by (simp add: expire_before_def not_less filter_id_conv case_prod_beta')
  have "n \<notin> fst ` set (rp_observed v)"
    using new(2) prune_subset [of w] by (auto simp: v_def)
  then have a1: "rp_Accept now ts n w = (True, v\<lparr>rp_observed := (n, ts) # rp_observed v\<rparr>)"
    using new by (simp add: rp_Accept_def e Let_def flip: v_def)
  have "n0 \<notin> fst ` set (rp_observed v)"
    unfolding v_def by (rule prune_oldest [OF full oldest(1,2)])
  moreover have "n0 \<noteq> n" using oldest(1) new(2) by force
  ultimately have gone: "n0 \<notin> fst ` set ((n, ts) # rp_observed v)" by simp
  have sub: "set (rp_observed (pruneOverflowLocked (expire_before t (v\<lparr>rp_observed := (n, ts) # rp_observed v\<rparr>))))
      \<subseteq> set ((n, ts) # rp_observed v)" for t
    by (rule order_trans [OF prune_subset]) (auto simp: expire_before_def)
  have "n0 \<notin> fst ` set (rp_observed (pruneOverflowLocked (expire_before t (v\<lparr>rp_observed := (n, ts) # rp_observed v\<rparr>))))" for t
    using gone image_mono [OF sub [of t], of fst] by blast
  moreover have "window_ms (v\<lparr>rp_observed := (n, ts) # rp_observed v\<rparr>) = window_ms w"
    by (simp add: window_ms_def v_def)
  moreover have "now - window_ms w \<le> t0" using young oldest(1) by auto
  ultimately have "fst (rp_Accept now t0 n0 (v\<lparr>rp_observed := (n, ts) # rp_observed v\<rparr>))"
    using oldest(3-5) by (simp add: rp_Accept_def Let_def)
  then show ?thesis by (simp add: a1 Let_def case_prod_beta)
qed

theorem replay_overflow_witness:
  "let (ok1, w1) = rp_Accept 100001 100001 ''b'' \<lparr>rp_maxAge = 30000000000, rp_maxEntries = 1, rp_observed = [(''a'', 100000)]\<rparr>;
       (ok2, w2) = rp_Accept 100001 100000 ''a'' w1
   in ok1 \<and> ok2"
  by (rule replay_overflow) (simp_all add: window_ms_def quot_def)

end
