(* ===== verification/P2P_Candidate.thy ===== *)
theory P2P_Candidate
  imports Prelude "HOL-Library.AList" "HOL-Library.List_Lexorder" "HOL-Library.Char_ord" "HOL-Library.Product_Lexorder"
begin

text \<open>
  The candidate pairs of a peer-to-peer session (\<open>src/lib/p2p/candidate.go\<close>): which pair of addresses is observed,
  works, is nominated and is confirmed.

  The map of candidates is an association list with distinct keys.  The pointers in it never leave the manager (every
  operation returns a copy), so that the pairs are values.  Every method runs under the mutex and is one step; the
  clock reading is an argument.  A \<open>time.Time\<close> is its distance from the zero time in nanoseconds, so that the zero
  value is 0.  The order in which Go's \<open>range\<close> visits a map is an argument of \<open>TryNominateBest\<close>, the only method whose
  loop could depend on it.
\<close>

subsection \<open>Pairs\<close>

datatype CandidateState =
    CandidateDiscovered
  | CandidateSucceeded
  | CandidateNominated
  | CandidateConfirmed
  | CandidateClosed

record CandidatePair =
  cp_LocalAddr :: string
  cp_RemoteAddr :: string
  cp_State :: CandidateState
  cp_FirstSeenAt :: int
  cp_LastSeenAt :: int
  cp_SucceededAt :: int
  cp_Nominated :: bool
  cp_Confirmed :: bool
  cp_SuccessCount :: int64
  cp_Score :: int64
  cp_ScoreReason :: string
  cp_NominationFailures :: int64
  cp_NominationCooldownUntil :: int

record CandidatePriority =
  pr_Score :: int64
  pr_Reason :: string

definition candidateKey :: "string \<Rightarrow> string \<Rightarrow> string" where
  "candidateKey localAddr remoteAddr = localAddr @ ''->'' @ remoteAddr"

definition applyCandidatePriority :: "CandidatePriority \<Rightarrow> CandidatePair \<Rightarrow> CandidatePair" where
  "applyCandidatePriority priority pair =
     (if cp_Score pair < pr_Score priority
      then pair\<lparr>cp_Score := pr_Score priority, cp_ScoreReason := pr_Reason priority\<rparr>
      else if pr_Score priority = cp_Score pair \<and> cp_ScoreReason pair = []
      then pair\<lparr>cp_ScoreReason := pr_Reason priority\<rparr>
      else pair)"

definition newCandidatePair :: "string \<Rightarrow> string \<Rightarrow> int \<Rightarrow> CandidatePair" where
  "newCandidatePair localAddr remoteAddr now =
     \<lparr>cp_LocalAddr = localAddr, cp_RemoteAddr = remoteAddr, cp_State = CandidateDiscovered, cp_FirstSeenAt = now,
      cp_LastSeenAt = now, cp_SucceededAt = 0, cp_Nominated = False, cp_Confirmed = False, cp_SuccessCount = 0,
      cp_Score = 0, cp_ScoreReason = [], cp_NominationFailures = 0, cp_NominationCooldownUntil = 0\<rparr>"

definition reopenClosedCandidate :: "CandidatePair \<Rightarrow> CandidatePair" where
  "reopenClosedCandidate pair =
     pair\<lparr>cp_State := CandidateDiscovered, cp_Nominated := False, cp_Confirmed := False, cp_SucceededAt := 0,
       cp_SuccessCount := 0, cp_Score := 0, cp_ScoreReason := [], cp_NominationFailures := 0,
       cp_NominationCooldownUntil := 0\<rparr>"

definition revertNominatedPair :: "CandidatePair \<Rightarrow> CandidatePair" where
  "revertNominatedPair pair =
     pair\<lparr>cp_Nominated := False,
       cp_State := (if 0 < cp_SuccessCount pair then CandidateSucceeded else CandidateDiscovered)\<rparr>"

definition nominate_pair :: "CandidatePair \<Rightarrow> CandidatePair" where
  "nominate_pair pair = pair\<lparr>cp_State := CandidateNominated, cp_Nominated := True\<rparr>"

definition betterCandidateForNomination :: "CandidatePair \<Rightarrow> CandidatePair option \<Rightarrow> bool" where
  "betterCandidateForNomination pair best0 =
     (case best0 of
        None \<Rightarrow> True
      | Some best \<Rightarrow>
          if cp_Score pair \<noteq> cp_Score best then cp_Score best < cp_Score pair
          else if cp_SuccessCount pair \<noteq> cp_SuccessCount best then cp_SuccessCount best < cp_SuccessCount pair
          else if cp_NominationFailures pair \<noteq> cp_NominationFailures best
          then cp_NominationFailures pair < cp_NominationFailures best
          else if cp_SucceededAt pair \<noteq> cp_SucceededAt best then
            (if cp_SucceededAt pair = 0 then False
             else if cp_SucceededAt best = 0 then True
             else cp_SucceededAt pair < cp_SucceededAt best)
          else if cp_FirstSeenAt pair \<noteq> cp_FirstSeenAt best then cp_FirstSeenAt pair < cp_FirstSeenAt best
          else if cp_LocalAddr pair \<noteq> cp_LocalAddr best then cp_LocalAddr pair < cp_LocalAddr best
          else cp_RemoteAddr pair < cp_RemoteAddr best)"

subsection \<open>The manager\<close>

record CandidateManager =
  cm_candidates :: "(string \<times> CandidatePair) list"
  cm_nominatedKey :: string
  cm_confirmedKey :: string
  cm_candidateRemote :: string
  cm_confirmedRemote :: string

definition NewCandidateManager :: "string \<Rightarrow> CandidateManager" where
  "NewCandidateManager rendezvousRemote =
     \<lparr>cm_candidates = [], cm_nominatedKey = [], cm_confirmedKey = [], cm_candidateRemote = rendezvousRemote,
      cm_confirmedRemote = []\<rparr>"

definition cm_get :: "string \<Rightarrow> CandidateManager \<Rightarrow> CandidatePair option" where
  "cm_get key m = map_of (cm_candidates m) key"

definition cm_put :: "string \<Rightarrow> CandidatePair \<Rightarrow> CandidateManager \<Rightarrow> CandidateManager" where
  "cm_put key pair m = m\<lparr>cm_candidates := AList.update key pair (cm_candidates m)\<rparr>"

definition updateCandidateRemoteLocked :: "string \<Rightarrow> CandidateManager \<Rightarrow> CandidateManager" where
  "updateCandidateRemoteLocked remoteAddr m =
     (if cm_confirmedRemote m = [] \<or> cm_confirmedRemote m = remoteAddr
      then m\<lparr>cm_candidateRemote := remoteAddr\<rparr> else m)"

definition cm_observe :: "int \<Rightarrow> string \<Rightarrow> string \<Rightarrow> CandidatePriority \<Rightarrow> CandidateManager \<Rightarrow> CandidatePair \<times> CandidateManager" where
  "cm_observe now localAddr remoteAddr priority m =
     (let key = candidateKey localAddr remoteAddr
      in case cm_get key m of
           Some pair \<Rightarrow>
             (let pair = (if cp_State pair = CandidateClosed \<and> cm_confirmedKey m = [] then reopenClosedCandidate pair else pair);
                  pair = applyCandidatePriority priority (pair\<lparr>cp_LastSeenAt := now\<rparr>)
              in (pair, cm_put key pair m))
         | None \<Rightarrow>
             (let pair = applyCandidatePriority priority (newCandidatePair localAddr remoteAddr now)
              in (pair, updateCandidateRemoteLocked remoteAddr (cm_put key pair m))))"

definition no_priority :: CandidatePriority where
  "no_priority = \<lparr>pr_Score = 0, pr_Reason = []\<rparr>"

definition cm_Observe :: "int \<Rightarrow> string \<Rightarrow> string \<Rightarrow> CandidateManager \<Rightarrow> CandidatePair \<times> CandidateManager" where
  "cm_Observe now localAddr remoteAddr m = cm_observe now localAddr remoteAddr no_priority m"

definition MarkSucceededWithPriority ::
    "int \<Rightarrow> string \<Rightarrow> string \<Rightarrow> CandidatePriority \<Rightarrow> CandidateManager \<Rightarrow> CandidatePair \<times> CandidateManager" where
  "MarkSucceededWithPriority now localAddr remoteAddr priority m =
     (let key = candidateKey localAddr remoteAddr;
          pair = (case cm_get key m of Some pair \<Rightarrow> pair | None \<Rightarrow> newCandidatePair localAddr remoteAddr now);
          pair = applyCandidatePriority priority (pair\<lparr>cp_LastSeenAt := now\<rparr>)
      in if cp_Confirmed pair \<or> cm_confirmedKey m = key then
           (let pair = pair\<lparr>cp_State := CandidateConfirmed\<rparr> in (pair, cm_put key pair m))
         else if cp_State pair = CandidateClosed then
           (if cm_confirmedKey m = [] then
              (let pair = pair\<lparr>cp_Nominated := False, cp_Confirmed := False, cp_State := CandidateSucceeded,
                            cp_SucceededAt := now, cp_SuccessCount := 1, cp_NominationFailures := 0,
                            cp_NominationCooldownUntil := 0\<rparr>
               in (pair, updateCandidateRemoteLocked remoteAddr (cm_put key pair m)))
            else (pair, cm_put key pair m))
         else
           (let pair = pair\<lparr>cp_State := CandidateSucceeded,
                         cp_SucceededAt := (if cp_SucceededAt pair = 0 then now else cp_SucceededAt pair),
                         cp_SuccessCount := cp_SuccessCount pair + 1\<rparr>
            in (pair, updateCandidateRemoteLocked remoteAddr (cm_put key pair m))))"

definition MarkSucceeded :: "int \<Rightarrow> string \<Rightarrow> string \<Rightarrow> CandidateManager \<Rightarrow> CandidatePair \<times> CandidateManager" where
  "MarkSucceeded now localAddr remoteAddr m = MarkSucceededWithPriority now localAddr remoteAddr no_priority m"

definition TryNominate :: "int \<Rightarrow> string \<Rightarrow> string \<Rightarrow> CandidateManager \<Rightarrow> (CandidatePair option \<times> bool) \<times> CandidateManager" where
  "TryNominate now localAddr remoteAddr m =
     (let key = candidateKey localAddr remoteAddr
      in case cm_get key m of
           None \<Rightarrow> ((None, False), m)
         | Some pair \<Rightarrow>
             (let pair = pair\<lparr>cp_LastSeenAt := now\<rparr>
              in if cm_nominatedKey m \<noteq> [] then ((Some pair, False), cm_put key pair m)
                 else
                   (let pair = nominate_pair pair
                    in ((Some pair, True),
                        updateCandidateRemoteLocked remoteAddr (cm_put key pair m\<lparr>cm_nominatedKey := key\<rparr>)))))"

definition AdoptNomination :: "int \<Rightarrow> string \<Rightarrow> string \<Rightarrow> CandidateManager \<Rightarrow> (CandidatePair \<times> bool) \<times> CandidateManager" where
  "AdoptNomination now localAddr remoteAddr m0 =
     (let key = candidateKey localAddr remoteAddr;
          pair = (case cm_get key m0 of Some pair \<Rightarrow> pair | None \<Rightarrow> newCandidatePair localAddr remoteAddr now);
          pair = pair\<lparr>cp_LastSeenAt := now\<rparr>;
          m = cm_put key pair m0
      in if cp_Confirmed pair \<or> cm_confirmedKey m = key then ((pair, False), m)
         else if cm_confirmedKey m \<noteq> [] \<and> cm_confirmedKey m \<noteq> key then ((pair, False), m)
         else if cm_nominatedKey m = key then (let pair = nominate_pair pair in ((pair, True), cm_put key pair m))
         else
           (let m = (if cm_nominatedKey m \<noteq> [] then
                       (case cm_get (cm_nominatedKey m) m of
                          Some previous \<Rightarrow> cm_put (cm_nominatedKey m) (revertNominatedPair previous) m
                        | None \<Rightarrow> m)
                     else m);
                pair = nominate_pair pair
            in ((pair, True), updateCandidateRemoteLocked remoteAddr (cm_put key pair m\<lparr>cm_nominatedKey := key\<rparr>))))"

text \<open>The loop of \<open>TryNominateBest\<close> over the keys in the order given.\<close>

definition nominable :: "int \<Rightarrow> CandidatePair \<Rightarrow> bool" where
  "nominable now pair \<longleftrightarrow>
     \<not> (cp_Confirmed pair \<or> cp_State pair = CandidateClosed) \<and>
     \<not> (cp_State pair \<noteq> CandidateSucceeded \<or> cp_SuccessCount pair = 0) \<and>
     \<not> (cp_NominationCooldownUntil pair \<noteq> 0 \<and> now < cp_NominationCooldownUntil pair)"

fun best_loop ::
    "int \<Rightarrow> CandidateManager \<Rightarrow> string list \<Rightarrow> (string \<times> CandidatePair) option \<Rightarrow> (string \<times> CandidatePair) option" where
  "best_loop now m [] best = best"
| "best_loop now m (key # order) best =
     (case cm_get key m of
        None \<Rightarrow> best_loop now m order best
      | Some pair \<Rightarrow>
          if nominable now pair \<and> betterCandidateForNomination pair (map_option snd best)
          then best_loop now m order (Some (key, pair))
          else best_loop now m order best)"

definition TryNominateBest :: "int \<Rightarrow> string list \<Rightarrow> CandidateManager \<Rightarrow> (CandidatePair option \<times> bool) \<times> CandidateManager" where
  "TryNominateBest now order m =
     (if cm_nominatedKey m \<noteq> [] then ((cm_get (cm_nominatedKey m) m, False), m)
      else
        (case best_loop now m order None of
           None \<Rightarrow> ((None, False), m)
         | Some (key, pair) \<Rightarrow>
             (let pair = nominate_pair (pair\<lparr>cp_LastSeenAt := now\<rparr>)
              in ((Some pair, True),
                  updateCandidateRemoteLocked (cp_RemoteAddr pair) (cm_put key pair m\<lparr>cm_nominatedKey := key\<rparr>)))))"

definition close_other :: "CandidatePair \<Rightarrow> CandidatePair" where
  "close_other pair = (if cp_Confirmed pair then pair else pair\<lparr>cp_State := CandidateClosed, cp_Nominated := False\<rparr>)"

definition Confirm :: "int \<Rightarrow> string \<Rightarrow> string \<Rightarrow> CandidateManager \<Rightarrow> CandidatePair option \<times> CandidateManager" where
  "Confirm now localAddr remoteAddr m =
     (let key = candidateKey localAddr remoteAddr
      in case cm_get key m of
           None \<Rightarrow> (None, m)
         | Some pair \<Rightarrow>
             if cp_Confirmed pair \<or> cm_confirmedKey m = key then (None, m)
             else if cm_nominatedKey m = [] \<or> cm_nominatedKey m \<noteq> key then (None, m)
             else if cm_confirmedKey m \<noteq> [] \<and> cm_confirmedKey m \<noteq> key then (None, m)
             else
               (let pair = pair\<lparr>cp_LastSeenAt := now, cp_State := CandidateConfirmed, cp_Nominated := False,
                             cp_Confirmed := True\<rparr>;
                    m = cm_put key pair m\<lparr>cm_confirmedKey := key, cm_nominatedKey := [], cm_confirmedRemote := remoteAddr,
                          cm_candidateRemote := remoteAddr\<rparr>
                in (Some pair,
                    m\<lparr>cm_candidates := map (\<lambda>(k, p). (k, if k = key then p else close_other p)) (cm_candidates m)\<rparr>)))"

definition BackoffNomination ::
    "int \<Rightarrow> string \<Rightarrow> string \<Rightarrow> int64 \<Rightarrow> CandidateManager \<Rightarrow> CandidatePair option \<times> CandidateManager" where
  "BackoffNomination now localAddr remoteAddr cooldown m =
     (let key = candidateKey localAddr remoteAddr
      in if cm_nominatedKey m = [] \<or> cm_nominatedKey m \<noteq> key \<or> cm_confirmedKey m \<noteq> [] then (None, m)
         else
           (case cm_get key m of
              None \<Rightarrow> (None, m\<lparr>cm_nominatedKey := []\<rparr>)
            | Some pair \<Rightarrow>
                (let pair = pair\<lparr>cp_LastSeenAt := now, cp_Nominated := False,
                              cp_NominationFailures := cp_NominationFailures pair + 1,
                              cp_NominationCooldownUntil :=
                                (if 0 < cooldown then now + cooldown else cp_NominationCooldownUntil pair),
                              cp_State := (if 0 < cp_SuccessCount pair then CandidateSucceeded else CandidateDiscovered)\<rparr>
                 in (Some pair, cm_put key pair m\<lparr>cm_nominatedKey := []\<rparr>))))"

definition ReleaseNomination :: "int \<Rightarrow> string \<Rightarrow> string \<Rightarrow> CandidateManager \<Rightarrow> CandidatePair option \<times> CandidateManager" where
  "ReleaseNomination now localAddr remoteAddr m =
     (let key = candidateKey localAddr remoteAddr
      in if cm_nominatedKey m = [] \<or> cm_nominatedKey m \<noteq> key \<or> cm_confirmedKey m \<noteq> [] then (None, m)
         else
           (case cm_get key m of
              None \<Rightarrow> (None, m\<lparr>cm_nominatedKey := []\<rparr>)
            | Some pair \<Rightarrow>
                (let pair = revertNominatedPair (pair\<lparr>cp_LastSeenAt := now\<rparr>)
                 in (Some pair, cm_put key pair m\<lparr>cm_nominatedKey := []\<rparr>))))"

text \<open>Ages: \<open>time.Time.Sub\<close> saturates at the bounds of a duration.\<close>

definition time_Sub :: "int \<Rightarrow> int \<Rightarrow> int64" where
  "time_Sub a b = max minI64 (min maxI64 (a - b))"

definition outdated :: "int \<Rightarrow> int64 \<Rightarrow> CandidatePair \<Rightarrow> bool" where
  "outdated now maxAge pair \<longleftrightarrow>
     (let lastSeen = (if cp_LastSeenAt pair = 0 then cp_FirstSeenAt pair else cp_LastSeenAt pair)
      in \<not> (lastSeen = 0 \<or> time_Sub now lastSeen \<le> maxAge))"

definition stale :: "int \<Rightarrow> int64 \<Rightarrow> CandidatePair \<Rightarrow> bool" where
  "stale now maxAge pair \<longleftrightarrow>
     \<not> (cp_Confirmed pair \<or> cp_Nominated pair \<or> cp_State pair = CandidateClosed) \<and> outdated now maxAge pair"

definition PruneStale :: "int \<Rightarrow> int64 \<Rightarrow> CandidateManager \<Rightarrow> nat \<times> CandidateManager" where
  "PruneStale now maxAge m =
     (if maxAge \<le> 0 then (0, m)
      else
        (length (filter (\<lambda>(k, p). stale now maxAge p) (cm_candidates m)),
         m\<lparr>cm_candidates :=
             map (\<lambda>(k, p). (k, if stale now maxAge p then p\<lparr>cp_State := CandidateClosed, cp_LastSeenAt := now\<rparr> else p))
               (cm_candidates m)\<rparr>))"

definition removable :: "int \<Rightarrow> int64 \<Rightarrow> CandidatePair \<Rightarrow> bool" where
  "removable now maxAge pair \<longleftrightarrow>
     \<not> (cp_State pair \<noteq> CandidateClosed \<or> cp_Confirmed pair) \<and> outdated now maxAge pair"

definition CleanupClosed :: "int \<Rightarrow> int64 \<Rightarrow> CandidateManager \<Rightarrow> nat \<times> CandidateManager" where
  "CleanupClosed now maxAge m =
     (if maxAge \<le> 0 then (0, m)
      else
        (length (filter (\<lambda>(k, p). removable now maxAge p) (cm_candidates m)),
         m\<lparr>cm_candidates := filter (\<lambda>(k, p). \<not> removable now maxAge p) (cm_candidates m)\<rparr>))"

definition NominatedPair :: "CandidateManager \<Rightarrow> CandidatePair option" where
  "NominatedPair m = (if cm_nominatedKey m = [] then None else cm_get (cm_nominatedKey m) m)"

definition ConfirmedPair :: "CandidateManager \<Rightarrow> CandidatePair option" where
  "ConfirmedPair m = (if cm_confirmedKey m = [] then None else cm_get (cm_confirmedKey m) m)"

definition HasConfirmed :: "CandidateManager \<Rightarrow> bool" where
  "HasConfirmed m \<longleftrightarrow> cm_confirmedKey m \<noteq> []"

definition HasNominated :: "CandidateManager \<Rightarrow> bool" where
  "HasNominated m \<longleftrightarrow> cm_nominatedKey m \<noteq> []"

definition HasConfirmedOrNominated :: "CandidateManager \<Rightarrow> bool" where
  "HasConfirmedOrNominated m \<longleftrightarrow> cm_confirmedKey m \<noteq> [] \<or> cm_nominatedKey m \<noteq> []"

text \<open>\<open>StateCounts\<close>: total, active, discovered, succeeded, nominated, confirmed, closed.\<close>

definition count_state :: "CandidateState \<Rightarrow> CandidateManager \<Rightarrow> nat" where
  "count_state s m = length (filter (\<lambda>(k, p). cp_State p = s) (cm_candidates m))"

definition StateCounts :: "CandidateManager \<Rightarrow> nat list" where
  "StateCounts m =
     (let cs = map (\<lambda>s. count_state s m) [CandidateDiscovered, CandidateSucceeded, CandidateNominated, CandidateConfirmed]
      in [length (cm_candidates m), sum_list cs] @ cs @ [count_state CandidateClosed m])"

subsection \<open>Steps\<close>

text \<open>What can happen to a manager, at any time and in any order.\<close>

inductive cm_step :: "CandidateManager \<Rightarrow> CandidateManager \<Rightarrow> bool" where
  step_observe: "cm_step m (snd (cm_observe now l r pr m))"
| step_succeeded: "cm_step m (snd (MarkSucceededWithPriority now l r pr m))"
| step_nominate: "cm_step m (snd (TryNominate now l r m))"
| step_adopt: "cm_step m (snd (AdoptNomination now l r m))"
| step_best: "set order = fst ` set (cm_candidates m) \<Longrightarrow> cm_step m (snd (TryNominateBest now order m))"
| step_confirm: "cm_step m (snd (Confirm now l r m))"
| step_backoff: "cm_step m (snd (BackoffNomination now l r cooldown m))"
| step_release: "cm_step m (snd (ReleaseNomination now l r m))"
| step_prune: "cm_step m (snd (PruneStale now maxAge m))"
| step_cleanup: "cm_step m (snd (CleanupClosed now maxAge m))"

inductive cm_reach :: "CandidateManager \<Rightarrow> bool" where
  reach_new: "cm_reach (NewCandidateManager remote)"
| reach_step: "cm_reach m \<Longrightarrow> cm_step m m' \<Longrightarrow> cm_reach m'"

inductive_cases cm_stepE: "cm_step m m'"

text \<open>The invariant: keys are distinct and are those of their pairs; the flags agree with the two keys.\<close>

definition keyed :: "string \<Rightarrow> CandidatePair \<Rightarrow> bool" where
  "keyed key p \<longleftrightarrow> key = candidateKey (cp_LocalAddr p) (cp_RemoteAddr p)"

definition pair_ok :: "string \<Rightarrow> string \<Rightarrow> string \<Rightarrow> CandidatePair \<Rightarrow> bool" where
  "pair_ok nom conf key p \<longleftrightarrow>
     keyed key p \<and> cp_Confirmed p = (key = conf) \<and> cp_Nominated p = (key = nom) \<and>
     (cp_Nominated p \<longrightarrow> cp_State p \<noteq> CandidateClosed)"

definition cm_inv :: "CandidateManager \<Rightarrow> bool" where
  "cm_inv m \<longleftrightarrow>
     distinct (map fst (cm_candidates m)) \<and>
     (\<forall>key p. cm_get key m = Some p \<longrightarrow> pair_ok (cm_nominatedKey m) (cm_confirmedKey m) key p) \<and>
     (cm_nominatedKey m \<noteq> [] \<longrightarrow> cm_get (cm_nominatedKey m) m \<noteq> None) \<and>
     (cm_confirmedKey m \<noteq> [] \<longrightarrow> cm_get (cm_confirmedKey m) m \<noteq> None)"

lemma candidateKey_ne [simp]: "candidateKey l r \<noteq> []" "[] \<noteq> candidateKey l r"
  by (simp_all add: candidateKey_def)

lemma cm_get_put: "cm_get key (cm_put key' p m) = (if key = key' then Some p else cm_get key m)"
  by (simp add: cm_get_def cm_put_def update_conv')

lemma cm_put_simps [simp]:
  "cm_nominatedKey (cm_put key p m) = cm_nominatedKey m" "cm_confirmedKey (cm_put key p m) = cm_confirmedKey m"
  "cm_confirmedRemote (cm_put key p m) = cm_confirmedRemote m" "cm_candidateRemote (cm_put key p m) = cm_candidateRemote m"
  by (simp_all add: cm_put_def)

lemma distinct_put [simp]: "distinct (map fst (cm_candidates m)) \<Longrightarrow> distinct (map fst (cm_candidates (cm_put key p m)))"
  by (simp add: cm_put_def distinct_update)

lemma update_remote_simps [simp]:
  "cm_get key (updateCandidateRemoteLocked r m) = cm_get key m"
  "cm_candidates (updateCandidateRemoteLocked r m) = cm_candidates m"
  "cm_nominatedKey (updateCandidateRemoteLocked r m) = cm_nominatedKey m"
  "cm_confirmedKey (updateCandidateRemoteLocked r m) = cm_confirmedKey m"
  "cm_confirmedRemote (updateCandidateRemoteLocked r m) = cm_confirmedRemote m"
  by (simp_all add: updateCandidateRemoteLocked_def cm_get_def)

lemma cm_get_nominatedKey [simp]: "cm_get key (m\<lparr>cm_nominatedKey := k\<rparr>) = cm_get key m"
  by (simp add: cm_get_def)

lemma priority_simps [simp]:
  "cp_LocalAddr (applyCandidatePriority pr p) = cp_LocalAddr p" "cp_RemoteAddr (applyCandidatePriority pr p) = cp_RemoteAddr p"
  "cp_State (applyCandidatePriority pr p) = cp_State p" "cp_Nominated (applyCandidatePriority pr p) = cp_Nominated p"
  "cp_Confirmed (applyCandidatePriority pr p) = cp_Confirmed p"
  by (simp_all add: applyCandidatePriority_def)

lemmas pair_defs = newCandidatePair_def reopenClosedCandidate_def revertNominatedPair_def nominate_pair_def

lemma keyed_simps [simp]:
  "keyed key (p\<lparr>cp_LastSeenAt := x\<rparr>) = keyed key p" "keyed key (p\<lparr>cp_State := s\<rparr>) = keyed key p"
  "keyed key (p\<lparr>cp_Nominated := b\<rparr>) = keyed key p" "keyed key (p\<lparr>cp_Confirmed := b\<rparr>) = keyed key p"
  "keyed key (p\<lparr>cp_SucceededAt := x\<rparr>) = keyed key p" "keyed key (p\<lparr>cp_SuccessCount := x\<rparr>) = keyed key p"
  "keyed key (p\<lparr>cp_Score := x\<rparr>) = keyed key p" "keyed key (p\<lparr>cp_ScoreReason := z\<rparr>) = keyed key p"
  "keyed key (p\<lparr>cp_NominationFailures := x\<rparr>) = keyed key p"
  "keyed key (p\<lparr>cp_NominationCooldownUntil := x\<rparr>) = keyed key p"
  "keyed key (applyCandidatePriority pr p) = keyed key p"
  "keyed (candidateKey l r) (newCandidatePair l r now)"
  by (simp_all add: keyed_def newCandidatePair_def)

lemma keyed_ne: "keyed key p \<Longrightarrow> key \<noteq> []"
  by (simp add: keyed_def)

lemma cm_inv_new: "cm_inv (NewCandidateManager remote)"
  by (simp add: cm_inv_def NewCandidateManager_def cm_get_def)

lemma cm_invD: "cm_inv m \<Longrightarrow> cm_get key m = Some p \<Longrightarrow> pair_ok (cm_nominatedKey m) (cm_confirmedKey m) key p"
  by (simp add: cm_inv_def)

lemma cm_get_nil: "cm_inv m \<Longrightarrow> cm_get [] m = None"
  using cm_invD [of m "[]"] keyed_ne [of "[]"] by (cases "cm_get [] m") (auto simp: pair_ok_def)

text \<open>Storing a pair keeps the invariant when the pair fits the keys.\<close>

lemma cm_inv_put:
  assumes "cm_inv m" "pair_ok (cm_nominatedKey m) (cm_confirmedKey m) key p"
  shows "cm_inv (cm_put key p m)"
  unfolding cm_inv_def
  using assms by (auto simp: cm_get_put cm_inv_def split: if_splits)

lemma cm_inv_remote [simp]: "cm_inv (updateCandidateRemoteLocked r m) = cm_inv m"
  by (simp add: cm_inv_def)

lemma pair_ok_new:
  assumes "cm_inv m" "cm_get (candidateKey l r) m = None"
  shows "pair_ok (cm_nominatedKey m) (cm_confirmedKey m) (candidateKey l r) (newCandidatePair l r now)"
proof -
  have "candidateKey l r \<noteq> cm_nominatedKey m" "candidateKey l r \<noteq> cm_confirmedKey m"
    using assms by (auto simp: cm_inv_def)
  then show ?thesis by (simp add: pair_ok_def) (simp add: newCandidatePair_def)
qed

text \<open>The pair an operation starts from: the stored one, or a new one.\<close>

lemma pair_ok_start:
  assumes "cm_inv m"
  shows "pair_ok (cm_nominatedKey m) (cm_confirmedKey m) (candidateKey l r)
    (case cm_get (candidateKey l r) m of Some pair \<Rightarrow> pair | None \<Rightarrow> newCandidatePair l r now)"
  using cm_invD [OF assms] pair_ok_new [OF assms] by (simp split: option.split)

lemma pair_ok_simps [simp]:
  "pair_ok nom conf key (p\<lparr>cp_LastSeenAt := now\<rparr>) = pair_ok nom conf key p"
  "pair_ok nom conf key (applyCandidatePriority pr p) = pair_ok nom conf key p"
  by (simp_all add: pair_ok_def)

lemma cm_inv_observe:
  assumes inv: "cm_inv m"
  shows "cm_inv (snd (cm_observe now l r pr m))"
proof (cases "cm_get (candidateKey l r) m")
  case None
  from pair_ok_new [OF inv None, of now] show ?thesis
    by (simp add: cm_observe_def None Let_def cm_inv_put [OF inv])
next
  case (Some p)
  from cm_invD [OF inv Some] show ?thesis
    by (auto simp: cm_observe_def Some Let_def pair_ok_def reopenClosedCandidate_def intro!: cm_inv_put [OF inv])
qed

lemma cm_inv_succeeded:
  assumes inv: "cm_inv m"
  shows "cm_inv (snd (MarkSucceededWithPriority now l r pr m))"
proof -
  define key where "key = candidateKey l r"
  define p where "p = (case cm_get key m of Some pair \<Rightarrow> pair | None \<Rightarrow> newCandidatePair l r now)"
  have p: "pair_ok (cm_nominatedKey m) (cm_confirmedKey m) key p"
    using pair_ok_start [OF inv] by (simp add: p_def key_def)
  show ?thesis
    unfolding MarkSucceededWithPriority_def Let_def key_def [symmetric] p_def [symmetric]
    using p by (auto simp: pair_ok_def intro!: cm_inv_put [OF inv])
qed

text \<open>Nominating a pair while no other one is nominated.\<close>

lemma cm_inv_nominate:
  assumes "cm_inv m" "cm_nominatedKey m = []" "pair_ok [] (cm_confirmedKey m) key p"
  shows "cm_inv (cm_put key (nominate_pair p) m\<lparr>cm_nominatedKey := key\<rparr>)"
proof -
  have "key \<noteq> []" using assms(3) keyed_ne by (auto simp: pair_ok_def)
  moreover have "cp_Nominated q = False" "k \<noteq> []" if "cm_get k m = Some q" for k q
    using cm_invD [OF assms(1) that] assms(2) keyed_ne by (auto simp: pair_ok_def)
  ultimately show ?thesis
    using assms by (auto simp: cm_inv_def cm_get_put pair_ok_def nominate_pair_def split: if_splits)
qed

lemma cm_inv_TryNominate:
  assumes inv: "cm_inv m"
  shows "cm_inv (snd (TryNominate now l r m))"
proof (cases "cm_get (candidateKey l r) m")
  case (Some p)
  from cm_invD [OF inv Some] show ?thesis
    by (auto simp: TryNominate_def Some Let_def intro!: cm_inv_put [OF inv] cm_inv_nominate [OF inv])
qed (simp add: TryNominate_def inv)

text \<open>Taking a nomination back.\<close>

lemma cm_inv_unnominate:
  assumes inv: "cm_inv m" and key: "cm_nominatedKey m = key" "key \<noteq> []"
    and p: "keyed key p" "cp_Confirmed p = (key = cm_confirmedKey m)" "\<not> cp_Nominated p"
  shows "cm_inv (cm_put key p m\<lparr>cm_nominatedKey := []\<rparr>)"
proof -
  have "pair_ok [] (cm_confirmedKey m) k q" if "cm_get k m = Some q" "k \<noteq> key" for k q
    using cm_invD [OF inv that(1)] that(2) key(1) keyed_ne by (auto simp: pair_ok_def)
  moreover have "pair_ok [] (cm_confirmedKey m) key p"
    using p key(2) by (simp add: pair_ok_def)
  ultimately show ?thesis
    using inv by (auto simp: cm_inv_def cm_get_put)
qed

lemma cm_inv_backoff:
  assumes inv: "cm_inv m"
  shows "cm_inv (snd (BackoffNomination now l r cooldown m))"
proof (cases "cm_nominatedKey m = candidateKey l r \<and> cm_confirmedKey m = []")
  case True
  then obtain p where p: "cm_get (candidateKey l r) m = Some p"
    using inv by (auto simp: cm_inv_def)
  from cm_invD [OF inv p] show ?thesis
    using True by (auto simp: BackoffNomination_def p Let_def pair_ok_def intro!: cm_inv_unnominate [OF inv])
qed (use inv in \<open>auto simp: BackoffNomination_def Let_def\<close>)

lemma cm_inv_release:
  assumes inv: "cm_inv m"
  shows "cm_inv (snd (ReleaseNomination now l r m))"
proof (cases "cm_nominatedKey m = candidateKey l r \<and> cm_confirmedKey m = []")
  case True
  then obtain p where p: "cm_get (candidateKey l r) m = Some p"
    using inv by (auto simp: cm_inv_def)
  from cm_invD [OF inv p] show ?thesis
    using True
    by (auto simp: ReleaseNomination_def p Let_def pair_ok_def revertNominatedPair_def intro!: cm_inv_unnominate [OF inv])
qed (use inv in \<open>auto simp: ReleaseNomination_def Let_def\<close>)

lemma cm_put_nominatedKey: "cm_put key p (m\<lparr>cm_nominatedKey := k\<rparr>) = cm_put key p m\<lparr>cm_nominatedKey := k\<rparr>"
  by (simp add: cm_put_def)

lemma cm_inv_adopt:
  assumes inv: "cm_inv m0"
  shows "cm_inv (snd (AdoptNomination now l r m0))"
proof -
  define key where "key = candidateKey l r"
  define p where "p = (case cm_get key m0 of Some pair \<Rightarrow> pair | None \<Rightarrow> newCandidatePair l r now)\<lparr>cp_LastSeenAt := now\<rparr>"
  define m where "m = cm_put key p m0"
  have p: "pair_ok (cm_nominatedKey m) (cm_confirmedKey m) key p"
    using pair_ok_start [OF inv, of l r now] by (simp add: p_def key_def m_def)
  then have m: "cm_inv m"
    unfolding m_def by (intro cm_inv_put [OF inv]) (simp add: m_def)
  define m1 where "m1 = (if cm_nominatedKey m \<noteq> [] then
      (case cm_get (cm_nominatedKey m) m of
         Some q \<Rightarrow> cm_put (cm_nominatedKey m) (revertNominatedPair q) m | None \<Rightarrow> m) else m)"
  have m1: "cm_inv (m1\<lparr>cm_nominatedKey := []\<rparr>)" "cm_confirmedKey m1 = cm_confirmedKey m"
  proof -
    show "cm_inv (m1\<lparr>cm_nominatedKey := []\<rparr>)"
    proof (cases "cm_nominatedKey m = []")
      case False
      then obtain q where q: "cm_get (cm_nominatedKey m) m = Some q" using m by (auto simp: cm_inv_def)
      from cm_invD [OF m q] cm_inv_unnominate [OF m refl False, of "revertNominatedPair q"] False show ?thesis
        by (simp add: m1_def q pair_ok_def revertNominatedPair_def)
    qed (use m in \<open>simp add: m1_def cm_inv_def\<close>)
  qed (simp add: m1_def split: option.split)
  have last_case: "cm_inv (cm_put key (nominate_pair p) m1\<lparr>cm_nominatedKey := key\<rparr>)" if "cm_nominatedKey m \<noteq> key"
  proof -
    have "pair_ok [] (cm_confirmedKey m) key p"
      using p that keyed_ne by (auto simp: pair_ok_def)
    then show ?thesis
      using cm_inv_nominate [OF m1(1), of key p] by (simp add: m1(2) cm_put_nominatedKey)
  qed
  have same: "cm_inv (cm_put key (nominate_pair p) m)" if "cm_nominatedKey m = key"
    using p that by (intro cm_inv_put [OF m]) (simp add: pair_ok_def nominate_pair_def)
  show ?thesis
    unfolding AdoptNomination_def Let_def key_def [symmetric] p_def [symmetric] m_def [symmetric] m1_def [symmetric]
    using m same last_case by auto
qed

lemma best_loop_get:
  "best_loop now m order best = Some (key, p) \<Longrightarrow> best \<noteq> Some (key, p) \<Longrightarrow> cm_get key m = Some p \<and> nominable now p"
  by (induction order arbitrary: best) (auto split: option.splits if_splits)

lemma cm_inv_best:
  assumes inv: "cm_inv m"
  shows "cm_inv (snd (TryNominateBest now order m))"
proof (cases "cm_nominatedKey m = [] \<and> best_loop now m order None \<noteq> None")
  case True
  then obtain key p where b: "best_loop now m order None = Some (key, p)" by auto
  then have "cm_get key m = Some p" using best_loop_get by fastforce
  from cm_invD [OF inv this] True show ?thesis
    by (simp add: TryNominateBest_def b Let_def cm_inv_nominate [OF inv])
qed (use inv in \<open>auto simp: TryNominateBest_def split: option.split\<close>)

lemma map_of_map_values: "map_of (map (\<lambda>(k, v). (k, f k v)) xs) k = map_option (f k) (map_of xs k)"
  by (induction xs) auto

lemma cm_inv_confirm:
  assumes inv: "cm_inv m"
  shows "cm_inv (snd (Confirm now l r m))"
proof (cases "cm_nominatedKey m = candidateKey l r \<and> cm_confirmedKey m = []")
  case True
  define key where "key = candidateKey l r"
  obtain p where p: "cm_get key m = Some p"
    using inv True by (auto simp: cm_inv_def key_def)
  define q where "q = p\<lparr>cp_LastSeenAt := now, cp_State := CandidateConfirmed, cp_Nominated := False, cp_Confirmed := True\<rparr>"
  define m' where "m' = snd (Confirm now l r m)"
  have np: "\<not> cp_Confirmed p" "keyed key p" "key \<noteq> []"
    using cm_invD [OF inv p] True by (auto simp: pair_ok_def key_def)
  have keys: "cm_nominatedKey m' = []" "cm_confirmedKey m' = key"
    and cs: "cm_candidates m' = map (\<lambda>(k, p). (k, if k = key then p else close_other p)) (cm_candidates (cm_put key q m))"
    using True np by (simp_all add: m'_def Confirm_def p Let_def q_def flip: key_def)
  have "cm_get k m' = map_option (\<lambda>p. if k = key then p else close_other p) (cm_get k (cm_put key q m))" for k
    unfolding cm_get_def cs by (rule map_of_map_values)
  then have get: "cm_get k m' = (if k = key then Some q else map_option close_other (cm_get k m))" for k
    by (simp add: cm_get_put)
  have other: "pair_ok [] key k (close_other o')" if "cm_get k m = Some o'" "k \<noteq> key" for k o'
    using cm_invD [OF inv that(1)] that(2) True keyed_ne by (auto simp: pair_ok_def close_other_def)
  have "pair_ok [] key key q"
    using np keyed_ne by (auto simp: pair_ok_def q_def)
  moreover have "distinct (map fst (cm_candidates m'))"
    unfolding cs using inv by (simp add: cm_inv_def comp_def case_prod_beta')
  ultimately show ?thesis
    unfolding m'_def [symmetric] cm_inv_def using other by (auto simp: keys get split: if_splits)
next
  case False
  then have "snd (Confirm now l r m) = m"
    by (auto simp: Confirm_def Let_def split: option.split)
  with inv show ?thesis by simp
qed

lemma map_of_filter_values:
  "distinct (map fst xs) \<Longrightarrow> map_of (filter (\<lambda>(k, v). P v) xs) k = (case map_of xs k of Some v \<Rightarrow> if P v then Some v else None | None \<Rightarrow> None)"
  by (induction xs) (auto split: option.splits dest: map_of_SomeD, force dest: map_of_SomeD)

lemma cm_inv_prune:
  assumes inv: "cm_inv m"
  shows "cm_inv (snd (PruneStale now maxAge m))"
proof -
  define f where "f p = (if stale now maxAge p then p\<lparr>cp_State := CandidateClosed, cp_LastSeenAt := now\<rparr> else p)" for p
  define m' where "m' = m\<lparr>cm_candidates := map (\<lambda>(k, p). (k, f p)) (cm_candidates m)\<rparr>"
  have "cm_get k m' = map_option f (cm_get k m)" for k
    using map_of_map_values [of "\<lambda>_. f"] by (simp add: m'_def cm_get_def)
  moreover have "pair_ok nom conf k (f p)" if "pair_ok nom conf k p" for nom conf k p
    using that by (auto simp: pair_ok_def f_def stale_def)
  ultimately have "cm_inv m'"
    using inv by (auto simp: cm_inv_def m'_def comp_def case_prod_beta')
  then show ?thesis using inv by (simp add: PruneStale_def m'_def f_def)
qed

lemma cm_inv_cleanup:
  assumes inv: "cm_inv m"
  shows "cm_inv (snd (CleanupClosed now maxAge m))"
proof -
  define m' where "m' = m\<lparr>cm_candidates := filter (\<lambda>(k, p). \<not> removable now maxAge p) (cm_candidates m)\<rparr>"
  have d: "distinct (map fst (cm_candidates m))" using inv by (simp add: cm_inv_def)
  have get: "cm_get k m' = (case cm_get k m of Some p \<Rightarrow> if \<not> removable now maxAge p then Some p else None | None \<Rightarrow> None)" for k
    unfolding cm_get_def m'_def by (simp add: map_of_filter_values [OF d, of "\<lambda>p. \<not> removable now maxAge p"])
  have keep: "cm_get k m' = cm_get k m" if "k = cm_nominatedKey m \<or> k = cm_confirmedKey m" for k
  proof (cases "cm_get k m")
    case (Some p)
    with cm_invD [OF inv Some] that have "\<not> removable now maxAge p" by (auto simp: pair_ok_def removable_def)
    with Some show ?thesis by (simp add: get)
  qed (simp add: get)
  have "cm_inv m'"
    using inv keep distinct_map_filter [OF d, of "\<lambda>(k, p). \<not> removable now maxAge p"]
    unfolding cm_inv_def by (auto simp: m'_def get [unfolded m'_def] split: option.splits if_splits)
  then show ?thesis using inv by (simp add: CleanupClosed_def m'_def)
qed

lemma cm_inv_step: "cm_step m m' \<Longrightarrow> cm_inv m \<Longrightarrow> cm_inv m'"
  by (erule cm_stepE)
    (simp_all add: cm_inv_observe cm_inv_succeeded cm_inv_TryNominate cm_inv_adopt cm_inv_best cm_inv_confirm cm_inv_backoff
      cm_inv_release cm_inv_prune cm_inv_cleanup)

lemma cm_reach_inv: "cm_reach m \<Longrightarrow> cm_inv m"
  by (induction rule: cm_reach.induct) (auto intro: cm_inv_new cm_inv_step)

text \<open>Only \<open>Confirm\<close> changes what is confirmed, once, and only to the nominated pair.\<close>

lemma adopt_confirmed:
  "cm_confirmedKey (snd (AdoptNomination now l r m0)) = cm_confirmedKey m0 \<and>
   cm_confirmedRemote (snd (AdoptNomination now l r m0)) = cm_confirmedRemote m0"
proof -
  define key where "key = candidateKey l r"
  define p where "p = (case cm_get key m0 of Some pair \<Rightarrow> pair | None \<Rightarrow> newCandidatePair l r now)\<lparr>cp_LastSeenAt := now\<rparr>"
  define m where "m = cm_put key p m0"
  have "cm_confirmedKey m = cm_confirmedKey m0" "cm_confirmedRemote m = cm_confirmedRemote m0" by (simp_all add: m_def)
  then show ?thesis
    unfolding AdoptNomination_def Let_def key_def [symmetric] p_def [symmetric] m_def [symmetric]
    by (auto split: option.split)
qed

lemma succeeded_confirmed:
  "cm_confirmedKey (snd (MarkSucceededWithPriority now l r pr m)) = cm_confirmedKey m \<and>
   cm_confirmedRemote (snd (MarkSucceededWithPriority now l r pr m)) = cm_confirmedRemote m"
proof -
  define key where "key = candidateKey l r"
  define p where "p = applyCandidatePriority pr
      ((case cm_get key m of Some pair \<Rightarrow> pair | None \<Rightarrow> newCandidatePair l r now)\<lparr>cp_LastSeenAt := now\<rparr>)"
  show ?thesis
    unfolding MarkSucceededWithPriority_def Let_def key_def [symmetric] p_def [symmetric] by simp
qed

text \<open>What is confirmed, as one value.\<close>

definition confirmation :: "CandidateManager \<Rightarrow> string \<times> string" where
  "confirmation m = (cm_confirmedKey m, cm_confirmedRemote m)"

lemma confirmation_simps [simp]:
  "confirmation (cm_put key p m) = confirmation m" "confirmation (updateCandidateRemoteLocked r m) = confirmation m"
  "confirmation (m\<lparr>cm_nominatedKey := k\<rparr>) = confirmation m" "confirmation (m\<lparr>cm_candidates := cs\<rparr>) = confirmation m"
  by (simp_all add: confirmation_def)

lemma confirmation_kept:
  "confirmation (snd (cm_observe now l r pr m)) = confirmation m"
  "confirmation (snd (MarkSucceededWithPriority now l r pr m)) = confirmation m"
  "confirmation (snd (TryNominate now l r m)) = confirmation m"
  "confirmation (snd (AdoptNomination now l r m)) = confirmation m"
  "confirmation (snd (TryNominateBest now order m)) = confirmation m"
  "confirmation (snd (BackoffNomination now l r cooldown m)) = confirmation m"
  "confirmation (snd (ReleaseNomination now l r m)) = confirmation m"
  "confirmation (snd (PruneStale now maxAge m)) = confirmation m"
  "confirmation (snd (CleanupClosed now maxAge m)) = confirmation m"
  subgoal by (simp add: cm_observe_def Let_def split: option.split)
  subgoal using succeeded_confirmed by (simp add: confirmation_def)
  subgoal by (simp add: TryNominate_def Let_def split: option.split)
  subgoal using adopt_confirmed by (simp add: confirmation_def)
  subgoal by (simp add: TryNominateBest_def Let_def case_prod_beta split: option.split)
  subgoal by (simp add: BackoffNomination_def Let_def split: option.split)
  subgoal by (simp add: ReleaseNomination_def Let_def split: option.split)
  subgoal by (simp add: PruneStale_def)
  subgoal by (simp add: CleanupClosed_def)
  done

lemma Confirm_cases:
  "confirmation (snd (Confirm now l r m)) = confirmation m \<or>
   cm_confirmedKey m = [] \<and> cm_nominatedKey m \<noteq> [] \<and> cm_confirmedKey (snd (Confirm now l r m)) = cm_nominatedKey m"
  by (auto simp: Confirm_def Let_def split: option.split)

lemma step_confirmed:
  assumes "cm_step m m'"
  shows "confirmation m' = confirmation m \<or>
    cm_confirmedKey m = [] \<and> cm_nominatedKey m \<noteq> [] \<and> cm_confirmedKey m' = cm_nominatedKey m"
proof -
  from assms consider "confirmation m' = confirmation m" | now l r where "m' = snd (Confirm now l r m)"
    by (rule cm_stepE) (metis confirmation_kept)+
  then show ?thesis using Confirm_cases by cases blast+
qed

text \<open>
  C12: At most one pair is nominated and at most one is confirmed, and a confirmation is final.  In every manager that the
  operations can reach, in any order, a stored pair carries the nominated or the confirmed mark exactly if its key is
  the manager's, and the pair of such a key is stored.  A step changes the confirmed key and remote address at most
  once, from none to the pair that was nominated before.
\<close>

theorem candidate_confirmation:
  assumes "cm_reach m" "cm_step m m'"
  shows "(\<forall>key p. cm_get key m' = Some p \<longrightarrow>
       cp_Confirmed p = (key = cm_confirmedKey m') \<and> cp_Nominated p = (key = cm_nominatedKey m')) \<and>
    (HasConfirmed m' \<longrightarrow> ConfirmedPair m' \<noteq> None) \<and> (HasNominated m' \<longrightarrow> NominatedPair m' \<noteq> None) \<and>
    (HasConfirmed m \<longrightarrow> cm_confirmedKey m' = cm_confirmedKey m \<and> cm_confirmedRemote m' = cm_confirmedRemote m) \<and>
    (\<not> HasConfirmed m \<and> HasConfirmed m' \<longrightarrow> HasNominated m \<and> cm_confirmedKey m' = cm_nominatedKey m)"
proof -
  have inv: "cm_inv m'" by (rule cm_inv_step [OF assms(2) cm_reach_inv [OF assms(1)]])
  have "\<forall>key p. cm_get key m' = Some p \<longrightarrow>
      cp_Confirmed p = (key = cm_confirmedKey m') \<and> cp_Nominated p = (key = cm_nominatedKey m')"
    using inv unfolding cm_inv_def pair_ok_def by blast
  moreover have "HasConfirmed m' \<longrightarrow> ConfirmedPair m' \<noteq> None" "HasNominated m' \<longrightarrow> NominatedPair m' \<noteq> None"
    using inv unfolding cm_inv_def HasConfirmed_def ConfirmedPair_def HasNominated_def NominatedPair_def by simp_all
  moreover have "(HasConfirmed m \<longrightarrow> cm_confirmedKey m' = cm_confirmedKey m \<and> cm_confirmedRemote m' = cm_confirmedRemote m) \<and>
      (\<not> HasConfirmed m \<and> HasConfirmed m' \<longrightarrow> HasNominated m \<and> cm_confirmedKey m' = cm_nominatedKey m)"
    using step_confirmed [OF assms(2)] unfolding confirmation_def HasConfirmed_def HasNominated_def prod.inject by metis
  ultimately show ?thesis by blast
qed

lemma reach_example:
  "cm_reach (snd (TryNominate 2 ''a'' ''b'' (snd (MarkSucceeded 1 ''a'' ''b'' (NewCandidateManager [])))))"
  unfolding MarkSucceeded_def by (rule reach_step [OF reach_step [OF reach_new step_succeeded] step_nominate])

theorem candidate_confirmation_witness:
  "cm_confirmedKey (snd (Confirm 3 ''a'' ''b''
     (snd (TryNominate 2 ''a'' ''b'' (snd (MarkSucceeded 1 ''a'' ''b'' (NewCandidateManager []))))))) = ''a->b''"
proof -
  let ?m = "snd (TryNominate 2 ''a'' ''b'' (snd (MarkSucceeded 1 ''a'' ''b'' (NewCandidateManager []))))"
  have "\<not> HasConfirmed ?m" "HasConfirmed (snd (Confirm 3 ''a'' ''b'' ?m))" "cm_nominatedKey ?m = ''a->b''"
    by code_simp+
  with candidate_confirmation [OF reach_example step_confirm [of ?m 3 "''a''" "''b''"]] show ?thesis by simp
qed

subsection \<open>The nomination does not depend on the order of the map\<close>

text \<open>The comparison of candidates is the lexicographic order of their ranks; the smallest rank is best.\<close>

definition rank :: "CandidatePair \<Rightarrow> int \<times> int \<times> int \<times> int \<times> int \<times> int \<times> string \<times> string" where
  "rank p =
     (- cp_Score p, - cp_SuccessCount p, cp_NominationFailures p, if cp_SucceededAt p = 0 then 1 else 0, cp_SucceededAt p,
      cp_FirstSeenAt p, cp_LocalAddr p, cp_RemoteAddr p)"

lemma better_rank: "betterCandidateForNomination p (Some q) \<longleftrightarrow> rank p < rank q"
  unfolding betterCandidateForNomination_def rank_def by (auto simp: less_prod_def')

lemma rank_inject: "keyed k p \<Longrightarrow> keyed k' q \<Longrightarrow> rank p = rank q \<Longrightarrow> k = k'"
  by (simp add: keyed_def rank_def)

text \<open>Reference: the candidates that can be nominated, and the one whose rank is the smallest.\<close>

definition nominables :: "int \<Rightarrow> CandidateManager \<Rightarrow> string set" where
  "nominables now m = {key. \<exists>p. cm_get key m = Some p \<and> nominable now p}"

definition is_best :: "int \<Rightarrow> CandidateManager \<Rightarrow> string set \<Rightarrow> string \<times> CandidatePair \<Rightarrow> bool" where
  "is_best now m keys kp \<longleftrightarrow>
     cm_get (fst kp) m = Some (snd kp) \<and> nominable now (snd kp) \<and> fst kp \<in> keys \<and>
     (\<forall>key p. key \<in> keys \<and> cm_get key m = Some p \<and> nominable now p \<longrightarrow> rank (snd kp) \<le> rank p)"

lemma best_loop_spec:
  assumes "case best of None \<Rightarrow> keys \<inter> nominables now m = {} | Some kp \<Rightarrow> is_best now m keys kp"
  shows "case best_loop now m order best of
      None \<Rightarrow> (keys \<union> set order) \<inter> nominables now m = {} | Some kp \<Rightarrow> is_best now m (keys \<union> set order) kp"
  using assms
proof (induction order arbitrary: best keys)
  case Nil
  then show ?case by (cases best) simp_all
next
  case (Cons key order)
  have goal: "case best_loop now m order b of
      None \<Rightarrow> (keys \<union> set (key # order)) \<inter> nominables now m = {} | Some kp \<Rightarrow> is_best now m (keys \<union> set (key # order)) kp"
    if "case b of None \<Rightarrow> insert key keys \<inter> nominables now m = {} | Some kp \<Rightarrow> is_best now m (insert key keys) kp" for b
  proof -
    have "insert key keys \<union> set order = keys \<union> set (key # order)" by auto
    with Cons.IH [OF that] show ?thesis by (simp only:)
  qed
  show ?case
  proof (cases "\<exists>p. cm_get key m = Some p \<and> nominable now p")
    case False
    then have "case best of None \<Rightarrow> insert key keys \<inter> nominables now m = {} | Some kp \<Rightarrow> is_best now m (insert key keys) kp"
      using Cons.prems by (auto simp: nominables_def is_best_def split: option.splits)
    moreover have "best_loop now m (key # order) best = best_loop now m order best"
      using False by (auto split: option.split)
    ultimately show ?thesis using goal by (simp only:)
  next
    case True
    then obtain p where p: "cm_get key m = Some p" "nominable now p" by blast
    show ?thesis
    proof (cases "betterCandidateForNomination p (map_option snd best)")
      case True
      have "is_best now m (insert key keys) (key, p)"
      proof (cases best)
        case None
        with Cons.prems p show ?thesis by (auto simp: is_best_def nominables_def)
      next
        case (Some kq)
        with True have less: "rank p < rank (snd kq)" by (simp add: better_rank)
        have "rank p \<le> rank q" if "k \<in> keys" "cm_get k m = Some q" "nominable now q" for k q
        proof -
          have "rank (snd kq) \<le> rank q" using Cons.prems that by (simp add: Some is_best_def)
          with less show ?thesis by simp
        qed
        with p show ?thesis by (auto simp: is_best_def)
      qed
      moreover have "best_loop now m (key # order) best = best_loop now m order (Some (key, p))"
        using p True by simp
      ultimately show ?thesis using goal [of "Some (key, p)"] by (simp only: option.case)
    next
      case False
      then obtain kp where kp: "best = Some kp" by (cases best) (auto simp: betterCandidateForNomination_def)
      have "is_best now m (insert key keys) kp"
        using Cons.prems p False by (auto simp: is_best_def better_rank kp)
      moreover have "best_loop now m (key # order) best = best_loop now m order best"
        using p False by simp
      ultimately show ?thesis using goal [of best] by (simp only: option.case kp)
    qed
  qed
qed

lemma is_best_unique:
  assumes "cm_inv m" "is_best now m keys kp" "is_best now m keys kq"
  shows "kp = kq"
proof -
  have "rank (snd kp) = rank (snd kq)"
    using assms(2,3) unfolding is_best_def by (meson order_antisym)
  moreover have "keyed (fst kp) (snd kp)" "keyed (fst kq) (snd kq)"
    using assms cm_invD unfolding is_best_def pair_ok_def by blast+
  ultimately have "fst kp = fst kq" using rank_inject by blast
  then show ?thesis using assms(2,3) by (simp add: is_best_def prod_eq_iff)
qed

lemma best_loop_None:
  "case best_loop now m order None of None \<Rightarrow> set order \<inter> nominables now m = {} | Some kp \<Rightarrow> is_best now m (set order) kp"
  using best_loop_spec [where best = None and keys = "{}" and now = now and m = m and order = order]
  by (cases "best_loop now m order None") simp_all

lemma best_loop_order:
  assumes "cm_inv m" "set order = set order'"
  shows "best_loop now m order None = best_loop now m order' None"
  using best_loop_None [where now = now and m = m and order = order] best_loop_None [where now = now and m = m and order = order'] assms(2) is_best_unique [OF assms(1)]
  by (auto split: option.splits simp: is_best_def nominables_def)

text \<open>
  C13: The nomination of the best candidate does not depend on the random order in which the map of candidates is visited:
  in every reachable manager, any two orders of the stored keys give the same answer and the same manager.  If no pair is
  nominated and some candidate can be, one is nominated, and no candidate that could be nominated has a better rank (score,
  successes, failed nominations, time of success, time of discovery, addresses).
\<close>

theorem nomination_order_independent:
  assumes "cm_reach m" "set order = fst ` set (cm_candidates m)" "set order' = fst ` set (cm_candidates m)"
  shows "TryNominateBest now order m = TryNominateBest now order' m \<and>
    (\<not> HasNominated m \<and> nominables now m \<noteq> {} \<longrightarrow>
       (\<exists>key p. best_loop now m order None = Some (key, p) \<and> key \<in> nominables now m \<and>
          cm_nominatedKey (snd (TryNominateBest now order m)) = key \<and>
          (\<forall>key' q. cm_get key' m = Some q \<and> nominable now q \<longrightarrow> rank p \<le> rank q)))"
proof -
  have inv: "cm_inv m" using assms(1) by (rule cm_reach_inv)
  have dom: "key \<in> set order" if "cm_get key m = Some p" for key p
    using that assms(2) by (force simp: cm_get_def dest: map_of_SomeD)
  have "TryNominateBest now order m = TryNominateBest now order' m"
    using best_loop_order [OF inv, of order order'] assms(2,3) by (simp add: TryNominateBest_def)
  moreover have "\<exists>key p. best_loop now m order None = Some (key, p) \<and> key \<in> nominables now m \<and>
      cm_nominatedKey (snd (TryNominateBest now order m)) = key \<and>
      (\<forall>key' q. cm_get key' m = Some q \<and> nominable now q \<longrightarrow> rank p \<le> rank q)"
    if "\<not> HasNominated m" "nominables now m \<noteq> {}"
  proof -
    from best_loop_None [where now = now and m = m and order = order] that(2) dom
    obtain kp where kp: "best_loop now m order None = Some kp" "is_best now m (set order) kp"
      by (cases "best_loop now m order None") (auto simp: nominables_def)
    then show ?thesis
      using that(1) dom
      by (cases kp) (auto simp: is_best_def nominables_def TryNominateBest_def HasNominated_def Let_def)
  qed
  ultimately show ?thesis by blast
qed

definition two_candidates :: CandidateManager where
  "two_candidates = snd (MarkSucceeded 2 ''a'' ''c'' (snd (MarkSucceeded 1 ''a'' ''b'' (NewCandidateManager []))))"

lemma reach_two: "cm_reach two_candidates"
  unfolding two_candidates_def MarkSucceeded_def
  by (rule reach_step [OF reach_step [OF reach_new step_succeeded] step_succeeded])

theorem nomination_order_independent_witness:
  "TryNominateBest 3 [''a->b'', ''a->c''] two_candidates = TryNominateBest 3 [''a->c'', ''a->b''] two_candidates \<and>
   cm_nominatedKey (snd (TryNominateBest 3 [''a->b'', ''a->c''] two_candidates)) = ''a->b''"
proof -
  have k: "map fst (cm_candidates two_candidates) = [''a->b'', ''a->c'']" by code_simp
  have "set [''a->b'', ''a->c''] = fst ` set (cm_candidates two_candidates)"
    "set [''a->c'', ''a->b''] = fst ` set (cm_candidates two_candidates)"
    using arg_cong [OF k, of set] by auto
  from nomination_order_independent [OF reach_two this, of 3]
  have "TryNominateBest 3 [''a->b'', ''a->c''] two_candidates = TryNominateBest 3 [''a->c'', ''a->b''] two_candidates" by blast
  moreover have "cm_nominatedKey (snd (TryNominateBest 3 [''a->b'', ''a->c''] two_candidates)) = ''a->b''" by code_simp
  ultimately show ?thesis by blast
qed

end
