(* ===== verification/P2P_Ports.thy ===== *)
theory P2P_Ports
  imports Common_Addr
begin

text \<open>
  Predicted ports of a NAT (\<open>src/lib/p2p/port_prediction.go\<close>, \<open>BuildPredictionIntervals\<close> of \<open>punch_plan.go\<close>): the ports
  to try on the peer's public address, from the observed ports, the intervals between them and the offsets that worked
  before (\<open>predictionHistoryOffsets\<close>, an argument here).

  The map \<open>seen\<close> of the code holds the elements of the list it builds and is not kept apart.  The two loops that look
  for enough ports may run for ever; they have fuel, the number of rounds, and \<open>None\<close> means that they are still running.
\<close>

subsection \<open>Observations\<close>

record ProbeSample =
  ps_EndpointID :: string
  ps_Provider :: string
  ps_Mode :: string
  ps_ProbePort :: int64
  ps_ObservedAddr :: string
  ps_ServerReplyAddr :: string
  ps_ExtraReply :: bool

record PortMappingInfo =
  pm_Method :: string
  pm_ExternalAddr :: string
  pm_InternalAddr :: string
  pm_LeaseSeconds :: int64

record NatObservation =
  no_PublicIP :: string
  no_ObservedBasePort :: int64
  no_ObservedInterval :: int64
  no_ProbePortRestricted :: bool
  no_FilteringTested :: bool
  no_MappingBehavior :: string
  no_FilteringBehavior :: string
  no_NATType :: string
  no_ClassificationLevel :: string
  no_ProbeIPCount :: int64
  no_ProbeEndpointCount :: int64
  no_ConflictingSignals :: bool
  no_MappingConfidenceLow :: bool
  no_PortMapping :: "PortMappingInfo option"
  no_Samples :: "ProbeSample list"

subsection \<open>Numbers\<close>

lemma abs_rem_less: "b \<noteq> 0 \<Longrightarrow> \<bar>rem a b\<bar> < \<bar>b\<bar>"
proof -
  assume b: "b \<noteq> 0"
  have "rem a b = sgn a * (\<bar>a\<bar> mod \<bar>b\<bar>)"
    using b by (simp add: rem_def quot_def sgn_if minus_mult_div_eq_mod [symmetric] algebra_simps)
  then show ?thesis
    using b by (simp add: abs_mult sgn_if)
qed

fun minPositive_loop :: "int64 \<Rightarrow> int64 list \<Rightarrow> int64" where
  "minPositive_loop mn [] = mn"
| "minPositive_loop mn (v # vs) =
     (if v \<le> 0 then minPositive_loop mn vs
      else minPositive_loop (if mn = 0 \<or> v < mn then v else mn) vs)"

definition minPositive :: "int64 list \<Rightarrow> int64" where
  "minPositive values = minPositive_loop 0 values"

definition medianPositive :: "int64 list \<Rightarrow> int64" where
  "medianPositive values =
     (let filtered = sort (filter (\<lambda>v. 0 < v) values)
      in if filtered = [] then 0 else filtered ! (length filtered div 2))"

function gcd_loop :: "int64 \<Rightarrow> int64 \<Rightarrow> int64" where
  "gcd_loop a b = (if b = 0 then a else gcd_loop b (rem a b))"
  by pat_completeness auto
termination
  by (relation "measure (\<lambda>(a, b). nat \<bar>b\<bar>)") (auto simp: abs_rem_less)

declare gcd_loop.simps [simp del]

definition gcdPair :: "int64 \<Rightarrow> int64 \<Rightarrow> int64" where
  "gcdPair a b = gcd_loop (if a < 0 then wrap64 (- a) else a) (if b < 0 then wrap64 (- b) else b)"

fun gcdPositive_loop :: "int64 \<Rightarrow> int64 list \<Rightarrow> int64" where
  "gcdPositive_loop g [] = g"
| "gcdPositive_loop g (v # vs) =
     (if v \<le> 0 then gcdPositive_loop g vs
      else gcdPositive_loop (if g = 0 then v else gcdPair g v) vs)"

definition gcdPositive :: "int64 list \<Rightarrow> int64" where
  "gcdPositive values = gcdPositive_loop 0 values"

text \<open>The counts of the values so far, the best value and its count.\<close>

fun dominant_loop :: "(int64 \<Rightarrow> nat) \<Rightarrow> int64 \<Rightarrow> nat \<Rightarrow> int64 list \<Rightarrow> int64" where
  "dominant_loop counts bestValue bestCount [] = bestValue"
| "dominant_loop counts bestValue bestCount (v # vs) =
     (if v \<le> 0 then dominant_loop counts bestValue bestCount vs
      else
        (let c = counts v + 1; counts = counts(v := c)
         in if bestCount < c \<or> c = bestCount \<and> (bestValue = 0 \<or> v < bestValue)
            then dominant_loop counts v c vs
            else dominant_loop counts bestValue bestCount vs))"

definition dominantPositive :: "int64 list \<Rightarrow> int64" where
  "dominantPositive values = dominant_loop (\<lambda>_. 0) 0 0 values"

fun port_diffs :: "int64 list \<Rightarrow> int64 list" where
  "port_diffs (a # b # ps) = (let d = \<bar>b - a\<bar> in if 0 < d then d # port_diffs (b # ps) else port_diffs (b # ps))"
| "port_diffs ps = []"

definition computeObservedInterval :: "int64 list \<Rightarrow> int64" where
  "computeObservedInterval ports =
     (if length ports < 2 then 0
      else
        (let diffs = port_diffs (sort ports)
         in if diffs = [] then 0
            else if 0 < dominantPositive diffs then dominantPositive diffs
            else if 1 < gcdPositive diffs then gcdPositive diffs
            else minPositive diffs))"

definition sample_ports :: "ProbeSample list \<Rightarrow> int64 list" where
  "sample_ports samples = filter (\<lambda>p. 0 < p) (map (\<lambda>s. GetPortByAddr (ps_ObservedAddr s)) samples)"

definition samplePortDiffs :: "ProbeSample list \<Rightarrow> int64 list" where
  "samplePortDiffs samples =
     (if length samples < 2 then []
      else (let ports = sample_ports samples in if length ports < 2 then [] else port_diffs (sort ports)))"

subsection \<open>Lists without repetition\<close>

text \<open>The closures \<open>appendPort\<close> and \<open>add\<close>: an element is appended once, if it is in range and there is room.\<close>

definition append_port :: "int64 \<Rightarrow> int64 \<Rightarrow> int64 list \<Rightarrow> int64 list" where
  "append_port span port ports =
     (if span \<le> int (length ports) then ports
      else if port < 1 \<or> 65535 < port then ports
      else if port \<in> set ports then ports
      else ports @ [port])"

definition add_step :: "int64 \<Rightarrow> int64 list \<Rightarrow> int64 list" where
  "add_step step steps = (if step \<le> 0 \<or> 64 < step then steps else if step \<in> set steps then steps else steps @ [step])"

fun add_steps :: "int64 list \<Rightarrow> int64 list \<Rightarrow> int64 list" where
  "add_steps [] steps = steps"
| "add_steps (i # is) steps = (let steps = add_step i steps in if 4 \<le> length steps then steps else add_steps is steps)"

definition likelyNextPredictionSteps :: "NatObservation \<Rightarrow> int64 list \<Rightarrow> int64 list" where
  "likelyNextPredictionSteps obs intervals =
     (let diffs = samplePortDiffs (no_Samples obs);
          steps = add_step (no_ObservedInterval obs) [];
          steps = add_step (dominantPositive diffs) steps;
          steps = add_step (medianPositive diffs) steps
      in add_step 1 (add_steps intervals steps))"

definition predictionNeighborSteps :: "int64 list \<Rightarrow> int64 list" where
  "predictionNeighborSteps intervals = add_steps intervals (add_step 1 [])"

definition observedPorts :: "NatObservation \<Rightarrow> int64 list" where
  "observedPorts obs =
     (if no_Samples obs = [] then (if 0 < no_ObservedBasePort obs then [no_ObservedBasePort obs] else [])
      else sort (remdups (sample_ports (no_Samples obs))))"

subsection \<open>The sweep\<close>

definition DefaultPredictionInterval :: int64 where
  "DefaultPredictionInterval = 1"

definition sweep_pair :: "int64 \<Rightarrow> int64 \<Rightarrow> int64 \<Rightarrow> int64 list \<Rightarrow> int64 list" where
  "sweep_pair span basePort d ports = append_port span (wrap64 (basePort - d)) (append_port span (wrap64 (basePort + d)) ports)"

fun interval_round :: "int64 \<Rightarrow> int64 \<Rightarrow> int64 \<Rightarrow> int64 list \<Rightarrow> int64 list \<Rightarrow> int64 list" where
  "interval_round span basePort step [] ports = ports"
| "interval_round span basePort step (i # is) ports =
     (if i \<le> 0 then interval_round span basePort step is ports
      else
        (let ports = sweep_pair span basePort (wrap64 (step * i)) ports
         in if span div 2 \<le> int (length ports) then ports else interval_round span basePort step is ports))"

fun interval_loop :: "nat \<Rightarrow> int64 \<Rightarrow> int64 \<Rightarrow> int64 \<Rightarrow> int64 list \<Rightarrow> int64 list \<Rightarrow> int64 list option" where
  "interval_loop 0 span basePort step intervals ports =
     (if int (length ports) < span div 2 then None else Some ports)"
| "interval_loop (Suc fuel) span basePort step intervals ports =
     (if int (length ports) < span div 2
      then interval_loop fuel span basePort (wrap64 (step + 1)) intervals (interval_round span basePort step intervals ports)
      else Some ports)"

fun neighbor_loop :: "nat \<Rightarrow> int64 \<Rightarrow> int64 \<Rightarrow> int64 \<Rightarrow> int64 list \<Rightarrow> int64 list option" where
  "neighbor_loop 0 span basePort delta ports = (if int (length ports) < span then None else Some ports)"
| "neighbor_loop (Suc fuel) span basePort delta ports =
     (if int (length ports) < span
      then neighbor_loop fuel span basePort (wrap64 (delta + 1))
             (append_port span (wrap64 (basePort + delta)) (append_port span (wrap64 (basePort - delta)) ports))
      else Some ports)"

definition BuildTargetSprayPortsMulti :: "nat \<Rightarrow> int64 \<Rightarrow> int64 list \<Rightarrow> int64 \<Rightarrow> int64 list option" where
  "BuildTargetSprayPortsMulti fuel basePort intervals span =
     (if span \<le> 0 \<or> basePort \<le> 0 then Some []
      else
        Option.bind
          (interval_loop fuel span basePort 1 (if intervals = [] then [DefaultPredictionInterval] else intervals)
            (append_port span basePort []))
          (neighbor_loop fuel span basePort 1))"

text \<open>\<open>BuildTargetSprayPorts\<close> has one interval and appends both ports of a round before it looks at the length.\<close>

fun single_loop :: "nat \<Rightarrow> int64 \<Rightarrow> int64 \<Rightarrow> int64 \<Rightarrow> int64 \<Rightarrow> int64 list \<Rightarrow> int64 list option" where
  "single_loop 0 span basePort interval delta ports = (if int (length ports) < span div 2 then None else Some ports)"
| "single_loop (Suc fuel) span basePort interval delta ports =
     (if int (length ports) < span div 2
      then single_loop fuel span basePort interval (wrap64 (delta + 1)) (sweep_pair span basePort (wrap64 (delta * interval)) ports)
      else Some ports)"

definition BuildTargetSprayPorts :: "nat \<Rightarrow> int64 \<Rightarrow> int64 \<Rightarrow> int64 \<Rightarrow> int64 list option" where
  "BuildTargetSprayPorts fuel basePort interval span =
     (if span \<le> 0 then Some []
      else if basePort \<le> 0 then Some []
      else
        Option.bind
          (single_loop fuel span basePort (if interval \<le> 0 then DefaultPredictionInterval else interval) 1
            (append_port span basePort []))
          (neighbor_loop fuel span basePort 1))"

subsection \<open>Stages\<close>

definition buildLikelyNextPredictionPorts :: "NatObservation \<Rightarrow> int64 list \<Rightarrow> int64 \<Rightarrow> int64 list" where
  "buildLikelyNextPredictionPorts obs intervals span =
     (if span \<le> 0 then []
      else
        (let observed = observedPorts obs
         in if length observed < 2 then []
            else
              (let anchor = last observed
               in fold (\<lambda>step out.
                    let out = append_port span (anchor + step) out;
                        out = (if 1 < step then append_port span (anchor + 1) out else out)
                    in append_port span (anchor + 2 * step) out)
                  (likelyNextPredictionSteps obs intervals) [])))"

fun history_loop :: "int64 \<Rightarrow> int64 \<Rightarrow> int64 list \<Rightarrow> int64 list \<Rightarrow> int64 list" where
  "history_loop span basePort [] out = out"
| "history_loop span basePort (o0 # os) out =
     (let port = wrap64 (basePort + o0)
      in if port < 1 \<or> 65535 < port then history_loop span basePort os out
         else if port \<in> set out then history_loop span basePort os out
         else (let out = out @ [port] in if span \<le> int (length out) then out else history_loop span basePort os out))"

definition buildHistoricalPredictionPorts :: "int64 list \<Rightarrow> NatObservation \<Rightarrow> int64 \<Rightarrow> int64 list" where
  "buildHistoricalPredictionPorts offsets obs span =
     (if span \<le> 0 \<or> no_ObservedBasePort obs \<le> 0 then [] else history_loop span (no_ObservedBasePort obs) offsets [])"

definition buildHistoricalPredictionNeighborPorts ::
    "int64 list \<Rightarrow> NatObservation \<Rightarrow> int64 list \<Rightarrow> int64 \<Rightarrow> int64 list" where
  "buildHistoricalPredictionNeighborPorts offsets obs intervals span =
     (if span \<le> 0 \<or> no_ObservedBasePort obs \<le> 0 then []
      else
        fold (\<lambda>offset out.
            (let base = wrap64 (no_ObservedBasePort obs + offset)
             in fold (\<lambda>step out. append_port span (wrap64 (base + step)) (append_port span (wrap64 (base - step)) out))
                  (predictionNeighborSteps intervals) out))
          (take 3 offsets) [])"

fun filter_stage :: "int64 list \<Rightarrow> int64 \<Rightarrow> int64 set \<Rightarrow> int64 list \<times> int64 \<times> int64 set" where
  "filter_stage [] remaining seen = ([], remaining, seen)"
| "filter_stage (port # ports) remaining seen =
     (if remaining \<le> 0 then ([], remaining, seen)
      else if port < 1 \<or> 65535 < port \<or> port \<in> seen then filter_stage ports remaining seen
      else
        (let (out, remaining, seen) = filter_stage ports (remaining - 1) (insert port seen)
         in (port # out, remaining, seen)))"

fun filter_stages :: "(string \<times> int64 list) list \<Rightarrow> int64 \<Rightarrow> int64 set \<Rightarrow> (string \<times> int64 list) list" where
  "filter_stages [] remaining seen = []"
| "filter_stages ((name, ports) # stages) remaining seen =
     (if remaining \<le> 0 then []
      else
        (let (out, remaining, seen) = filter_stage ports remaining seen; rest = filter_stages stages remaining seen
         in if out = [] then rest else (name, out) # rest))"

definition buildPredictedPortStages ::
    "nat \<Rightarrow> int64 list \<Rightarrow> NatObservation \<Rightarrow> int64 list \<Rightarrow> int64 \<Rightarrow> (string \<times> int64 list) list option" where
  "buildPredictedPortStages fuel offsets obs intervals span =
     (if span \<le> 0 \<or> no_PublicIP obs = [] \<or> no_ObservedBasePort obs \<le> 0 then Some []
      else
        (case BuildTargetSprayPortsMulti fuel (no_ObservedBasePort obs) intervals span of
           None \<Rightarrow> None
         | Some sweep \<Rightarrow>
             Some (filter_stages
               [(''target_likely_next'', buildLikelyNextPredictionPorts obs intervals (min span 4)),
                (''target_history_exact'', buildHistoricalPredictionPorts offsets obs span),
                (''target_history_neighbor'', buildHistoricalPredictionNeighborPorts offsets obs intervals span),
                (''target_interval_sweep'', sweep)]
               span {})))"

definition BuildPredictedPorts :: "nat \<Rightarrow> int64 list \<Rightarrow> NatObservation \<Rightarrow> int64 list \<Rightarrow> int64 \<Rightarrow> int64 list option" where
  "BuildPredictedPorts fuel offsets obs intervals span =
     map_option (\<lambda>stages. concat (map snd stages)) (buildPredictedPortStages fuel offsets obs intervals span)"

subsection \<open>Intervals\<close>

definition add_interval :: "int64 \<Rightarrow> int64 list \<Rightarrow> int64 list" where
  "add_interval i0 cs =
     (let i = (if i0 < 0 then wrap64 (- i0) else i0)
      in if i \<le> 0 \<or> 512 < i \<or> i \<in> set cs then cs else cs @ [i])"

definition BuildPredictionIntervals :: "NatObservation \<Rightarrow> bool \<Rightarrow> bool \<Rightarrow> int64 list" where
  "BuildPredictionIntervals obs enablePrediction aggressive =
     (if \<not> enablePrediction then []
      else
        (let diffs = samplePortDiffs (no_Samples obs);
             cs = add_interval (no_ObservedInterval obs) [];
             cs = add_interval (minPositive diffs) cs;
             cs = add_interval (medianPositive diffs) cs;
             cs = add_interval (gcdPositive diffs) cs;
             cs = (if aggressive then fold (\<lambda>i cs. add_interval (i + 1) (add_interval (i - 1) cs)) cs cs else cs);
             cs = add_interval DefaultPredictionInterval cs
         in take 6 cs))"

subsection \<open>The sweep finds enough ports\<close>

definition port_range :: "int64 set" where
  "port_range = {1..65535}"

definition sweep_intervals :: "int64 list \<Rightarrow> int64 list" where
  "sweep_intervals intervals = (if intervals = [] then [DefaultPredictionInterval] else intervals)"

text \<open>The ports at a multiple of one of the intervals from the base port: those that the first loop can find.\<close>

definition reachable :: "int64 \<Rightarrow> int64 list \<Rightarrow> int64 set" where
  "reachable basePort intervals =
     insert basePort {p \<in> port_range. \<exists>i \<in> set (sweep_intervals intervals). 0 < i \<and> i dvd (p - basePort)}"

lemma finite_port_range [simp]: "finite port_range"
  by (simp add: port_range_def)

lemma card_port_range [simp]: "card port_range = 65535"
  by (simp add: port_range_def)

text \<open>The list of ports at any moment: distinct ports in range, at most \<open>span\<close> of them, all in \<open>P\<close>.\<close>

definition ports_ok :: "int64 \<Rightarrow> int64 set \<Rightarrow> int64 list \<Rightarrow> bool" where
  "ports_ok span P ports \<longleftrightarrow> distinct ports \<and> set ports \<subseteq> P \<inter> port_range \<and> int (length ports) \<le> span"

lemma append_port_ok: "ports_ok span P ports \<Longrightarrow> (port \<in> port_range \<Longrightarrow> port \<in> P) \<Longrightarrow> ports_ok span P (append_port span port ports)"
  by (auto simp: ports_ok_def append_port_def port_range_def)

lemma append_port_hd: "ports \<noteq> [] \<Longrightarrow> append_port span port ports \<noteq> [] \<and> hd (append_port span port ports) = hd ports"
  by (auto simp: append_port_def)

lemma append_port_length: "length ports \<le> length (append_port span port ports)"
  by (auto simp: append_port_def)

text \<open>\<open>covers n P ports\<close>: the list holds every port of \<open>P\<close>, or is already \<open>n\<close> long.\<close>

definition covers :: "int64 \<Rightarrow> int64 set \<Rightarrow> int64 list \<Rightarrow> bool" where
  "covers n P ports \<longleftrightarrow> n \<le> int (length ports) \<or> P \<inter> port_range \<subseteq> set ports"

lemma covers_append: "covers n P ports \<Longrightarrow> n \<le> span \<Longrightarrow> covers n (insert port P) (append_port span port ports)"
  using append_port_length [of ports span port]
  by (auto simp: covers_def append_port_def port_range_def)

lemma covers_length:
  assumes "ports_ok span Q ports" and "covers n P ports" and "n \<le> int (card (P \<inter> port_range))"
  shows "n \<le> int (length ports)"
proof (cases "n \<le> int (length ports)")
  case False
  then have "P \<inter> port_range \<subseteq> set ports"
    using assms(2) by (simp add: covers_def)
  then have "card (P \<inter> port_range) \<le> card (set ports)"
    by (rule card_mono [rotated]) simp
  also have "\<dots> = length ports"
    using assms(1) by (simp add: ports_ok_def distinct_card)
  finally show ?thesis
    using assms(3) by linarith
qed simp

lemma ports_ok_length:
  assumes "ports_ok span P ports"
  shows "length ports \<le> card (P \<inter> port_range)"
proof -
  have "card (set ports) \<le> card (P \<inter> port_range)"
    using assms by (auto simp: ports_ok_def intro!: card_mono)
  then show ?thesis
    using assms by (simp add: ports_ok_def distinct_card)
qed

text \<open>No number wraps around while the steps and the intervals stay below \<open>2 ^ 31\<close>.\<close>

lemma sweep_no_wrap:
  assumes "b \<in> port_range" and "0 \<le> s" and "s \<le> 2 ^ 31" and "0 \<le> i" and "i \<le> 2 ^ 31"
  shows "wrap64 (s * i) = s * i \<and> wrap64 (b + s * i) = b + s * i \<and> wrap64 (b - s * i) = b - s * i"
proof -
  have "s * i \<le> 2 ^ 31 * 2 ^ 31" and "0 \<le> s * i"
    using assms mult_mono [of s "2 ^ 31" i "2 ^ 31"] by simp_all
  then show ?thesis
    using assms(1) by (auto intro!: wrap64_id simp: in_i64_def minI64_def maxI64_def port_range_def)
qed

text \<open>The ports that the rounds before \<open>s\<close> try.\<close>

definition tried :: "int64 \<Rightarrow> int64 list \<Rightarrow> int64 \<Rightarrow> int64 set" where
  "tried b is s = {p. \<exists>k \<in> {0..<s}. \<exists>i \<in> set is. 0 < i \<and> (p = b + k * i \<or> p = b - k * i)}"

lemma reach_tried:
  assumes b: "b \<in> port_range" and p: "p \<in> port_range" and i: "i \<in> set is" "0 < i" "i dvd (p - b)"
  shows "p \<in> tried b is 65536"
proof -
  obtain k where k: "p - b = i * k"
    using i(3) by blast
  have "\<bar>p - b\<bar> = i * \<bar>k\<bar>"
    using k i(2) by (simp add: abs_mult)
  moreover have "\<bar>p - b\<bar> < 65535"
    using b p by (auto simp: port_range_def)
  moreover have "1 * \<bar>k\<bar> \<le> i * \<bar>k\<bar>"
    using i(2) by (intro mult_right_mono) auto
  ultimately have a: "\<bar>k\<bar> < 65536"
    by linarith
  have "p = b + \<bar>k\<bar> * i \<or> p = b - \<bar>k\<bar> * i"
    using k by (cases "0 \<le> k") (auto simp: algebra_simps)
  then show ?thesis
    using a i unfolding tried_def by (intro CollectI bexI [of _ "\<bar>k\<bar>"] bexI [of _ i]) auto
qed

lemma sweep_pair_plain:
  assumes "b \<in> port_range" and "0 \<le> s" and "s \<le> 2 ^ 31" and "0 \<le> i" and "i \<le> 2 ^ 31"
  shows "sweep_pair span b (wrap64 (s * i)) ports = append_port span (b - s * i) (append_port span (b + s * i) ports)"
  using sweep_no_wrap [OF assms] by (simp add: sweep_pair_def)

lemma sweep_pair_facts:
  assumes b: "b \<in> port_range" and s: "0 \<le> s" "s \<le> 2 ^ 31" and i: "0 < i" "i \<le> 2 ^ 31" "i \<in> set is"
    and R: "insert b {p \<in> port_range. \<exists>i \<in> set is. 0 < i \<and> i dvd (p - b)} \<subseteq> R"
    and ok: "ports_ok span R ports" and ne: "ports \<noteq> []"
  defines "r \<equiv> sweep_pair span b (wrap64 (s * i)) ports"
  shows "ports_ok span R r \<and> r \<noteq> [] \<and> hd r = hd ports \<and>
    (covers n P ports \<longrightarrow> n \<le> span \<longrightarrow> covers n (insert (b + s * i) (insert (b - s * i) P)) r)"
proof -
  have r: "r = append_port span (b - s * i) (append_port span (b + s * i) ports)"
    unfolding r_def using b s i by (intro sweep_pair_plain) auto
  have "b + s * i \<in> port_range \<Longrightarrow> b + s * i \<in> R" and "b - s * i \<in> port_range \<Longrightarrow> b - s * i \<in> R"
    using i R by (auto intro!: subsetD [OF R] bexI [of _ i])
  then have "ports_ok span R r"
    unfolding r by (intro append_port_ok ok)
  moreover have "r \<noteq> [] \<and> hd r = hd ports"
    unfolding r using append_port_hd ne by metis
  moreover have "covers n P ports \<longrightarrow> n \<le> span \<longrightarrow> covers n (insert (b + s * i) (insert (b - s * i) P)) r"
    unfolding r by (auto intro: covers_append simp: insert_commute)
  ultimately show ?thesis
    by blast
qed

lemma interval_round_facts:
  assumes b: "b \<in> port_range" and s: "0 \<le> s" "s \<le> 2 ^ 31" and sp: "0 \<le> span"
    and R: "insert b {p \<in> port_range. \<exists>i \<in> set intervals. 0 < i \<and> i dvd (p - b)} \<subseteq> R"
  shows "\<lbrakk>\<forall>i \<in> set is. i \<le> 2 ^ 31; set is \<subseteq> set intervals; ports_ok span R ports; ports \<noteq> []\<rbrakk> \<Longrightarrow>
    ports_ok span R (interval_round span b s is ports) \<and> interval_round span b s is ports \<noteq> [] \<and>
    hd (interval_round span b s is ports) = hd ports \<and>
    (covers (span div 2) P ports \<longrightarrow>
      covers (span div 2) (P \<union> {p. \<exists>i \<in> set is. 0 < i \<and> (p = b + s * i \<or> p = b - s * i)})
        (interval_round span b s is ports))"
proof (induction "is" arbitrary: ports P)
  case (Cons i "is")
  let ?r = "sweep_pair span b (wrap64 (s * i)) ports"
  let ?Q = "insert (b + s * i) (insert (b - s * i) P)"
  show ?case
  proof (cases "0 < i")
    case True
    have f: "ports_ok span R ?r" "?r \<noteq> []" "hd ?r = hd ports"
      "covers (span div 2) P ports \<Longrightarrow> covers (span div 2) ?Q ?r"
      using sweep_pair_facts [OF b s True _ _ R Cons.prems(3,4), where n = "span div 2" and P = P] Cons.prems(1,2) sp by auto
    have Q: "P \<union> {p. \<exists>j \<in> set (i # is). 0 < j \<and> (p = b + s * j \<or> p = b - s * j)} =
        ?Q \<union> {p. \<exists>j \<in> set is. 0 < j \<and> (p = b + s * j \<or> p = b - s * j)}"
      using True by auto
    show ?thesis
    proof (cases "span div 2 \<le> int (length ?r)")
      case True
      then show ?thesis
        using f \<open>0 < i\<close> by (simp add: covers_def)
    next
      case False
      then show ?thesis
        unfolding Q using Cons.IH [of ?r ?Q] f \<open>0 < i\<close> Cons.prems(1,2) by simp
    qed
  next
    case False
    have "{p. \<exists>j \<in> set (i # is). 0 < j \<and> (p = b + s * j \<or> p = b - s * j)} =
        {p. \<exists>j \<in> set is. 0 < j \<and> (p = b + s * j \<or> p = b - s * j)}"
      using False by auto
    then show ?thesis
      using Cons.IH [of ports P] Cons.prems False by simp
  qed
qed simp

lemma tried_Suc:
  assumes "0 \<le> s"
  shows "tried b is (s + 1) = tried b is s \<union> {p. \<exists>i \<in> set is. 0 < i \<and> (p = b + s * i \<or> p = b - s * i)}"
proof -
  have e: "{0..<s + 1} = insert s {0..<s}"
    using assms by auto
  show ?thesis
    unfolding tried_def e by blast
qed

lemma interval_loop_returns:
  assumes b: "b \<in> port_range" and sp: "0 \<le> span" and i: "\<forall>i \<in> set is. i \<le> 2 ^ 31"
    and R: "R = insert b {p \<in> port_range. \<exists>i \<in> set is. 0 < i \<and> i dvd (p - b)}"
    and n: "span div 2 \<le> int (card R)"
  shows "\<lbrakk>s + int fuel = 65536; 1 \<le> s; ports_ok span R ports; ports \<noteq> []; hd ports = b; covers (span div 2) (tried b is s) ports\<rbrakk> \<Longrightarrow>
    \<exists>r. interval_loop fuel span b s is ports = Some r \<and> ports_ok span R r \<and> r \<noteq> [] \<and> hd r = b \<and> span div 2 \<le> int (length r)"
proof (induction fuel arbitrary: s ports)
  case 0
  have "R \<inter> port_range = R"
    using b by (auto simp: R)
  moreover have "R \<inter> port_range \<subseteq> insert b (tried b is 65536)"
    using reach_tried [OF b] by (auto simp: R)
  then have "covers (span div 2) R ports"
    using 0 hd_in_set [of ports] by (auto simp: covers_def)
  ultimately have "span div 2 \<le> int (length ports)"
    using covers_length [OF 0(3)] n by simp
  then show ?case
    using 0 by simp
next
  case (Suc fuel)
  let ?r = "interval_round span b s is ports"
  have st: "wrap64 (s + 1) = s + 1"
    using Suc.prems(1,2) by (intro wrap64_id) (simp add: in_i64_def minI64_def maxI64_def)
  have f: "ports_ok span R ?r" "?r \<noteq> []" "hd ?r = hd ports" "covers (span div 2) (tried b is (s + 1)) ?r"
    using interval_round_facts [OF b _ _ sp, of s "is" R "is" ports "tried b is s"] Suc.prems i R tried_Suc [of s b "is"]
    by auto
  show ?case
  proof (cases "int (length ports) < span div 2")
    case True
    have "\<exists>r. interval_loop fuel span b (s + 1) is ?r = Some r \<and> ports_ok span R r \<and> r \<noteq> [] \<and> hd r = b \<and> span div 2 \<le> int (length r)"
      by (rule Suc.IH) (use Suc.prems f in auto)
    then show ?thesis
      using True st by simp
  next
    case False
    then show ?thesis
      using Suc.prems by simp
  qed
qed

lemma interval_loop_runs:
  assumes b: "b \<in> port_range" and sp: "0 \<le> span" and i: "\<forall>i \<in> set is. i \<le> 2 ^ 31"
    and R: "R = insert b {p \<in> port_range. \<exists>i \<in> set is. 0 < i \<and> i dvd (p - b)}"
    and n: "int (card R) < span div 2"
  shows "\<lbrakk>s + int fuel \<le> 2 ^ 31 + 1; 1 \<le> s; ports_ok span R ports; ports \<noteq> []\<rbrakk> \<Longrightarrow>
    interval_loop fuel span b s is ports = None"
proof (induction fuel arbitrary: s ports)
  case 0
  have "R \<inter> port_range = R"
    using b by (auto simp: R)
  then show ?case
    using ports_ok_length [OF 0(3)] n by simp
next
  case (Suc fuel)
  let ?r = "interval_round span b s is ports"
  have st: "wrap64 (s + 1) = s + 1"
    using Suc.prems(1,2) by (intro wrap64_id) (simp add: in_i64_def minI64_def maxI64_def)
  have f: "ports_ok span R ?r" "?r \<noteq> []"
    using interval_round_facts [OF b _ _ sp, of s "is" R "is" ports] Suc.prems i R by auto
  have "R \<inter> port_range = R"
    using b by (auto simp: R)
  then have "int (length ports) < span div 2"
    using ports_ok_length [OF Suc.prems(3)] n by simp
  moreover have "interval_loop fuel span b (s + 1) is ?r = None"
    by (rule Suc.IH) (use Suc.prems f in auto)
  ultimately show ?case
    using st by simp
qed

lemma neighbor_loop_returns:
  assumes b: "b \<in> port_range" and sp: "0 \<le> span" "span \<le> 65535"
  shows "\<lbrakk>d + int fuel = 65536; 1 \<le> d; ports_ok span UNIV ports; ports \<noteq> []; hd ports = b; covers span (tried b [1] d) ports\<rbrakk> \<Longrightarrow>
    \<exists>r. neighbor_loop fuel span b d ports = Some r \<and> ports_ok span UNIV r \<and> r \<noteq> [] \<and> hd r = b \<and> int (length r) = span"
proof (induction fuel arbitrary: d ports)
  case 0
  have "port_range \<subseteq> tried b [1] 65536"
    using reach_tried [OF b _ _ _ one_dvd, of _ "[1]"] by auto
  then have "covers span UNIV ports"
    using 0 by (auto simp: covers_def)
  then have "span \<le> int (length ports)"
    by (rule covers_length [OF 0(3)]) (use sp in simp)
  then show ?case
    using 0 by (auto simp: ports_ok_def)
next
  case (Suc fuel)
  let ?r = "append_port span (b + d) (append_port span (b - d) ports)"
  have w: "wrap64 (d + 1) = d + 1" "wrap64 (b + d) = b + d" "wrap64 (b - d) = b - d"
    using Suc.prems(1,2) b by (auto intro!: wrap64_id simp: in_i64_def minI64_def maxI64_def port_range_def)
  have t: "tried b [1] (d + 1) = insert (b + d) (insert (b - d) (tried b [1] d))"
    using Suc.prems(2) by (subst tried_Suc) auto
  have f: "ports_ok span UNIV ?r" "?r \<noteq> []" "hd ?r = b" "covers span (tried b [1] (d + 1)) ?r"
    using Suc.prems append_port_hd unfolding t by (auto intro!: append_port_ok covers_append)
  show ?case
  proof (cases "int (length ports) < span")
    case True
    have "\<exists>r. neighbor_loop fuel span b (d + 1) ?r = Some r \<and> ports_ok span UNIV r \<and> r \<noteq> [] \<and> hd r = b \<and> int (length r) = span"
      by (rule Suc.IH) (use Suc.prems f in auto)
    then show ?thesis
      using True w by simp
  next
    case False
    then show ?thesis
      using Suc.prems by (auto simp: ports_ok_def)
  qed
qed

lemma interval_loop_fuel:
  "interval_loop f span b s is ports = Some r \<Longrightarrow> f \<le> g \<Longrightarrow> interval_loop g span b s is ports = Some r"
proof (induction f arbitrary: g s ports)
  case 0
  then show ?case by (cases g) (auto split: if_splits)
next
  case (Suc f)
  then show ?case by (cases g) (auto split: if_splits)
qed

lemma neighbor_loop_fuel:
  "neighbor_loop f span b d ports = Some r \<Longrightarrow> f \<le> g \<Longrightarrow> neighbor_loop g span b d ports = Some r"
proof (induction f arbitrary: g d ports)
  case 0
  then show ?case by (cases g) (auto split: if_splits)
next
  case (Suc f)
  then show ?case by (cases g) (auto split: if_splits)
qed

lemma tried_1: "tried b is 1 \<subseteq> {b}"
  by (auto simp: tried_def atLeastLessThan_def order_antisym_conv)

lemma first_port:
  assumes "b \<in> port_range" and "0 < span"
  shows "append_port span b [] = [b]"
  using assms by (auto simp: append_port_def port_range_def)

lemma spray_returns:
  assumes b: "b \<in> port_range" and sp: "0 < span" "span \<le> 65535"
    and i: "\<forall>i \<in> set (sweep_intervals intervals). i \<le> 2 ^ 31"
    and n: "span div 2 \<le> int (card (reachable b intervals))" and f: "65535 \<le> fuel"
  shows "\<exists>r. BuildTargetSprayPortsMulti fuel b intervals span = Some r \<and> ports_ok span UNIV r \<and>
    hd r = b \<and> int (length r) = span"
proof -
  let ?I = "sweep_intervals intervals" and ?R = "reachable b intervals"
  have ok: "ports_ok span ?R [b]"
    using b sp by (auto simp: ports_ok_def reachable_def)
  have "covers (span div 2) (tried b ?I 1) [b]" and "covers span (tried b [1] 1) [b]"
    using tried_1 by (auto simp: covers_def)
  note c = this
  obtain r where r: "interval_loop 65535 span b 1 ?I [b] = Some r" "ports_ok span ?R r" "r \<noteq> []" "hd r = b"
    using interval_loop_returns [OF b _ i _ n, where s = 1 and fuel = 65535 and ports = "[b]"] ok c(1) sp
    by (auto simp: reachable_def)
  have "ports_ok span UNIV r"
    using r(2) by (auto simp: ports_ok_def)
  moreover have "covers span (tried b [1] 1) r"
    using r(3,4) hd_in_set [of r] tried_1 by (auto simp: covers_def)
  ultimately obtain q where q: "neighbor_loop 65535 span b 1 r = Some q" "ports_ok span UNIV q" "hd q = b" "int (length q) = span"
    using neighbor_loop_returns [OF b _ sp(2), where d = 1 and fuel = 65535 and ports = r] r(3,4) sp by auto
  have "BuildTargetSprayPortsMulti fuel b intervals span = Some q"
    using interval_loop_fuel [OF r(1) f] neighbor_loop_fuel [OF q(1) f] first_port [OF b sp(1)] b sp
    by (auto simp: BuildTargetSprayPortsMulti_def sweep_intervals_def [symmetric] port_range_def)
  then show ?thesis
    using q by blast
qed

lemma spray_runs:
  assumes b: "b \<in> port_range" and sp: "0 < span"
    and i: "\<forall>i \<in> set (sweep_intervals intervals). i \<le> 2 ^ 31"
    and n: "int (card (reachable b intervals)) < span div 2" and f: "fuel \<le> 2 ^ 31"
  shows "BuildTargetSprayPortsMulti fuel b intervals span = None"
proof -
  have "ports_ok span (reachable b intervals) [b]"
    using b sp by (auto simp: ports_ok_def reachable_def)
  then have "interval_loop fuel span b 1 (sweep_intervals intervals) [b] = None"
    using interval_loop_runs [OF b _ i _ n, where s = 1 and fuel = fuel and ports = "[b]"] f sp
    by (auto simp: reachable_def)
  then show ?thesis
    using first_port [OF b sp] b sp
    by (auto simp: BuildTargetSprayPortsMulti_def sweep_intervals_def [symmetric] port_range_def)
qed

text \<open>With one interval the two routines do the same.\<close>

lemma single_is_multi:
  assumes "0 < interval"
  shows "single_loop fuel span b interval s ports = interval_loop fuel span b s [interval] ports"
  using assms by (induction fuel arbitrary: s ports) (simp_all add: Let_def)

lemma spray_single: "BuildTargetSprayPorts fuel b interval span =
    BuildTargetSprayPortsMulti fuel b [if interval \<le> 0 then DefaultPredictionInterval else interval] span"
  by (auto simp: BuildTargetSprayPorts_def BuildTargetSprayPortsMulti_def single_is_multi DefaultPredictionInterval_def)

subsection \<open>The stages share the ports\<close>

lemma filter_stage_spec:
  "filter_stage ports n seen = (out, n', seen') \<Longrightarrow> 0 \<le> n \<Longrightarrow>
    distinct out \<and> set out \<subseteq> port_range - seen \<and> seen' = seen \<union> set out \<and> n' = n - int (length out) \<and> 0 \<le> n' \<and>
    (0 < n' \<longrightarrow> set ports \<inter> port_range \<subseteq> seen')"
proof (induction ports n seen arbitrary: out n' seen' rule: filter_stage.induct)
  case (2 port ports n seen)
  show ?case
  proof (cases "0 < n \<and> port \<in> port_range \<and> port \<notin> seen")
    case True
    then have g: "\<not> n \<le> 0" "\<not> (port < 1 \<or> 65535 < port \<or> port \<in> seen)"
      by (auto simp: port_range_def)
    obtain o1 where o1: "filter_stage ports (n - 1) (insert port seen) = (o1, n', seen')" "out = port # o1"
      using 2(3) g by (auto split: prod.splits)
    show ?thesis
      using 2(2) [OF g o1(1)] o1(2) True by auto
  next
    case False
    show ?thesis
    proof (cases "n \<le> 0")
      case True
      then show ?thesis
        using 2(3,4) by auto
    next
      case n: False
      then have g: "port < 1 \<or> 65535 < port \<or> port \<in> seen" "port \<in> port_range \<Longrightarrow> port \<in> seen"
        using False by (auto simp: port_range_def)
      then have "filter_stage ports n seen = (out, n', seen')"
        using 2(3) n by auto
      then show ?thesis
        using 2(1) [OF n g(1)] 2(4) g(2) by auto
    qed
  qed
qed auto

lemma filter_stages_spec:
  "0 \<le> n \<Longrightarrow>
    distinct (concat (map snd (filter_stages stages n seen))) \<and>
    set (concat (map snd (filter_stages stages n seen))) \<subseteq> port_range - seen \<and>
    int (length (concat (map snd (filter_stages stages n seen)))) \<le> n \<and>
    (int (length (concat (map snd (filter_stages stages n seen)))) < n \<longrightarrow>
      set (concat (map snd stages)) \<inter> port_range \<subseteq> seen \<union> set (concat (map snd (filter_stages stages n seen))))"
proof (induction stages n seen rule: filter_stages.induct)
  case (2 name ports stages n seen)
  show ?case
  proof (cases "n \<le> 0")
    case False
    obtain out n' seen' where f: "filter_stage ports n seen = (out, n', seen')"
      by (rule prod_cases3)
    note o = filter_stage_spec [OF f 2(2)]
    define c where "c = concat (map snd (filter_stages stages n' seen'))"
    define S where "S = set (concat (map snd stages))"
    have ih: "distinct c" "set c \<subseteq> port_range - seen'" "int (length c) \<le> n'"
      "int (length c) < n' \<Longrightarrow> S \<inter> port_range \<subseteq> seen' \<union> set c"
      using 2(1) [OF False f [symmetric] refl] o unfolding c_def S_def by auto
    have e: "concat (map snd (filter_stages ((name, ports) # stages) n seen)) = out @ c"
      "set (concat (map snd ((name, ports) # stages))) = set ports \<union> S"
      using False f by (simp_all add: Let_def c_def S_def)
    show ?thesis
      unfolding e using o ih by auto
  qed (use 2 in simp)
qed simp

lemma predicted_ports_full:
  assumes ip: "no_PublicIP obs \<noteq> []" and b: "no_ObservedBasePort obs \<in> port_range"
    and sp: "0 < span" "span \<le> 65535" and i: "\<forall>i \<in> set (sweep_intervals intervals). i \<le> 2 ^ 31"
    and n: "span div 2 \<le> int (card (reachable (no_ObservedBasePort obs) intervals))" and f: "65535 \<le> fuel"
  shows "\<exists>ports. BuildPredictedPorts fuel offsets obs intervals span = Some ports \<and> distinct ports \<and>
    set ports \<subseteq> port_range \<and> int (length ports) = span"
proof -
  obtain sweep where sw: "BuildTargetSprayPortsMulti fuel (no_ObservedBasePort obs) intervals span = Some sweep"
    "ports_ok span UNIV sweep" "int (length sweep) = span"
    using spray_returns [OF b sp i n f] by blast
  define stages where "stages =
    [(''target_likely_next'', buildLikelyNextPredictionPorts obs intervals (min span 4)),
     (''target_history_exact'', buildHistoricalPredictionPorts offsets obs span),
     (''target_history_neighbor'', buildHistoricalPredictionNeighborPorts offsets obs intervals span),
     (''target_interval_sweep'', sweep)]"
  define r where "r = concat (map snd (filter_stages stages span {}))"
  have B: "BuildPredictedPorts fuel offsets obs intervals span = Some r"
    using ip b sp sw(1)
    by (simp add: BuildPredictedPorts_def buildPredictedPortStages_def r_def stages_def port_range_def)
  have sub: "set sweep \<subseteq> set (concat (map snd stages))"
    by (auto simp: stages_def)
  have s: "distinct r" "set r \<subseteq> port_range" "int (length r) \<le> span"
    "int (length r) < span \<Longrightarrow> set sweep \<inter> port_range \<subseteq> set r"
    using filter_stages_spec [of span stages "{}"] sp sub unfolding r_def [symmetric] by auto
  have "\<not> int (length r) < span"
  proof
    assume lt: "int (length r) < span"
    have "card (set sweep) \<le> card (set r)"
      using s(4) [OF lt] sw(2) by (intro card_mono) (auto simp: ports_ok_def)
    then show False
      using lt sw(2,3) s(1) by (simp add: ports_ok_def distinct_card)
  qed
  then show ?thesis
    using B s by auto
qed

lemma predicted_ports_none:
  assumes ip: "no_PublicIP obs \<noteq> []" and b: "no_ObservedBasePort obs \<in> port_range" and sp: "0 < span"
    and i: "\<forall>i \<in> set (sweep_intervals intervals). i \<le> 2 ^ 31"
    and n: "int (card (reachable (no_ObservedBasePort obs) intervals)) < span div 2" and f: "fuel \<le> 2 ^ 31"
  shows "BuildPredictedPorts fuel offsets obs intervals span = None"
  using spray_runs [OF b sp i n f] ip b sp
  by (simp add: BuildPredictedPorts_def buildPredictedPortStages_def port_range_def)

text \<open>Intervals of at most 512, such as \<open>BuildPredictionIntervals\<close> gives, reach at least 127 ports.\<close>

lemma reachable_many:
  assumes b: "b \<in> port_range" and i: "i \<in> set (sweep_intervals intervals)" "0 < i" "i \<le> 512"
  shows "127 \<le> card (reachable b intervals)"
proof -
  define r where "r = (b - 1) mod i + 1"
  have r: "1 \<le> r" "r \<le> i" "i dvd (r - b)"
    using i by (auto simp: r_def mod_eq_dvd_iff [symmetric] mod_simps pos_mod_bound add1_zle_eq)
  have "(\<lambda>k. r + k * i) ` {0..<127} \<subseteq> reachable b intervals"
  proof clarify
    fix k :: int
    assume k: "k \<in> {0..<127}"
    have "k * i \<le> 126 * i" and "0 \<le> k * i"
      using k i by (auto intro: mult_right_mono)
    then have "1 \<le> r + k * i" and "r + k * i \<le> 65535"
      using r i by linarith+
    then have "r + k * i \<in> port_range"
      by (simp add: port_range_def)
    moreover have "i dvd (r - b + k * i)"
      using r(3) by (intro dvd_add) auto
    ultimately show "r + k * i \<in> reachable b intervals"
      using i unfolding reachable_def by (auto simp: algebra_simps intro!: bexI [of _ i])
  qed
  moreover have "card ((\<lambda>k. r + k * i) ` {0..<127}) = 127"
    using i by (subst card_image) (auto simp: inj_on_def)
  moreover have "finite (reachable b intervals)"
    by (simp add: reachable_def)
  ultimately show ?thesis
    by (metis card_mono)
qed

subsection \<open>Intervals and common divisors\<close>

lemma gcd_loop_gcd: "0 \<le> a \<Longrightarrow> 0 \<le> b \<Longrightarrow> gcd_loop a b = gcd a b"
proof (induction a b rule: gcd_loop.induct)
  case (1 a b)
  show ?case
  proof (cases "b = 0")
    case True
    then show ?thesis
      using 1(2) by (simp add: gcd_loop.simps)
  next
    case False
    then have "rem a b = a mod b"
      using 1(2,3) by (simp add: rem_nonneg)
    then show ?thesis
      using 1 False by (simp add: gcd_loop.simps [of a b] gcd_red_int [symmetric] gcd.commute)
  qed
qed

lemma gcdPositive_Gcd: "gcdPositive vals = Gcd {v \<in> set vals. 0 < v}"
proof -
  have "0 \<le> g \<Longrightarrow> gcdPositive_loop g vals = gcd g (Gcd {v \<in> set vals. 0 < v})" for g
  proof (induction vals arbitrary: g)
    case (Cons v vs)
    have "{w \<in> set (v # vs). 0 < w} = (if 0 < v then insert v {w \<in> set vs. 0 < w} else {w \<in> set vs. 0 < w})"
      by auto
    then show ?case
      using Cons by (auto simp: gcdPair_def gcd_loop_gcd gcd.assoc)
  qed simp
  then show ?thesis
    by (simp add: gcdPositive_def)
qed

lemma add_interval_ok: "distinct cs \<and> set cs \<subseteq> {1..512} \<Longrightarrow> distinct (add_interval i cs) \<and> set (add_interval i cs) \<subseteq> {1..512}"
  by (auto simp: add_interval_def Let_def)

lemma add_interval_fold:
  "distinct cs \<and> set cs \<subseteq> {1..512} \<Longrightarrow>
    distinct (fold (\<lambda>i cs. add_interval (i + 1) (add_interval (i - 1) cs)) is cs) \<and>
    set (fold (\<lambda>i cs. add_interval (i + 1) (add_interval (i - 1) cs)) is cs) \<subseteq> {1..512}"
  by (induction "is" arbitrary: cs) (simp_all add: add_interval_ok)

lemma prediction_intervals_ok:
  "set (BuildPredictionIntervals obs en aggressive) \<subseteq> {1..512} \<and> distinct (BuildPredictionIntervals obs en aggressive) \<and>
    length (BuildPredictionIntervals obs en aggressive) \<le> 6 \<and> (BuildPredictionIntervals obs en aggressive = [] \<longleftrightarrow> \<not> en)"
proof -
  define c0 where "c0 = add_interval (gcdPositive (samplePortDiffs (no_Samples obs)))
    (add_interval (medianPositive (samplePortDiffs (no_Samples obs)))
      (add_interval (minPositive (samplePortDiffs (no_Samples obs))) (add_interval (no_ObservedInterval obs) [])))"
  define c1 where "c1 = (if aggressive then fold (\<lambda>i cs. add_interval (i + 1) (add_interval (i - 1) cs)) c0 c0 else c0)"
  define c2 where "c2 = add_interval DefaultPredictionInterval c1"
  have "distinct c0 \<and> set c0 \<subseteq> {1..512}"
    unfolding c0_def by (intro add_interval_ok) simp
  then have "distinct c1 \<and> set c1 \<subseteq> {1..512}"
    unfolding c1_def using add_interval_fold by simp
  then have c2: "distinct c2 \<and> set c2 \<subseteq> {1..512}"
    unfolding c2_def by (rule add_interval_ok)
  have ne: "c2 \<noteq> []"
    by (auto simp: c2_def add_interval_def DefaultPredictionInterval_def)
  have "BuildPredictionIntervals obs en aggressive = (if en then take 6 c2 else [])"
    by (simp add: BuildPredictionIntervals_def Let_def c0_def c1_def c2_def)
  then show ?thesis
    using c2 ne set_take_subset [of 6 c2] by auto
qed

end
