(* ===== verification/P2P_Plan.thy ===== *)
theory P2P_Plan
  imports P2P_Ports
begin

text \<open>
  The plan of a hole-punching attempt (\<open>src/lib/p2p/punch_plan.go\<close>): what both sides know of their NATs decides whether
  ports are predicted, and the server's configuration (\<open>P2PTraversalPolicy\<close> of \<open>policy.go\<close>) overrides the numbers.
  Durations are nanoseconds.  Of \<open>P2PTimeouts\<close> a plan reads the handshake timeout; the parts of
  \<open>P2PPeerInfo\<close>, \<open>P2PProbeConfig\<close> and \<open>P2PPolicy\<close> that it does not read are
  left out.

  The theorems tell for which configurations the ports of a plan are computed: the defaults, and intervals up to 512 with
  spans up to 255, always; with an interval from 2048 on the search is still running after \<open>2 ^ 31\<close> rounds.
\<close>

record PunchPlan =
  pl_EnablePrediction :: bool
  pl_UseTargetSpray :: bool
  pl_UseBirthdayAttack :: bool
  pl_AllowBirthdayFallback :: bool
  pl_PredictionInterval :: int64
  pl_PredictionIntervals :: "int64 list"
  pl_HandshakeTimeout :: int64
  pl_NominationDelay :: int64
  pl_NominationRetryInterval :: int64
  pl_SpraySpan :: int64
  pl_SprayRounds :: int64
  pl_SprayBurst :: int64
  pl_SprayPerPacketSleep :: int64
  pl_SprayBurstGap :: int64
  pl_SprayPhaseGap :: int64
  pl_BirthdayListenPorts :: int64
  pl_BirthdayTargetsPerPort :: int64

record P2PPeerInfo =
  pi_Role :: string
  pi_Nat :: NatObservation
  pi_LocalAddrs :: "string list"

record P2PTraversalPolicy =
  tp_ForcePredictOnRestricted :: bool
  tp_EnableTargetSpray :: bool
  tp_EnableBirthdayAttack :: bool
  tp_DefaultPredictionInterval :: int64
  tp_TargetSpraySpan :: int64
  tp_TargetSprayRounds :: int64
  tp_TargetSprayBurst :: int64
  tp_TargetSprayPacketSleepMs :: int64
  tp_TargetSprayBurstGapMs :: int64
  tp_TargetSprayPhaseGapMs :: int64
  tp_BirthdayListenPorts :: int64
  tp_BirthdayTargetsPerPort :: int64
  tp_NominationDelayMs :: int64
  tp_NominationRetryMs :: int64

abbreviation millisecond :: int64 where
  "millisecond \<equiv> 1000000"

subsection \<open>Evidence\<close>

definition filteringEvidenceKnown :: "NatObservation \<Rightarrow> bool" where
  "filteringEvidenceKnown obs =
     (if no_FilteringTested obs then True
      else if no_FilteringBehavior obs \<noteq> [] \<and> no_FilteringBehavior obs \<noteq> ''unknown'' then True
      else no_NATType obs = ''port_restricted'' \<or> no_NATType obs = ''restricted_cone'' \<or> no_NATType obs = ''cone'')"

definition hasProbeEvidence :: "NatObservation \<Rightarrow> bool" where
  "hasProbeEvidence obs \<longleftrightarrow>
     no_PublicIP obs \<noteq> [] \<or> 0 < no_ProbeIPCount obs \<or> 0 < no_ProbeEndpointCount obs \<or> 0 < length (no_Samples obs)"

definition sample_provider :: "ProbeSample \<Rightarrow> string" where
  "sample_provider s = (if ps_Provider s = [] then ''nps'' else ps_Provider s)"

definition natProbeProviderCount :: "NatObservation \<Rightarrow> nat" where
  "natProbeProviderCount obs = length (remdups (map sample_provider (no_Samples obs)))"

definition natHasProbeProvider :: "NatObservation \<Rightarrow> string \<Rightarrow> bool" where
  "natHasProbeProvider obs provider \<longleftrightarrow> (\<exists>s \<in> set (no_Samples obs). sample_provider s = provider)"

definition conservativeNPSOnlyEvidence :: "NatObservation \<Rightarrow> bool" where
  "conservativeNPSOnlyEvidence obs =
     (if \<not> hasProbeEvidence obs \<or> natProbeProviderCount obs \<noteq> 1 \<or> \<not> natHasProbeProvider obs ''nps'' then False
      else if no_MappingConfidenceLow obs \<or> no_NATType obs = ''unknown'' \<or> no_ClassificationLevel obs = ''low'' then True
      else \<not> filteringEvidenceKnown obs)"

definition isHardOrUnknownNat :: "NatObservation \<Rightarrow> bool" where
  "isHardOrUnknownNat obs =
     (if no_ProbePortRestricted obs \<or> no_MappingConfidenceLow obs \<or> no_NATType obs = ''symmetric'' then True
      else if no_NATType obs = ''unknown'' \<or> no_ClassificationLevel obs = ''low'' then True
      else \<not> filteringEvidenceKnown obs \<and> hasProbeEvidence obs)"

definition shouldAllowBirthdayFallback :: "P2PPeerInfo \<Rightarrow> P2PPeerInfo \<Rightarrow> bool" where
  "shouldAllowBirthdayFallback self peer =
     (if no_NATType (pi_Nat self) = ''symmetric'' \<and> no_NATType (pi_Nat peer) = ''symmetric'' then True
      else isHardOrUnknownNat (pi_Nat self) \<and> isHardOrUnknownNat (pi_Nat peer))"

subsection \<open>The plan\<close>

definition tunePunchPlan :: "PunchPlan \<Rightarrow> P2PPeerInfo \<Rightarrow> P2PPeerInfo \<Rightarrow> PunchPlan" where
  "tunePunchPlan plan self peer =
     (let easyPair = \<not> pl_EnablePrediction plan \<and> \<not> isHardOrUnknownNat (pi_Nat self) \<and> \<not> isHardOrUnknownNat (pi_Nat peer);
          hardPair = shouldAllowBirthdayFallback self peer
      in if easyPair then
           plan\<lparr>pl_SprayRounds := 1, pl_SprayBurst := 4, pl_SprayPerPacketSleep := 5 * millisecond,
             pl_SprayBurstGap := 6 * millisecond, pl_SprayPhaseGap := 20 * millisecond,
             pl_NominationDelay := 80 * millisecond, pl_NominationRetryInterval := 180 * millisecond\<rparr>
         else if hardPair then
           plan\<lparr>pl_SprayRounds := 3, pl_SprayBurst := 10, pl_SprayPerPacketSleep := 5 * millisecond,
             pl_SprayBurstGap := 8 * millisecond, pl_SprayPhaseGap := 30 * millisecond,
             pl_NominationDelay := 140 * millisecond\<rparr>
         else plan)"

definition enable_prediction :: "NatObservation \<Rightarrow> NatObservation \<Rightarrow> bool" where
  "enable_prediction self peer \<longleftrightarrow>
     no_ProbePortRestricted self \<or> no_ProbePortRestricted peer \<or>
     \<not> filteringEvidenceKnown self \<or> \<not> filteringEvidenceKnown peer \<or>
     no_MappingConfidenceLow self \<or> no_MappingConfidenceLow peer \<or>
     no_NATType self = ''symmetric'' \<or> no_NATType peer = ''symmetric'' \<or>
     conservativeNPSOnlyEvidence self \<or> conservativeNPSOnlyEvidence peer"

definition SelectPunchPlan :: "P2PPeerInfo \<Rightarrow> P2PPeerInfo \<Rightarrow> int64 \<Rightarrow> PunchPlan" where
  "SelectPunchPlan self peer handshakeTimeoutMs =
     (let enablePrediction = enable_prediction (pi_Nat self) (pi_Nat peer);
          intervals = BuildPredictionIntervals (pi_Nat peer) enablePrediction enablePrediction;
          handshakeTimeout = wrap64 (handshakeTimeoutMs * millisecond)
      in tunePunchPlan
           \<lparr>pl_EnablePrediction = enablePrediction,
            pl_UseTargetSpray = (enablePrediction \<or> length (no_Samples (pi_Nat peer)) = 0),
            pl_UseBirthdayAttack = False,
            pl_AllowBirthdayFallback = shouldAllowBirthdayFallback self peer,
            pl_PredictionInterval = (case intervals of [] \<Rightarrow> 0 | i # _ \<Rightarrow> i),
            pl_PredictionIntervals = intervals,
            pl_HandshakeTimeout = (if handshakeTimeout \<le> 0 then 20000 * millisecond else handshakeTimeout),
            pl_NominationDelay = 120 * millisecond,
            pl_NominationRetryInterval = 300 * millisecond,
            pl_SpraySpan = 128,
            pl_SprayRounds = 2,
            pl_SprayBurst = 8,
            pl_SprayPerPacketSleep = 5 * millisecond,
            pl_SprayBurstGap = 10 * millisecond,
            pl_SprayPhaseGap = 40 * millisecond,
            pl_BirthdayListenPorts = 64,
            pl_BirthdayTargetsPerPort = 128\<rparr>
           self peer)"

definition apply_interval :: "int64 \<Rightarrow> PunchPlan \<Rightarrow> PunchPlan" where
  "apply_interval value plan =
     (if 0 < value \<and> pl_EnablePrediction plan \<and> pl_PredictionInterval plan = DefaultPredictionInterval
      then plan\<lparr>pl_PredictionInterval := value,
             pl_PredictionIntervals :=
               (if pl_PredictionIntervals plan = [] then [value] else (pl_PredictionIntervals plan)[0 := value])\<rparr>
      else plan)"

text \<open>\<open>if cond { plan = f(plan) }\<close>.\<close>

definition set_if :: "bool \<Rightarrow> ('a \<Rightarrow> 'a) \<Rightarrow> 'a \<Rightarrow> 'a" where
  "set_if c f p = (if c then f p else p)"

definition ApplyProbePlanOptions ::
    "PunchPlan \<Rightarrow> P2PTraversalPolicy option \<Rightarrow> P2PPeerInfo \<Rightarrow> P2PPeerInfo \<Rightarrow> PunchPlan" where
  "ApplyProbePlanOptions plan policy self peer =
     (case policy of
        None \<Rightarrow> plan
      | Some t \<Rightarrow>
          (let plan = set_if (\<not> tp_ForcePredictOnRestricted t \<and>
                 \<not> no_MappingConfidenceLow (pi_Nat self) \<and> \<not> no_MappingConfidenceLow (pi_Nat peer) \<and>
                 (no_ProbePortRestricted (pi_Nat self) \<or> no_ProbePortRestricted (pi_Nat peer)))
               (\<lambda>p. set_if (0 < length (no_Samples (pi_Nat peer))) (\<lambda>p. p\<lparr>pl_UseTargetSpray := False\<rparr>)
                 (p\<lparr>pl_EnablePrediction := False, pl_PredictionInterval := 0\<rparr>)) plan;
             plan = plan\<lparr>pl_UseTargetSpray := tp_EnableTargetSpray t\<rparr>;
             plan = apply_interval (tp_DefaultPredictionInterval t) plan;
             plan = set_if (0 < tp_TargetSpraySpan t) (\<lambda>p. p\<lparr>pl_SpraySpan := tp_TargetSpraySpan t\<rparr>) plan;
             plan = set_if (0 < tp_TargetSprayRounds t) (\<lambda>p. p\<lparr>pl_SprayRounds := tp_TargetSprayRounds t\<rparr>) plan;
             plan = set_if (0 < tp_TargetSprayBurst t) (\<lambda>p. p\<lparr>pl_SprayBurst := tp_TargetSprayBurst t\<rparr>) plan;
             plan = set_if (0 \<le> tp_TargetSprayPacketSleepMs t)
               (\<lambda>p. p\<lparr>pl_SprayPerPacketSleep := wrap64 (tp_TargetSprayPacketSleepMs t * millisecond)\<rparr>) plan;
             plan = set_if (0 \<le> tp_TargetSprayBurstGapMs t)
               (\<lambda>p. p\<lparr>pl_SprayBurstGap := wrap64 (tp_TargetSprayBurstGapMs t * millisecond)\<rparr>) plan;
             plan = set_if (0 \<le> tp_TargetSprayPhaseGapMs t)
               (\<lambda>p. p\<lparr>pl_SprayPhaseGap := wrap64 (tp_TargetSprayPhaseGapMs t * millisecond)\<rparr>) plan;
             plan = set_if (0 < tp_BirthdayListenPorts t) (\<lambda>p. p\<lparr>pl_BirthdayListenPorts := tp_BirthdayListenPorts t\<rparr>) plan;
             plan = set_if (0 < tp_BirthdayTargetsPerPort t)
               (\<lambda>p. p\<lparr>pl_BirthdayTargetsPerPort := tp_BirthdayTargetsPerPort t\<rparr>) plan;
             plan = set_if (0 < tp_NominationDelayMs t)
               (\<lambda>p. p\<lparr>pl_NominationDelay := wrap64 (tp_NominationDelayMs t * millisecond)\<rparr>) plan;
             plan = set_if (0 < tp_NominationRetryMs t)
               (\<lambda>p. p\<lparr>pl_NominationRetryInterval := wrap64 (tp_NominationRetryMs t * millisecond)\<rparr>) plan
           in if tp_EnableBirthdayAttack t
              then set_if (shouldAllowBirthdayFallback self peer)
                (\<lambda>p. p\<lparr>pl_AllowBirthdayFallback := True, pl_UseBirthdayAttack := True\<rparr>) plan
              else plan\<lparr>pl_AllowBirthdayFallback := False, pl_UseBirthdayAttack := False\<rparr>))"

definition predictionIntervals :: "PunchPlan \<Rightarrow> int64 list" where
  "predictionIntervals p =
     (if pl_PredictionIntervals p \<noteq> [] then pl_PredictionIntervals p
      else if 0 < pl_PredictionInterval p then [pl_PredictionInterval p]
      else [DefaultPredictionInterval])"

definition nominationDelay :: "PunchPlan \<Rightarrow> int64" where
  "nominationDelay p =
     (let delay = pl_NominationDelay p
      in if delay \<le> 0 then 0
         else if 0 < pl_HandshakeTimeout p
         then (let maxDelay = quot (pl_HandshakeTimeout p) 6 in if 0 < maxDelay \<and> maxDelay < delay then maxDelay else delay)
         else delay)"

definition nominationRetryInterval :: "PunchPlan \<Rightarrow> int64" where
  "nominationRetryInterval p =
     (let interval = (if pl_NominationRetryInterval p \<le> 0 then 300 * millisecond else pl_NominationRetryInterval p);
          interval = (if 0 < pl_HandshakeTimeout p
            then (let maxInterval = quot (pl_HandshakeTimeout p) 5
                  in if 0 < maxInterval \<and> maxInterval < interval then maxInterval else interval)
            else interval)
      in if interval \<le> 0 then 50 * millisecond else interval)"

text \<open>The ports of a plan: \<open>BuildPunchTargets\<close> and \<open>BuildPredictedPunchTargetStages\<close> of \<open>punch_targets.go\<close> ask for these.\<close>

definition plan_ports :: "nat \<Rightarrow> int64 list \<Rightarrow> P2PPeerInfo \<Rightarrow> PunchPlan \<Rightarrow> int64 list option" where
  "plan_ports fuel offsets peer plan = BuildPredictedPorts fuel offsets (pi_Nat peer) (predictionIntervals plan) (pl_SpraySpan plan)"

subsection \<open>What a plan searches\<close>

lemma select_search [simp]:
  "pl_SpraySpan (SelectPunchPlan self peer ms) = 128"
  "pl_PredictionIntervals (SelectPunchPlan self peer ms) =
     BuildPredictionIntervals (pi_Nat peer) (enable_prediction (pi_Nat self) (pi_Nat peer)) (enable_prediction (pi_Nat self) (pi_Nat peer))"
  "pl_EnablePrediction (SelectPunchPlan self peer ms) = enable_prediction (pi_Nat self) (pi_Nat peer)"
  "pl_PredictionInterval (SelectPunchPlan self peer ms) =
     (case pl_PredictionIntervals (SelectPunchPlan self peer ms) of [] \<Rightarrow> 0 | i # _ \<Rightarrow> i)"
  by (simp_all add: SelectPunchPlan_def tunePunchPlan_def Let_def)

text \<open>Every interval of a plan is between 1 and \<open>m\<close>.\<close>

definition intervals_within :: "int64 \<Rightarrow> PunchPlan \<Rightarrow> bool" where
  "intervals_within m plan \<longleftrightarrow> set (pl_PredictionIntervals plan) \<subseteq> {1..m} \<and> pl_PredictionInterval plan \<le> m"

lemma select_within: "intervals_within 512 (SelectPunchPlan self peer ms)"
proof -
  define js where "js = pl_PredictionIntervals (SelectPunchPlan self peer ms)"
  have "set js \<subseteq> {1..512}"
    using prediction_intervals_ok by (simp add: js_def)
  then show ?thesis
    unfolding intervals_within_def select_search(4) js_def [symmetric] by (cases js) auto
qed

lemma apply_interval_within: "intervals_within m plan \<Longrightarrow> v \<le> m \<Longrightarrow> intervals_within m (apply_interval v plan)"
  using set_update_subset_insert [of "pl_PredictionIntervals plan" 0 v]
  by (auto simp: intervals_within_def apply_interval_def)

lemma set_if_keeps:
  "(\<And>p. pl_SpraySpan (f p) = pl_SpraySpan p) \<Longrightarrow> pl_SpraySpan (set_if c f q) = pl_SpraySpan q"
  "(\<And>p. pl_PredictionIntervals (f p) = pl_PredictionIntervals p) \<Longrightarrow>
    pl_PredictionIntervals (set_if c f q) = pl_PredictionIntervals q"
  "(\<And>p. pl_PredictionInterval (f p) = pl_PredictionInterval p) \<Longrightarrow>
    pl_PredictionInterval (set_if c f q) = pl_PredictionInterval q"
  by (simp_all add: set_if_def)

text \<open>The plan to which the configured interval is applied.\<close>

definition unpredicted :: "P2PTraversalPolicy \<Rightarrow> P2PPeerInfo \<Rightarrow> P2PPeerInfo \<Rightarrow> PunchPlan \<Rightarrow> PunchPlan" where
  "unpredicted t self peer plan =
     (set_if (\<not> tp_ForcePredictOnRestricted t \<and>
          \<not> no_MappingConfidenceLow (pi_Nat self) \<and> \<not> no_MappingConfidenceLow (pi_Nat peer) \<and>
          (no_ProbePortRestricted (pi_Nat self) \<or> no_ProbePortRestricted (pi_Nat peer)))
        (\<lambda>p. set_if (0 < length (no_Samples (pi_Nat peer))) (\<lambda>p. p\<lparr>pl_UseTargetSpray := False\<rparr>)
          (p\<lparr>pl_EnablePrediction := False, pl_PredictionInterval := 0\<rparr>)) plan)\<lparr>pl_UseTargetSpray := tp_EnableTargetSpray t\<rparr>"

lemma apply_interval_span [simp]: "pl_SpraySpan (apply_interval v p) = pl_SpraySpan p"
  by (simp add: apply_interval_def)

lemma unpredicted_facts [simp]:
  "pl_SpraySpan (unpredicted t self peer plan) = pl_SpraySpan plan"
  "pl_PredictionIntervals (unpredicted t self peer plan) = pl_PredictionIntervals plan"
  "pl_PredictionInterval (unpredicted t self peer plan) \<in> {0, pl_PredictionInterval plan}"
  by (simp_all add: unpredicted_def set_if_def)

lemma options_search:
  fixes t self peer plan
  defines "p1 \<equiv> apply_interval (tp_DefaultPredictionInterval t) (unpredicted t self peer plan)"
  shows "pl_SpraySpan (ApplyProbePlanOptions plan (Some t) self peer) =
      (if 0 < tp_TargetSpraySpan t then tp_TargetSpraySpan t else pl_SpraySpan plan)"
    and "pl_PredictionIntervals (ApplyProbePlanOptions plan (Some t) self peer) = pl_PredictionIntervals p1"
    and "pl_PredictionInterval (ApplyProbePlanOptions plan (Some t) self peer) = pl_PredictionInterval p1"
  unfolding ApplyProbePlanOptions_def Let_def option.case unpredicted_def [symmetric] p1_def [symmetric]
  by (simp_all add: set_if_keeps) (simp_all add: set_if_def p1_def)

lemma options_within:
  assumes "intervals_within m plan" and "tp_DefaultPredictionInterval t \<le> m" and "0 \<le> m"
  shows "intervals_within m (ApplyProbePlanOptions plan (Some t) self peer)"
proof -
  have "intervals_within m (unpredicted t self peer plan)"
    using assms unpredicted_facts(3) [of t self peer plan] by (auto simp: intervals_within_def)
  then show ?thesis
    using apply_interval_within [OF _ assms(2)] unfolding intervals_within_def options_search by blast
qed

text \<open>The intervals that the search uses, and how many ports they reach.\<close>

lemma within_search:
  assumes w: "intervals_within m plan" and m: "1 \<le> m"
  shows "\<exists>i \<in> set (sweep_intervals (predictionIntervals plan)). 0 < i \<and> i \<le> m"
    and "\<forall>i \<in> set (sweep_intervals (predictionIntervals plan)). i \<le> m"
proof -
  have e: "sweep_intervals (predictionIntervals plan) = predictionIntervals plan"
    by (simp add: sweep_intervals_def predictionIntervals_def)
  show "\<exists>i \<in> set (sweep_intervals (predictionIntervals plan)). 0 < i \<and> i \<le> m"
    using w m unfolding e unfolding predictionIntervals_def intervals_within_def DefaultPredictionInterval_def
    by (cases "pl_PredictionIntervals plan") auto
  show "\<forall>i \<in> set (sweep_intervals (predictionIntervals plan)). i \<le> m"
    using w m unfolding e unfolding predictionIntervals_def intervals_within_def DefaultPredictionInterval_def by auto
qed

lemma plan_ports_full:
  assumes w: "intervals_within 512 plan" and s: "0 < pl_SpraySpan plan" "pl_SpraySpan plan \<le> 255"
    and ip: "no_PublicIP (pi_Nat peer) \<noteq> []" and b: "no_ObservedBasePort (pi_Nat peer) \<in> port_range" and f: "65535 \<le> fuel"
  shows "\<exists>ports. plan_ports fuel offsets peer plan = Some ports \<and> distinct ports \<and> set ports \<subseteq> port_range \<and>
    int (length ports) = pl_SpraySpan plan"
proof -
  obtain i where i: "i \<in> set (sweep_intervals (predictionIntervals plan))" "0 < i" "i \<le> 512"
    using within_search(1) [OF w] by auto
  have "127 \<le> card (reachable (no_ObservedBasePort (pi_Nat peer)) (predictionIntervals plan))"
    by (rule reachable_many [OF b i])
  then have "pl_SpraySpan plan div 2 \<le> int (card (reachable (no_ObservedBasePort (pi_Nat peer)) (predictionIntervals plan)))"
    using s by linarith
  then show ?thesis
    unfolding plan_ports_def using s within_search(2) [OF w]
    by (intro predicted_ports_full [OF ip b _ _ _ _ f]) auto
qed

text \<open>An interval of 2048 or more reaches at most 63 ports.\<close>

lemma reachable_few:
  assumes b: "b \<in> port_range" and v: "2048 \<le> v"
  shows "card (reachable b [v]) \<le> 63"
proof -
  have "reachable b [v] \<subseteq> (\<lambda>k. b + v * k) ` {-31..31}"
  proof
    fix p
    assume p: "p \<in> reachable b [v]"
    then obtain k where k: "p - b = v * k" and r: "p \<in> port_range"
      using b v by (auto simp: reachable_def sweep_intervals_def intro: that [of 0])
    have "2048 * \<bar>k\<bar> \<le> v * \<bar>k\<bar>"
      using v by (intro mult_right_mono) auto
    also have "\<dots> = \<bar>p - b\<bar>"
      using k v by (simp add: abs_mult)
    also have "\<dots> \<le> 65534"
      using r b by (auto simp: port_range_def)
    finally have "k \<in> {-31..31}"
      by auto
    moreover have "p = b + v * k"
      using k by simp
    ultimately show "p \<in> (\<lambda>k. b + v * k) ` {-31..31}"
      by blast
  qed
  then have "card (reachable b [v]) \<le> card ((\<lambda>k. b + v * k) ` {-31..31})"
    by (rule card_mono [rotated]) simp
  also have "\<dots> \<le> card {-31..31::int}"
    by (rule card_image_le) simp
  finally show ?thesis
    by simp
qed

subsection \<open>Theorems\<close>

text \<open>C28: The port search of a hole-punching plan returns.  For a peer whose public address and observed base port are known,
  and for the plan of \<open>SelectPunchPlan\<close> with the configured options (or none) where the configured interval is at most 512
  and the configured span at most 255, \<open>BuildPredictedPorts\<close> ends within 65535 rounds of its loops and yields exactly
  as many ports as the span says, 128 by default, all different and all between 1 and 65535.\<close>

theorem punch_plan_ports:
  assumes "no_PublicIP (pi_Nat peer) \<noteq> []" and "1 \<le> no_ObservedBasePort (pi_Nat peer)"
    and "no_ObservedBasePort (pi_Nat peer) \<le> 65535" and "65535 \<le> fuel"
    and "pred_option (\<lambda>t. tp_DefaultPredictionInterval t \<le> 512 \<and> tp_TargetSpraySpan t \<le> 255) policy"
  shows "\<exists>ports. plan_ports fuel offsets peer (ApplyProbePlanOptions (SelectPunchPlan self peer ms) policy self peer) = Some ports \<and> distinct ports \<and> set ports \<subseteq> {1..65535} \<and>
    int (length ports) = (case policy of None \<Rightarrow> 128 | Some t \<Rightarrow> if 0 < tp_TargetSpraySpan t then tp_TargetSpraySpan t else 128)"
proof -
  let ?n = "case policy of None \<Rightarrow> 128 | Some t \<Rightarrow> if 0 < tp_TargetSpraySpan t then tp_TargetSpraySpan t else 128"
  define plan where "plan = ApplyProbePlanOptions (SelectPunchPlan self peer ms) policy self peer"
  have w: "intervals_within 512 plan \<and> pl_SpraySpan plan = ?n"
    using select_within options_within [OF select_within] assms(5)
    by (cases policy) (auto simp: plan_def ApplyProbePlanOptions_def [of _ None] options_search(1))
  have "0 < ?n \<and> ?n \<le> 255"
    using assms(5) by (auto split: option.splits)
  then show ?thesis
    using plan_ports_full [of plan peer fuel offsets] w assms(1-4) unfolding plan_def [symmetric] by (simp add: port_range_def)
qed


subsection \<open>Witnesses\<close>

definition nat_example :: NatObservation where
  "nat_example =
     \<lparr>no_PublicIP = ''198.51.100.7'', no_ObservedBasePort = 40000, no_ObservedInterval = 0, no_ProbePortRestricted = False,
      no_FilteringTested = True, no_MappingBehavior = ''unknown'', no_FilteringBehavior = ''unknown'', no_NATType = ''unknown'',
      no_ClassificationLevel = ''low'', no_ProbeIPCount = 1, no_ProbeEndpointCount = 1, no_ConflictingSignals = False,
      no_MappingConfidenceLow = True, no_PortMapping = None, no_Samples = []\<rparr>"

definition peer_example :: P2PPeerInfo where
  "peer_example = \<lparr>pi_Role = ''visitor'', pi_Nat = nat_example, pi_LocalAddrs = []\<rparr>"

definition policy_example :: "int64 \<Rightarrow> P2PTraversalPolicy" where
  "policy_example v =
     \<lparr>tp_ForcePredictOnRestricted = True, tp_EnableTargetSpray = True, tp_EnableBirthdayAttack = True,
      tp_DefaultPredictionInterval = v, tp_TargetSpraySpan = 128, tp_TargetSprayRounds = 2, tp_TargetSprayBurst = 8,
      tp_TargetSprayPacketSleepMs = 3, tp_TargetSprayBurstGapMs = 10, tp_TargetSprayPhaseGapMs = 40,
      tp_BirthdayListenPorts = 64, tp_BirthdayTargetsPerPort = 128, tp_NominationDelayMs = 0, tp_NominationRetryMs = 0\<rparr>"

theorem punch_plan_ports_witness:
  "no_PublicIP (pi_Nat peer_example) \<noteq> [] \<and> tp_DefaultPredictionInterval (policy_example 1) \<le> 512 \<and>
   (\<exists>ports. plan_ports 65535 [2, -2] peer_example
      (ApplyProbePlanOptions (SelectPunchPlan peer_example peer_example 20000) (Some (policy_example 1)) peer_example peer_example)
      = Some ports \<and> distinct ports \<and> set ports \<subseteq> {1..65535} \<and> int (length ports) = 128)"
  using punch_plan_ports [of peer_example 65535 "Some (policy_example 1)" "[2, -2]" peer_example 20000]
  by (simp add: peer_example_def nat_example_def policy_example_def)


end
