(* ===== verification/Spec2Isabelle.thy ===== *)
theory Spec2Isabelle
  imports Mux_Flow Mux_Flush Rate_Hier Cert_Cache Domain_Index Key_Index Policy_Geo
    P2P_Replay P2P_Candidate P2P_Plan
begin

text \<open>
  A verification of parts of \<open>nps\<close>, a reverse proxy that makes services behind NATs reachable.  A server (\<open>nps\<close>) and
  clients (\<open>npc\<close>) keep sessions open; every proxied connection is a stream of a session, limited by bandwidth limiters,
  found through indexes, admitted by access policies, and, in peer-to-peer mode, replaced by a direct path that both
  sides punch through their NATs.

  \<^bold>\<open>Vocabulary.\<close>  \<open>Prelude\<close> has the Go integers (unsigned: machine words; signed 64-bit: integers with \<open>wrap64\<close> where an
  operation can leave the range), Go's truncating division and shared lemmas.  \<open>Go_Strings\<close> has Go's \<open>strings\<close> and
  \<open>strconv\<close> functions, \<open>Netip\<close> the addresses and prefixes of \<open>net\<close> and \<open>net/netip\<close>, as far as the code uses them.
  Throughout, a method that runs under a mutex is one step; a compare-and-swap loop is its successful iteration; a clock
  reading is an argument; an object shared by pointers is a number into a store; the iteration order of a map is an argument
  or an association list where a result could depend on it.  What is outside \<open>src/\<close> (\<open>protowire\<close>, \<open>netipx\<close>, \<open>regexp\<close>,
  TLS, the network, float arithmetic that becomes an integer) is an argument, with its documented behaviour as a named
  hypothesis where a theorem needs it (\<open>protowire_ok\<close>, \<open>ipset_spec\<close>).

  \<^bold>\<open>The multiplexer\<close>, \<open>src/lib/mux\<close>.
  \<^item> \<open>Mux_Config\<close> (\<open>config.go\<close>, \<open>budget.go\<close>): configuration, its normalisation, the session's receive budget.
  \<^item> \<open>Mux_Window\<close> (\<open>conn.go\<close>): the window word packed into a \<open>uint64\<close>.
  \<^item> \<open>Mux_Send\<close> (\<open>conn_send_window.go\<close>): a writer cuts its buffer into segments, blocks and is woken by window updates.
    A write is cut into ordered segments and reports what was accepted (C18), and a write of 4 GiB is lost (C34).
  \<^item> \<open>Fifo\<close> (the interface of a queue, a locale), \<open>Mux_Chain\<close> (\<open>queue_chain.go\<close>, which interprets it: the doubling ring
    buffers are one unbounded queue, C19), \<open>Mux_RecvQueue\<close> (\<open>queue_receive_window.go\<close>), \<open>Mux_Recv\<close>
    (\<open>conn_receive_window.go\<close>): a reader's queue, its window updates and its share of the budget (C20).
  \<^item> \<open>Mux_Flow\<close>: both windows together with the frames and updates under way, as a step relation.  In every interleaving
    the bytes arrive in order, unchanged and without loss (C1), the counters of both ends agree (C2), and a blocked writer
    is never stuck (C3).
  \<^item> \<open>Mux_Packager\<close> (\<open>netpackager.go\<close>): frames on the wire and back (C21).
  \<^item> \<open>Mux_Buckets\<close> (\<open>queue_stream_bucket.go\<close>), \<open>Mux_Queue\<close> (\<open>queue.go\<close>): the write queue keeps the order of each class
    (C4) and starves no stream (C22); \<open>Mux_Cond\<close>: its one condition variable loses no wake-up (C6).
  \<^item> \<open>Mux_Flush\<close> (\<open>flush.go\<close>, \<open>writeSession\<close> of \<open>mux_io.go\<close>): what the connection gets are the encodings of the popped
    frames (C5).
  \<^item> \<open>Mux_Timing\<close> (\<open>mux.go\<close>, \<open>mux_io.go\<close>, \<open>budget.go\<close>): ping timeouts (C32), latency (C31), ping frames.
  \<^item> \<open>Mux_Session\<close> (\<open>mux.go\<close>, \<open>conn.go\<close>, \<open>mux_io.go\<close>): streams, their ids (C15, C35), the dispatch of received frames,
    half close (C17) and the end of a session (C16).

  \<^bold>\<open>Limits, caches and indexes.\<close>
  \<^item> \<open>Rate_Limit\<close> (\<open>src/lib/rate/rate.go\<close>): no run passes more than rate times time plus the burst (C7), partial writes are
    charged for what was accepted (C37); \<open>Rate_Hier\<close> (\<open>limiter.go\<close>): several limiters at once (C8) and what resetting one of
    them does to their hierarchy (C36).
  \<^item> \<open>LRU\<close> (\<open>src/lib/cache/lru.go\<close>): the cache is the most recently used keys (C10) and evicts each entry once (C26);
    \<open>Cert_Cache\<close> (\<open>cert.go\<close>), on top of it: served certificates are fresh (C27), relative paths are not renewed (C38).
  \<^item> \<open>Domain_Index\<close> (\<open>src/lib/index/host.go\<close>): the tree answers as the set of rules (C9); \<open>Key_Index\<close> (\<open>index.go\<close>): four
    maps under one locale, interpreted for each (C25).

  \<^bold>\<open>Addresses and access policies.\<close>
  \<^item> \<open>Common_Addr\<close> (\<open>src/lib/common/addr.go\<close>, \<open>addr_network.go\<close>): port lists (C30) and the local address offered to a
    peer (C29).
  \<^item> \<open>Policy_Host\<close>, \<open>Policy_Domain\<close>, \<open>Policy_IP\<close> (\<open>src/lib/policy\<close>: \<open>ip.go\<close>, \<open>domain.go\<close>, \<open>policy.go\<close>): the compiled matchers
    accept what some rule of the text accepts; wildcard rules (C33).
  \<^item> \<open>Policy_Geo\<close> (\<open>geoip.go\<close>, \<open>geosite.go\<close>): the search in a geo data file (C23), loading and caching (C24), and the
    decisions of source and destination policies over text and geo data together (C11).

  \<^bold>\<open>Peer-to-peer sessions\<close>, \<open>src/lib/p2p\<close>.
  \<^item> \<open>P2P_Replay\<close> (\<open>ReplayWindow\<close> of \<open>runtime_session.go\<close>): no packet is accepted twice (C14), unless the window overflows
    (C39).
  \<^item> \<open>P2P_Candidate\<close> (\<open>candidate.go\<close>): the address pairs as a state machine with one nomination and one final confirmation
    (C12), and a choice that does not depend on map order (C13).
  \<^item> \<open>P2P_Ports\<close> (\<open>port_prediction.go\<close>), \<open>P2P_Plan\<close> (\<open>punch_plan.go\<close>): the ports to try at the peer's NAT.  The search ends
    with the wanted number of ports for the default and for moderate configurations (C28), and does not for a large
    configured interval (C40).

  \<^bold>\<open>Fuel.\<close>  Four loops have a bound on their rounds.  \<open>getId\<close> needs at most two rounds per open stream and two more (C15).  The
  loop of \<open>WriteFull\<close> needs at most one round per byte.  The decoders of \<open>Policy_Geo\<close> need one round per byte, since every
  tag takes a byte; their definitions pass that bound, and the lemmas \<open>..._returns\<close> show that it is enough.  The port
  search of \<open>P2P_Ports\<close> needs 65535 rounds, the number of ports, when it ends (C28).

  \<^bold>\<open>Not modelled.\<close>  The connections themselves (TLS, KCP, QUIC, WebSocket, sockets), the proxies, the bridge and the client
  around the sessions, the object database, the web interface, configuration files, installation and the commands: their
  code is I/O, goroutines around it, reflection, or glue over packages outside the repository.  Of the peer-to-peer code: the
  probing, spraying and negotiation loops (timers and UDP), the packets (JSON and AES-GCM), the classification of NATs and
  the history of earlier sessions, whose results are arguments here, and router port mappings.  Of the multiplexer: the
  socket adapters, the blocking of goroutines other than through the condition variable of the write queue and the windows,
  and the rounding of \<open>float64\<close> arithmetic, whose results are arguments.  Strings are ASCII where letter case or white space
  matters.
\<close>

end
